(* ===== verification/Prelude.thy ===== *)
theory Prelude
  imports Main "HOL-Library.Word" "HOL-Library.Signed_Division"
    "HOL-Library.Char_ord" "HOL-Library.List_Lexorder" "HOL-Library.Multiset"
begin

text \<open>
  Shared vocabulary of the development: the machine types of the C++ sources, the
  failures a call can end in (C++ exceptions and undefined behaviour) with the bind of
  the result type, decimal rendering (\<open>std::to_string\<close>), and the generic lemmas on
  lists, options and words that the component theories use. The collections
  \<open>res_simps\<close> and \<open>text_simps\<close> gather the rewrite rules for results and rendered text.
\<close>

named_theorems res_simps \<open>rewrite rules for results and their bind\<close>
named_theorems text_simps \<open>rewrite rules for rendered text\<close>

section \<open>Machine types\<close>

type_synonym byte = "8 word"
type_synonym size_t = "64 word"
type_synonym u32 = "32 word"
type_synonym TensorId = nat
type_synonym NodeId = nat

text \<open>An id of type \<open>uint32_t\<close> is a natural number reduced to 32 bits where the code
  increments or casts it.\<close>

definition to_u32 :: "nat \<Rightarrow> nat" where
  "to_u32 n = n mod 2 ^ 32"

lemma to_u32_id [simp]: "n < 2 ^ 32 \<Longrightarrow> to_u32 n = n"
  by (simp add: to_u32_def)

section \<open>Failures and results\<close>

text \<open>
  Every exception the sources throw is a constructor; \<open>Undefined_behaviour\<close> stands for
  a step the C++ standard leaves undefined (a division by zero, a write outside a
  vector), which a faithful model must not turn into an ordinary value.
\<close>

datatype failure =
    Bad_batch int
  | Bad_height int
  | Bad_seq int
  | Seq_too_large int
  | Bad_channels int
  | Input_id_out_of_range nat
  | Output_id_out_of_range nat
  | Tensor_out_of_range nat
  | Node_out_of_range nat
  | Invalid_argument string
  | Runtime_error string
  | Bad_alloc
  | Undefined_behaviour string

type_synonym 'a res = "failure + 'a"

fun bind_res :: "'a res \<Rightarrow> ('a \<Rightarrow> 'b res) \<Rightarrow> 'b res" where
  "bind_res (Inl e) f = Inl e"
| "bind_res (Inr x) f = f x"

definition is_ok :: "'a res \<Rightarrow> bool" where
  "is_ok r = (case r of Inl _ \<Rightarrow> False | Inr _ \<Rightarrow> True)"

lemma is_ok_simps [simp, res_simps]: "\<not> is_ok (Inl e)" "is_ok (Inr x)"
  by (simp_all add: is_ok_def)

lemma bind_res_Inr [res_simps]:
  "bind_res r f = Inr y \<longleftrightarrow> (\<exists>x. r = Inr x \<and> f x = Inr y)"
  by (cases r) auto

lemma bind_res_Inl [res_simps]:
  "bind_res r f = Inl e \<longleftrightarrow> r = Inl e \<or> (\<exists>x. r = Inr x \<and> f x = Inl e)"
  by (cases r) auto

lemma is_ok_bind [res_simps]: "is_ok (bind_res r f) \<longleftrightarrow> (\<exists>x. r = Inr x \<and> is_ok (f x))"
  by (cases r) auto

lemma is_ok_iff [res_simps]: "is_ok r \<longleftrightarrow> (\<exists>x. r = Inr x)"
  by (cases r) auto

text \<open>A loop over a vector whose body may throw: the first failure ends it.\<close>

fun map_res :: "('a \<Rightarrow> 'b res) \<Rightarrow> 'a list \<Rightarrow> 'b list res" where
  "map_res f [] = Inr []"
| "map_res f (x # xs) = bind_res (f x) (\<lambda>y. bind_res (map_res f xs) (\<lambda>ys. Inr (y # ys)))"

lemma map_res_InrD:
  "map_res f xs = Inr ys \<Longrightarrow> length ys = length xs \<and> (\<forall>i < length xs. f (xs ! i) = Inr (ys ! i))"
proof (induction xs arbitrary: ys)
  case (Cons x xs)
  then obtain y zs where "f x = Inr y" "map_res f xs = Inr zs" "ys = y # zs"
    by (auto simp: res_simps)
  with Cons.IH [of zs] show ?case by (auto simp: less_Suc_eq_0_disj)
qed simp

lemma map_res_total: "(\<And>x. x \<in> set xs \<Longrightarrow> f x = Inr (g x)) \<Longrightarrow> map_res f xs = Inr (map g xs)"
  by (induction xs) auto

lemma map_res_ok_iff: "is_ok (map_res f xs) \<longleftrightarrow> (\<forall>x \<in> set xs. is_ok (f x))"
  by (induction xs) (auto simp: res_simps)

lemma map_res_append:
  "map_res f (xs @ ys) = bind_res (map_res f xs) (\<lambda>us. bind_res (map_res f ys) (\<lambda>vs. Inr (us @ vs)))"
proof (induction xs)
  case Nil
  then show ?case by (cases "map_res f ys") auto
next
  case (Cons x xs)
  then show ?case
    by (cases "f x"; cases "map_res f xs"; cases "map_res f ys") auto
qed

section \<open>Decimal rendering\<close>

definition digit_char :: "nat \<Rightarrow> char" where
  "digit_char d = char_of (48 + d)"

fun nat_digits :: "nat \<Rightarrow> string" where
  "nat_digits n = (if n < 10 then [digit_char n] else nat_digits (n div 10) @ [digit_char (n mod 10)])"

declare nat_digits.simps [simp del]

text \<open>\<open>std::to_string\<close> on signed integers.\<close>

definition to_string :: "int \<Rightarrow> string" where
  "to_string i = (if i < 0 then CHR ''-'' # nat_digits (nat (- i)) else nat_digits (nat i))"

definition nat_to_string :: "nat \<Rightarrow> string" where
  "nat_to_string n = nat_digits n"

definition is_digit :: "char \<Rightarrow> bool" where
  "is_digit c \<longleftrightarrow> 48 \<le> (of_char c :: nat) \<and> (of_char c :: nat) < 58"

lemma of_digit_char: "d < 10 \<Longrightarrow> (of_char (digit_char d) :: nat) = 48 + d"
  by (simp add: digit_char_def)

lemma digit_char_simps [simp]:
  "digit_char 0 = CHR ''0''" "digit_char (Suc 0) = CHR ''1''" "digit_char 1 = CHR ''1''"
  "digit_char 2 = CHR ''2''" "digit_char 3 = CHR ''3''" "digit_char 4 = CHR ''4''"
  "digit_char 5 = CHR ''5''" "digit_char 6 = CHR ''6''" "digit_char 7 = CHR ''7''"
  "digit_char 8 = CHR ''8''" "digit_char 9 = CHR ''9''"
  "digit_char (Suc (Suc 0)) = CHR ''2''"
  by code_simp+

text \<open>For evaluating a rendering at a numeral.\<close>

lemmas decimal_eval = to_string_def nat_to_string_def nat_digits.simps

lemma is_digit_digit_char: "d < 10 \<Longrightarrow> is_digit (digit_char d)"
  by (simp add: is_digit_def of_digit_char)

lemma digit_char_inj: "a < 10 \<Longrightarrow> b < 10 \<Longrightarrow> digit_char a = digit_char b \<Longrightarrow> a = b"
  by (metis add_left_cancel of_digit_char)

lemma nat_digits_digits: "c \<in> set (nat_digits n) \<Longrightarrow> is_digit c"
proof (induction n rule: nat_digits.induct)
  case (1 n)
  show ?case
  proof (cases "n < 10")
    case True
    with 1 show ?thesis by (simp add: nat_digits.simps [of n] is_digit_digit_char)
  next
    case False
    with 1 show ?thesis by (auto simp: nat_digits.simps [of n] is_digit_digit_char)
  qed
qed

lemma nat_digits_nonempty [simp]: "nat_digits n \<noteq> []"
  by (subst nat_digits.simps) simp

fun digits_value :: "string \<Rightarrow> nat" where
  "digits_value s = foldl (\<lambda>acc c. 10 * acc + ((of_char c :: nat) - 48)) 0 s"

lemma digits_value_nat_digits: "digits_value (nat_digits n) = n"
proof (induction n rule: nat_digits.induct)
  case (1 n)
  show ?case
  proof (cases "n < 10")
    case True
    then show ?thesis by (simp add: nat_digits.simps [of n] of_digit_char)
  next
    case False
    with 1 have "digits_value (nat_digits (n div 10)) = n div 10" by simp
    with False show ?thesis by (simp add: nat_digits.simps [of n] of_digit_char)
  qed
qed

lemma nat_digits_inj [simp]: "nat_digits a = nat_digits b \<longleftrightarrow> a = b"
  by (metis digits_value_nat_digits)

lemma nat_to_string_inj [simp]: "nat_to_string a = nat_to_string b \<longleftrightarrow> a = b"
  by (simp add: nat_to_string_def)

lemma nat_to_string_digits: "c \<in> set (nat_to_string n) \<Longrightarrow> is_digit c"
  by (auto simp: nat_to_string_def dest: nat_digits_digits)

section \<open>Lists\<close>

lemma list_all_nth: "list_all P xs \<longleftrightarrow> (\<forall>i < length xs. P (xs ! i))"
  by (simp add: list_all_length)

lemma distinct_map_nth: "distinct xs \<Longrightarrow> i < length xs \<Longrightarrow> j < length xs \<Longrightarrow> xs ! i = xs ! j \<longleftrightarrow> i = j"
  by (simp add: nth_eq_iff_index_eq)

lemma sum_list_ge_elem: "x \<in> set xs \<Longrightarrow> x \<le> sum_list (xs :: nat list)"
  by (induction xs) auto

text \<open>Updating one element by a function that keeps its length-independent parts.\<close>

lemma map_list_update_same: "i < length xs \<Longrightarrow> f y = f (xs ! i) \<Longrightarrow> map f (xs[i := y]) = map f xs"
  by (simp add: map_update list_update_same_conv)

section \<open>Words\<close>

lemma uint_of_int_size: "0 \<le> k \<Longrightarrow> k < 2 ^ 64 \<Longrightarrow> uint (of_int k :: size_t) = k"
  by (simp add: uint_word_of_int)

lemma unat_of_nat_size: "n < 2 ^ 64 \<Longrightarrow> unat (of_nat n :: size_t) = n"
  by (simp add: unat_of_nat)

section \<open>Bytes in memory\<close>

text \<open>A little-endian integer read from or written to a byte buffer, as \<open>memcpy\<close> does on
  the target.\<close>

fun le_nat :: "byte list \<Rightarrow> nat" where
  "le_nat [] = 0"
| "le_nat (b # bs) = unat b + 256 * le_nat bs"

fun le_bytes :: "nat \<Rightarrow> nat \<Rightarrow> byte list" where
  "le_bytes 0 n = []"
| "le_bytes (Suc k) n = of_nat (n mod 256) # le_bytes k (n div 256)"

definition le_int32 :: "byte list \<Rightarrow> int" where
  "le_int32 bs = sint (of_nat (le_nat bs) :: u32)"

lemma length_le_bytes [simp]: "length (le_bytes k n) = k"
  by (induction k arbitrary: n) auto

lemma le_nat_le_bytes: "n < 256 ^ k \<Longrightarrow> le_nat (le_bytes k n) = n"
proof (induction k arbitrary: n)
  case (Suc k)
  then have "n div 256 < 256 ^ k" by (simp add: less_mult_imp_div_less mult.commute)
  with Suc show ?case by (simp add: unat_of_nat)
qed simp

lemma le_nat_bound: "le_nat bs < 256 ^ length bs"
proof (induction bs)
  case (Cons b bs)
  have "unat b < 256" using unsigned_less [of b, where ?'a = nat] by simp
  then show ?case using Cons by simp
qed simp

lemma le_bytes_le_nat: "le_bytes (length bs) (le_nat bs) = bs"
proof (induction bs)
  case (Cons b bs)
  have "unat b < 256" using unsigned_less [of b, where ?'a = nat] by simp
  then have "(unat b + 256 * le_nat bs) mod 256 = unat b" "(unat b + 256 * le_nat bs) div 256 = le_nat bs"
    by auto
  then show ?case using Cons by simp
qed simp

text \<open>\<open>memcpy\<close> to an offset of a buffer, and the bytes read from one.\<close>

definition put_bytes :: "nat \<Rightarrow> byte list \<Rightarrow> byte list \<Rightarrow> byte list" where
  "put_bytes off src buf = take off buf @ src @ drop (off + length src) buf"

definition get_bytes :: "nat \<Rightarrow> nat \<Rightarrow> byte list \<Rightarrow> byte list" where
  "get_bytes off n buf = take n (drop off buf)"

lemma put_bytes_mid: "off = length xs \<Longrightarrow> length ys = length src \<Longrightarrow> put_bytes off src (xs @ ys @ zs) = xs @ src @ zs"
  by (simp add: put_bytes_def)

lemma length_put_bytes [simp]: "off + length src \<le> length buf \<Longrightarrow> length (put_bytes off src buf) = length buf"
  by (simp add: put_bytes_def)

lemma nth_put_bytes:
  "off + length src \<le> length buf \<Longrightarrow> i < length buf
     \<Longrightarrow> put_bytes off src buf ! i = (if off \<le> i \<and> i < off + length src then src ! (i - off) else buf ! i)"
  by (auto simp: put_bytes_def nth_append min_def)

lemma length_get_bytes [simp]: "off + n \<le> length buf \<Longrightarrow> length (get_bytes off n buf) = n"
  by (simp add: get_bytes_def)

lemma nth_get_bytes: "off + n \<le> length buf \<Longrightarrow> k < n \<Longrightarrow> get_bytes off n buf ! k = buf ! (off + k)"
  by (simp add: get_bytes_def)

lemma get_bytes_cong:
  assumes "off + n \<le> length a" "off + n \<le> length b" "\<And>i. off \<le> i \<Longrightarrow> i < off + n \<Longrightarrow> a ! i = b ! i"
  shows "get_bytes off n a = get_bytes off n b"
  using assms by (intro nth_equalityI) (simp_all add: nth_get_bytes)

lemma get_put_bytes: "off + length src \<le> length buf \<Longrightarrow> n = length src \<Longrightarrow> get_bytes off n (put_bytes off src buf) = src"
  by (simp add: get_bytes_def put_bytes_def)

lemma get_put_disjoint:
  assumes "off + length src \<le> length buf" "o' + n \<le> length buf" "o' + n \<le> off \<or> off + length src \<le> o'"
  shows "get_bytes o' n (put_bytes off src buf) = get_bytes o' n buf"
  using assms by (intro get_bytes_cong) (auto simp: nth_put_bytes)

end
