(* ===== verification/MilShape.thy ===== *)
theory MilShape
  imports Prelude
begin

text \<open>
  \<open>mil::TensorShape\<close> (src/core/mil_builder.hpp, .cpp): the four \<open>int32_t\<close> dimensions
  of an ANE tensor, \<open>validate()\<close> with its five throws in source order, and \<open>numel()\<close> /
  \<open>bytes()\<close> computed in \<open>size_t\<close> arithmetic. A validated shape is at most
  \<open>16384 * 65536\<close> elements, so none of the \<open>size_t\<close> products wraps.
\<close>

record TensorShape =
  batch :: int
  channels :: int
  height :: int
  seq :: int

abbreviation mk_shape :: "int \<Rightarrow> int \<Rightarrow> int \<Rightarrow> int \<Rightarrow> TensorShape" where
  "mk_shape b c h s \<equiv> \<lparr>batch = b, channels = c, height = h, seq = s\<rparr>"

definition validate :: "TensorShape \<Rightarrow> unit res" where
  "validate s =
     (if batch s \<noteq> 1 then Inl (Bad_batch (batch s))
      else if height s \<noteq> 1 then Inl (Bad_height (height s))
      else if seq s \<le> 0 \<or> seq s smod 16 \<noteq> 0 then Inl (Bad_seq (seq s))
      else if seq s > 65536 then Inl (Seq_too_large (seq s))
      else if channels s \<le> 0 \<or> channels s > 16384 then Inl (Bad_channels (channels s))
      else Inr ())"

definition numel :: "TensorShape \<Rightarrow> size_t" where
  "numel s = of_int (batch s) * of_int (channels s) * of_int (height s) * of_int (seq s)"

definition shape_bytes :: "TensorShape \<Rightarrow> size_t" where
  "shape_bytes s = numel s * 2"

definition shape_ok :: "TensorShape \<Rightarrow> bool" where
  "shape_ok s \<longleftrightarrow> batch s = 1 \<and> height s = 1 \<and> 0 < seq s \<and> 16 dvd seq s \<and> seq s \<le> 65536
     \<and> 0 < channels s \<and> channels s \<le> 16384"

lemma smod_eq_0_iff_dvd: "(a :: int) smod b = 0 \<longleftrightarrow> b dvd a"
  by (auto simp: signed_modulo_int_def sgn_0_0 mod_eq_0_iff_dvd)

lemma validate_ok_iff: "validate s = Inr () \<longleftrightarrow> shape_ok s"
  by (auto simp: validate_def shape_ok_def smod_eq_0_iff_dvd)

lemma validate_unit [simp]: "validate s = Inr u \<longleftrightarrow> shape_ok s"
  using validate_ok_iff [of s] by (cases u) simp

lemma shape_ok_dims: "shape_ok s \<Longrightarrow> s = mk_shape 1 (channels s) 1 (seq s)"
  by (cases s) (simp add: shape_ok_def)

section \<open>No wrap-around in the element count\<close>

lemma shape_ok_product_bound:
  assumes "shape_ok s"
  shows "0 < channels s * seq s" "channels s * seq s \<le> 2 ^ 30"
proof -
  from assms have "0 < channels s" "0 < seq s" "channels s \<le> 16384" "seq s \<le> 65536"
    by (simp_all add: shape_ok_def)
  then have "channels s * seq s \<le> 16384 * 65536" by (intro mult_mono) auto
  then show "channels s * seq s \<le> 2 ^ 30" by simp
  show "0 < channels s * seq s" using \<open>0 < channels s\<close> \<open>0 < seq s\<close> by simp
qed

lemma uint_numel: "shape_ok s \<Longrightarrow> uint (numel s) = channels s * seq s"
proof -
  assume ok: "shape_ok s"
  then have "numel s = of_int (channels s * seq s)"
    by (simp add: numel_def shape_ok_def)
  moreover have "uint (of_int (channels s * seq s) :: size_t) = channels s * seq s"
    using shape_ok_product_bound [OF ok] by (intro uint_of_int_size) auto
  ultimately show ?thesis by (simp only:)
qed

lemma uint_shape_bytes: "shape_ok s \<Longrightarrow> uint (shape_bytes s) = 2 * channels s * seq s"
proof -
  assume ok: "shape_ok s"
  have "uint (numel s) * 2 < 2 ^ 64"
    using shape_ok_product_bound [OF ok] by (simp add: uint_numel [OF ok])
  then have "uint (numel s * 2) = uint (numel s) * 2"
    by (simp add: uint_word_ariths)
  then show ?thesis by (simp add: shape_bytes_def uint_numel [OF ok])
qed

lemma unat_shape_bytes: "shape_ok s \<Longrightarrow> unat (shape_bytes s) = nat (2 * channels s * seq s)"
  by (simp add: unat_eq_nat_uint uint_shape_bytes)

end
