(* ===== verification/LibaneOps.thy ===== *)
theory LibaneOps
  imports Prelude
begin

text \<open>
  \<open>libane_op_t\<close> and \<open>libane_status_t\<close> of include/libane.h. An enum object of the C ABI can
  hold an \<open>int\<close> that is no enumerator; \<open>LIBANE_OP_OTHER\<close> carries such a value, which the
  sources handle in their \<open>default:\<close> branches.
\<close>

datatype libane_op_t =
    LIBANE_OP_MATMUL
  | LIBANE_OP_CONV2D
  | LIBANE_OP_LAYER_NORM
  | LIBANE_OP_GELU
  | LIBANE_OP_SOFTMAX
  | LIBANE_OP_ADD
  | LIBANE_OP_MUL
  | LIBANE_OP_TRANSPOSE
  | LIBANE_OP_CAST
  | LIBANE_OP_SILU
  | LIBANE_OP_RMSNORM
  | LIBANE_OP_LAYERNORM
  | LIBANE_OP_AVG_POOL
  | LIBANE_OP_MAX_POOL
  | LIBANE_OP_LOGICAL_AND
  | LIBANE_OP_LOGICAL_OR
  | LIBANE_OP_LOGICAL_XOR
  | LIBANE_OP_REDUCE_PROD
  | LIBANE_OP_SCATTER
  | LIBANE_OP_GATHER
  | LIBANE_OP_SCATTER_ND
  | LIBANE_OP_SCATTER_ALONG_AXIS
  | LIBANE_OP_NEG
  | LIBANE_OP_MOD
  | LIBANE_OP_SINH
  | LIBANE_OP_COSH
  | LIBANE_OP_TAN
  | LIBANE_OP_ASIN
  | LIBANE_OP_ACOS
  | LIBANE_OP_RESHAPE
  | LIBANE_OP_CONCAT
  | LIBANE_OP_SLICE_BY_INDEX
  | LIBANE_OP_REDUCE_SUM
  | LIBANE_OP_REDUCE_MEAN
  | LIBANE_OP_REDUCE_MAX
  | LIBANE_OP_SUB
  | LIBANE_OP_REAL_DIV
  | LIBANE_OP_SQRT
  | LIBANE_OP_LOG
  | LIBANE_OP_RSQRT
  | LIBANE_OP_SELECT
  | LIBANE_OP_RELU
  | LIBANE_OP_TANH
  | LIBANE_OP_SIGMOID
  | LIBANE_OP_HARDSWISH
  | LIBANE_OP_LEAKY_RELU
  | LIBANE_OP_ELU
  | LIBANE_OP_PIXEL_SHUFFLE
  | LIBANE_OP_PWL_ACTIVATION
  | LIBANE_OP_OTHER int

primrec op_code :: "libane_op_t \<Rightarrow> int" where
  "op_code LIBANE_OP_MATMUL = 0"
| "op_code LIBANE_OP_CONV2D = 1"
| "op_code LIBANE_OP_LAYER_NORM = 2"
| "op_code LIBANE_OP_GELU = 3"
| "op_code LIBANE_OP_SOFTMAX = 4"
| "op_code LIBANE_OP_ADD = 5"
| "op_code LIBANE_OP_MUL = 6"
| "op_code LIBANE_OP_TRANSPOSE = 7"
| "op_code LIBANE_OP_CAST = 8"
| "op_code LIBANE_OP_SILU = 9"
| "op_code LIBANE_OP_RMSNORM = 10"
| "op_code LIBANE_OP_LAYERNORM = 11"
| "op_code LIBANE_OP_AVG_POOL = 12"
| "op_code LIBANE_OP_MAX_POOL = 13"
| "op_code LIBANE_OP_LOGICAL_AND = 14"
| "op_code LIBANE_OP_LOGICAL_OR = 15"
| "op_code LIBANE_OP_LOGICAL_XOR = 16"
| "op_code LIBANE_OP_REDUCE_PROD = 17"
| "op_code LIBANE_OP_SCATTER = 18"
| "op_code LIBANE_OP_GATHER = 19"
| "op_code LIBANE_OP_SCATTER_ND = 20"
| "op_code LIBANE_OP_SCATTER_ALONG_AXIS = 21"
| "op_code LIBANE_OP_NEG = 22"
| "op_code LIBANE_OP_MOD = 23"
| "op_code LIBANE_OP_SINH = 24"
| "op_code LIBANE_OP_COSH = 25"
| "op_code LIBANE_OP_TAN = 26"
| "op_code LIBANE_OP_ASIN = 27"
| "op_code LIBANE_OP_ACOS = 28"
| "op_code LIBANE_OP_RESHAPE = 29"
| "op_code LIBANE_OP_CONCAT = 30"
| "op_code LIBANE_OP_SLICE_BY_INDEX = 31"
| "op_code LIBANE_OP_REDUCE_SUM = 32"
| "op_code LIBANE_OP_REDUCE_MEAN = 33"
| "op_code LIBANE_OP_REDUCE_MAX = 34"
| "op_code LIBANE_OP_SUB = 35"
| "op_code LIBANE_OP_REAL_DIV = 36"
| "op_code LIBANE_OP_SQRT = 37"
| "op_code LIBANE_OP_LOG = 38"
| "op_code LIBANE_OP_RSQRT = 39"
| "op_code LIBANE_OP_SELECT = 40"
| "op_code LIBANE_OP_RELU = 41"
| "op_code LIBANE_OP_TANH = 42"
| "op_code LIBANE_OP_SIGMOID = 43"
| "op_code LIBANE_OP_HARDSWISH = 44"
| "op_code LIBANE_OP_LEAKY_RELU = 45"
| "op_code LIBANE_OP_ELU = 46"
| "op_code LIBANE_OP_PIXEL_SHUFFLE = 47"
| "op_code LIBANE_OP_PWL_ACTIVATION = 48"
| "op_code (LIBANE_OP_OTHER i) = i"

datatype libane_status_t =
    LIBANE_OK
  | LIBANE_ERR_UNAVAILABLE
  | LIBANE_ERR_INVALID_SHAPE
  | LIBANE_ERR_INVALID_OP
  | LIBANE_ERR_COMPILE_FAILED
  | LIBANE_ERR_EXECUTE_FAILED
  | LIBANE_ERR_OOM
  | LIBANE_ERR_INVALID_ARG

end
