(* ===== verification/AneGraph.thy ===== *)
theory AneGraph
  imports MilShape LibaneOps
begin

text \<open>
  The graph IR (src/graph/ane_graph.hpp, ane_graph.cpp). \<open>AneGraph\<close> is the class's
  private state; the mutators \<open>add_input\<close>, \<open>add_op\<close> and \<open>mark_output\<close> return the new
  state or the exception they throw, and the two checked accessors \<open>tensor\<close> and \<open>node\<close>
  throw \<open>std::out_of_range\<close>. Ids are \<open>uint32_t\<close>: every increment and every cast of a
  vector size to \<open>TensorId\<close> is reduced modulo \<open>2 ^ 32\<close>.

  \<open>built\<close> is reachability by the mutators from the empty graph; \<open>graph_wf\<close> is the
  invariant the rest of the pipeline relies on.
\<close>

definition kInvalidTensorId :: nat where
  "kInvalidTensorId = 0xFFFFFFFF"

definition kInvalidNodeId :: nat where
  "kInvalidNodeId = 0xFFFFFFFF"

record GraphTensor =
  t_id :: TensorId
  t_name :: string
  t_shape :: TensorShape
  t_producer :: NodeId

record GraphNode =
  n_id :: NodeId
  n_op :: libane_op_t
  n_inputs :: "TensorId list"
  n_output :: TensorId
  n_weights :: "byte list"
  n_weight_file :: string

record AneGraph =
  tensors :: "GraphTensor list"
  nodes :: "GraphNode list"
  graph_inputs :: "TensorId list"
  graph_outputs :: "TensorId list"
  next_tensor_id :: TensorId
  next_node_id :: NodeId

definition empty_graph :: AneGraph where
  "empty_graph = \<lparr>tensors = [], nodes = [], graph_inputs = [], graph_outputs = [],
     next_tensor_id = 0, next_node_id = 0\<rparr>"

section \<open>Operations\<close>

definition alloc_tensor :: "string \<Rightarrow> TensorShape \<Rightarrow> NodeId \<Rightarrow> AneGraph \<Rightarrow> TensorId \<times> AneGraph" where
  "alloc_tensor nm shp producer g =
     (let t = \<lparr>t_id = next_tensor_id g, t_name = nm, t_shape = shp, t_producer = producer\<rparr>
      in (t_id t, g\<lparr>next_tensor_id := to_u32 (next_tensor_id g + 1), tensors := tensors g @ [t]\<rparr>))"

definition add_input :: "string \<Rightarrow> TensorShape \<Rightarrow> AneGraph \<Rightarrow> (TensorId \<times> AneGraph) res" where
  "add_input nm shp g =
     bind_res (validate shp) (\<lambda>_.
       let (tid, g') = alloc_tensor nm shp kInvalidNodeId g
       in Inr (tid, g'\<lparr>graph_inputs := graph_inputs g' @ [tid]\<rparr>))"

fun check_input_ids :: "nat \<Rightarrow> TensorId list \<Rightarrow> unit res" where
  "check_input_ids n [] = Inr ()"
| "check_input_ids n (tid # ids) =
     (if tid \<ge> to_u32 n then Inl (Input_id_out_of_range tid) else check_input_ids n ids)"

definition weight_file_name :: "NodeId \<Rightarrow> string" where
  "weight_file_name i = ''w'' @ nat_to_string i @ ''.bin''"

text \<open>The pair \<open>(weights, weights_len)\<close> of the C++ signature is an option: \<open>None\<close> is
  \<open>nullptr\<close>, \<open>Some ws\<close> a pointer to \<open>length ws\<close> bytes.\<close>

definition add_op ::
  "libane_op_t \<Rightarrow> TensorId list \<Rightarrow> TensorShape \<Rightarrow> byte list option \<Rightarrow> AneGraph
     \<Rightarrow> (TensorId \<times> AneGraph) res" where
  "add_op op inputs output_shape weights g =
     bind_res (validate output_shape) (\<lambda>_.
     bind_res (check_input_ids (length (tensors g)) inputs) (\<lambda>_.
       let node_id = next_node_id g;
           g1 = g\<lparr>next_node_id := to_u32 (next_node_id g + 1)\<rparr>;
           ws = (case weights of None \<Rightarrow> [] | Some b \<Rightarrow> b);
           wf = (if ws \<noteq> [] then weight_file_name node_id else '''');
           out_name = ''t'' @ nat_to_string (next_tensor_id g1);
           (out_id, g2) = alloc_tensor out_name output_shape node_id g1;
           n = \<lparr>n_id = node_id, n_op = op, n_inputs = inputs, n_output = out_id,
                n_weights = ws, n_weight_file = wf\<rparr>
       in Inr (out_id, g2\<lparr>nodes := nodes g2 @ [n]\<rparr>)))"

definition mark_output :: "TensorId \<Rightarrow> string \<Rightarrow> AneGraph \<Rightarrow> AneGraph res" where
  "mark_output tid nm g =
     (if tid \<ge> to_u32 (length (tensors g)) then Inl (Output_id_out_of_range tid)
      else let ts = (if nm \<noteq> '''' then (tensors g)[tid := ((tensors g) ! tid)\<lparr>t_name := nm\<rparr>]
                     else tensors g)
           in Inr (g\<lparr>tensors := ts, graph_outputs := graph_outputs g @ [tid]\<rparr>))"

definition tensor :: "AneGraph \<Rightarrow> TensorId \<Rightarrow> GraphTensor res" where
  "tensor g i = (if i \<ge> to_u32 (length (tensors g)) then Inl (Tensor_out_of_range i)
                 else Inr (tensors g ! i))"

definition node :: "AneGraph \<Rightarrow> NodeId \<Rightarrow> GraphNode res" where
  "node g i = (if i \<ge> to_u32 (length (nodes g)) then Inl (Node_out_of_range i)
               else Inr (nodes g ! i))"

section \<open>Reachable graphs\<close>

inductive built :: "AneGraph \<Rightarrow> bool" where
  built_empty: "built empty_graph"
| built_input: "built g \<Longrightarrow> add_input nm shp g = Inr (tid, g') \<Longrightarrow> built g'"
| built_op: "built g \<Longrightarrow> add_op op ins shp ws g = Inr (tid, g') \<Longrightarrow> built g'"
| built_output: "built g \<Longrightarrow> mark_output tid nm g = Inr g' \<Longrightarrow> built g'"

section \<open>What each operation changes\<close>

lemma alloc_tensor_simps [simp]:
  "fst (alloc_tensor nm shp p g) = next_tensor_id g"
  "tensors (snd (alloc_tensor nm shp p g)) =
     tensors g @ [\<lparr>t_id = next_tensor_id g, t_name = nm, t_shape = shp, t_producer = p\<rparr>]"
  "nodes (snd (alloc_tensor nm shp p g)) = nodes g"
  "graph_inputs (snd (alloc_tensor nm shp p g)) = graph_inputs g"
  "graph_outputs (snd (alloc_tensor nm shp p g)) = graph_outputs g"
  "next_tensor_id (snd (alloc_tensor nm shp p g)) = to_u32 (next_tensor_id g + 1)"
  "next_node_id (snd (alloc_tensor nm shp p g)) = next_node_id g"
  by (simp_all add: alloc_tensor_def Let_def)

lemma check_input_ids_ok:
  "check_input_ids n ids = Inr () \<longleftrightarrow> (\<forall>x \<in> set ids. x < to_u32 n)"
  by (induction ids) auto

lemma check_input_ids_unit [simp]: "check_input_ids n ids = Inr u \<longleftrightarrow> (\<forall>x \<in> set ids. x < to_u32 n)"
  using check_input_ids_ok by (cases u) simp

lemma add_input_InrD:
  assumes "add_input nm shp g = Inr (tid, g')"
  shows "shape_ok shp" "tid = next_tensor_id g"
    "tensors g' = tensors g @ [\<lparr>t_id = tid, t_name = nm, t_shape = shp, t_producer = kInvalidNodeId\<rparr>]"
    "nodes g' = nodes g" "graph_inputs g' = graph_inputs g @ [tid]"
    "graph_outputs g' = graph_outputs g"
    "next_tensor_id g' = to_u32 (next_tensor_id g + 1)" "next_node_id g' = next_node_id g"
  using assms by (auto simp: add_input_def res_simps case_prod_beta Let_def)

lemma add_op_InrD:
  assumes "add_op op ins shp ws g = Inr (tid, g')"
  shows "shape_ok shp" "tid = next_tensor_id g" "\<forall>x \<in> set ins. x < to_u32 (length (tensors g))"
    "tensors g' = tensors g @ [\<lparr>t_id = tid, t_name = ''t'' @ nat_to_string tid, t_shape = shp,
        t_producer = next_node_id g\<rparr>]"
    "nodes g' = nodes g @ [\<lparr>n_id = next_node_id g, n_op = op, n_inputs = ins, n_output = tid,
        n_weights = (case ws of None \<Rightarrow> [] | Some b \<Rightarrow> b),
        n_weight_file = (if (case ws of None \<Rightarrow> [] | Some b \<Rightarrow> b) \<noteq> []
                         then weight_file_name (next_node_id g) else '''')\<rparr>]"
    "graph_inputs g' = graph_inputs g" "graph_outputs g' = graph_outputs g"
    "next_tensor_id g' = to_u32 (next_tensor_id g + 1)"
    "next_node_id g' = to_u32 (next_node_id g + 1)"
  using assms by (auto simp: add_op_def res_simps case_prod_beta Let_def)

lemma mark_output_InrD:
  assumes "mark_output tid nm g = Inr g'"
  shows "tid < to_u32 (length (tensors g))" "length (tensors g') = length (tensors g)"
    "map t_id (tensors g') = map t_id (tensors g)"
    "map t_shape (tensors g') = map t_shape (tensors g)"
    "map t_producer (tensors g') = map t_producer (tensors g)"
    "nodes g' = nodes g" "graph_inputs g' = graph_inputs g"
    "graph_outputs g' = graph_outputs g @ [tid]"
    "next_tensor_id g' = next_tensor_id g" "next_node_id g' = next_node_id g"
proof -
  have lt: "to_u32 (length (tensors g)) \<le> length (tensors g)" by (simp add: to_u32_def)
  then show "tid < to_u32 (length (tensors g))" "length (tensors g') = length (tensors g)"
    "nodes g' = nodes g" "graph_inputs g' = graph_inputs g"
    "graph_outputs g' = graph_outputs g @ [tid]"
    "next_tensor_id g' = next_tensor_id g" "next_node_id g' = next_node_id g"
    "map t_id (tensors g') = map t_id (tensors g)"
    "map t_shape (tensors g') = map t_shape (tensors g)"
    "map t_producer (tensors g') = map t_producer (tensors g)"
    using assms by (auto simp: mark_output_def Let_def map_list_update_same split: if_splits)
qed

section \<open>The invariant\<close>

definition node_wf :: "AneGraph \<Rightarrow> GraphNode \<Rightarrow> bool" where
  "node_wf g n \<longleftrightarrow> n_output n < length (tensors g)
     \<and> map t_producer (tensors g) ! n_output n = n_id n
     \<and> (\<forall>x \<in> set (n_inputs n). x < n_output n)
     \<and> n_weight_file n = (if n_weights n = [] then '''' else weight_file_name (n_id n))"

definition graph_wf :: "AneGraph \<Rightarrow> bool" where
  "graph_wf g \<longleftrightarrow>
     length (tensors g) < 2 ^ 32
     \<and> next_tensor_id g = length (tensors g)
     \<and> next_node_id g = length (nodes g)
     \<and> map t_id (tensors g) = [0..<length (tensors g)]
     \<and> list_all shape_ok (map t_shape (tensors g))
     \<and> map n_id (nodes g) = [0..<length (nodes g)]
     \<and> list_all (node_wf g) (nodes g)
     \<and> sorted_wrt (<) (map n_output (nodes g))
     \<and> sorted_wrt (<) (graph_inputs g)
     \<and> set (graph_inputs g) \<inter> n_output ` set (nodes g) = {}
     \<and> set (graph_inputs g) \<union> n_output ` set (nodes g) = {..<length (tensors g)}
     \<and> (\<forall>x \<in> set (graph_outputs g). x < length (tensors g))"

lemma length_nodes_le: "graph_wf g \<Longrightarrow> length (nodes g) \<le> length (tensors g)"
proof -
  assume wf: "graph_wf g"
  then have "distinct (map n_output (nodes g))" by (simp add: graph_wf_def strict_sorted_iff)
  then have "card (set (map n_output (nodes g))) = length (nodes g)"
    using distinct_card by fastforce
  moreover have "set (map n_output (nodes g)) \<subseteq> {..<length (tensors g)}"
    using wf by (auto simp: graph_wf_def)
  then have "card (set (map n_output (nodes g))) \<le> length (tensors g)"
    by (metis card_lessThan card_mono finite_lessThan)
  ultimately show ?thesis by simp
qed

lemma graph_wf_empty: "graph_wf empty_graph"
  by (simp add: graph_wf_def empty_graph_def)

lemma node_wf_mono:
  "node_wf g n \<Longrightarrow> tensors g' = tensors g @ ts \<Longrightarrow> node_wf g' n"
  by (auto simp: node_wf_def nth_append)

lemma sorted_snoc_bound:
  "sorted_wrt (<) xs \<Longrightarrow> (\<forall>x \<in> set xs. x < (k :: nat)) \<Longrightarrow> sorted_wrt (<) (xs @ [k])"
  by (simp add: sorted_wrt_append)

lemma graph_wf_add_input:
  assumes wf: "graph_wf g" and add: "add_input nm shp g = Inr (tid, g')"
    and cap: "length (tensors g') < 2 ^ 32"
  shows "graph_wf g'"
proof -
  note d = add_input_InrD [OF add]
  have tid: "tid = length (tensors g)" using wf d(2) by (simp add: graph_wf_def)
  have nwf: "list_all (node_wf g') (nodes g')"
    using wf d(3,4) by (auto simp: graph_wf_def list_all_iff intro: node_wf_mono)
  have srt: "sorted_wrt (<) (graph_inputs g')"
    using wf d(5) tid by (auto simp: graph_wf_def intro!: sorted_snoc_bound)
  show ?thesis
    using wf d cap nwf srt tid unfolding graph_wf_def
    by (auto simp: lessThan_Suc)
qed

lemma graph_wf_add_op:
  assumes wf: "graph_wf g" and add: "add_op op ins shp ws g = Inr (tid, g')"
    and cap: "length (tensors g') < 2 ^ 32"
  shows "graph_wf g'"
proof -
  note d = add_op_InrD [OF add]
  have cap0: "length (tensors g) < 2 ^ 32" using wf by (simp add: graph_wf_def)
  have tid: "tid = length (tensors g)" using wf d(2) by (simp add: graph_wf_def)
  have nn: "next_node_id g = length (nodes g)" using wf by (simp add: graph_wf_def)
  have "node_wf g' n" if "n \<in> set (nodes g)" for n
    using wf d(4) that by (auto simp: graph_wf_def list_all_iff intro: node_wf_mono)
  moreover have "node_wf g' (last (nodes g'))"
    using d(3-5) tid cap0 by (auto simp: node_wf_def nth_append)
  ultimately have nwf: "list_all (node_wf g') (nodes g')"
    using d(5) by (auto simp: list_all_iff)
  have srt: "sorted_wrt (<) (map n_output (nodes g'))"
    using wf d(5) tid by (auto simp: graph_wf_def intro!: sorted_snoc_bound)
  have "length (nodes g) < 2 ^ 32 - 1" using length_nodes_le [OF wf] cap d(4) by simp
  then show ?thesis
    using wf d cap nwf srt tid nn unfolding graph_wf_def
    by (auto simp: lessThan_Suc)
qed

lemma graph_wf_mark_output:
  assumes wf: "graph_wf g" and mk: "mark_output tid nm g = Inr g'"
  shows "graph_wf g'"
proof -
  note d = mark_output_InrD [OF mk]
  have tid: "tid < length (tensors g)"
    using wf d(1) by (simp add: graph_wf_def)
  have "node_wf g' n \<longleftrightarrow> node_wf g n" for n
    by (simp add: node_wf_def d)
  then show ?thesis using wf d tid by (auto simp: graph_wf_def list_all_iff)
qed

lemma tensors_grow:
  "add_input nm shp g = Inr (tid, g') \<Longrightarrow> length (tensors g) \<le> length (tensors g')"
  "add_op op ins shp ws g = Inr (tid, g') \<Longrightarrow> length (tensors g) \<le> length (tensors g')"
  by (auto dest!: add_input_InrD(3) add_op_InrD(4))

lemma built_graph_wf: "built g \<Longrightarrow> length (tensors g) < 2 ^ 32 \<Longrightarrow> graph_wf g"
proof (induction rule: built.induct)
  case built_empty
  show ?case by (rule graph_wf_empty)
next
  case (built_input g nm shp tid g')
  then have "graph_wf g" using tensors_grow(1) le_less_trans by blast
  with built_input show ?case by (blast intro: graph_wf_add_input)
next
  case (built_op g op ins shp ws tid g')
  then have "graph_wf g" using tensors_grow(2) le_less_trans by blast
  with built_op show ?case by (blast intro: graph_wf_add_op)
next
  case (built_output g tid nm g')
  then show ?case by (metis graph_wf_mark_output mark_output_InrD(2))
qed


section \<open>Reading a well-formed graph\<close>

lemma tensor_ok: "graph_wf g \<Longrightarrow> i < length (tensors g) \<Longrightarrow> tensor g i = Inr (tensors g ! i)"
  by (simp add: tensor_def graph_wf_def)

lemma node_ok: "graph_wf g \<Longrightarrow> i < length (nodes g) \<Longrightarrow> node g i = Inr (nodes g ! i)"
  using length_nodes_le [of g] by (simp add: node_def graph_wf_def)

lemma wf_t_id: "graph_wf g \<Longrightarrow> i < length (tensors g) \<Longrightarrow> t_id (tensors g ! i) = i"
  by (metis add_0 graph_wf_def length_map nth_map nth_upt)

lemma wf_shape_ok: "graph_wf g \<Longrightarrow> i < length (tensors g) \<Longrightarrow> shape_ok (t_shape (tensors g ! i))"
  by (simp add: graph_wf_def list_all_length)

lemma wf_n_id: "graph_wf g \<Longrightarrow> i < length (nodes g) \<Longrightarrow> n_id (nodes g ! i) = i"
  by (metis add_0 graph_wf_def length_map nth_map nth_upt)

lemma wf_node_wf: "graph_wf g \<Longrightarrow> i < length (nodes g) \<Longrightarrow> node_wf g (nodes g ! i)"
  by (simp add: graph_wf_def list_all_length)

lemma wf_n_output: "graph_wf g \<Longrightarrow> i < length (nodes g) \<Longrightarrow> n_output (nodes g ! i) < length (tensors g)"
  using wf_node_wf node_wf_def by blast

lemma wf_n_input: "graph_wf g \<Longrightarrow> i < length (nodes g) \<Longrightarrow> x \<in> set (n_inputs (nodes g ! i))
    \<Longrightarrow> x < n_output (nodes g ! i)"
  using wf_node_wf node_wf_def by blast

lemma wf_n_input_bound: "graph_wf g \<Longrightarrow> i < length (nodes g) \<Longrightarrow> x \<in> set (n_inputs (nodes g ! i))
    \<Longrightarrow> x < length (tensors g)"
  using wf_n_input wf_n_output less_trans by blast

lemma wf_output_mono:
  "graph_wf g \<Longrightarrow> i < length (nodes g) \<Longrightarrow> j < length (nodes g) \<Longrightarrow>
     n_output (nodes g ! i) < n_output (nodes g ! j) \<longleftrightarrow> i < j"
proof -
  assume wf: "graph_wf g" and ij: "i < length (nodes g)" "j < length (nodes g)"
  then have "a < b \<Longrightarrow> b < length (nodes g) \<Longrightarrow> n_output (nodes g ! a) < n_output (nodes g ! b)" for a b
    by (simp add: graph_wf_def sorted_wrt_iff_nth_less)
  with ij show ?thesis by (metis less_asym' linorder_neqE_nat)
qed

lemma wf_output_inj:
  "graph_wf g \<Longrightarrow> i < length (nodes g) \<Longrightarrow> j < length (nodes g) \<Longrightarrow>
     n_output (nodes g ! i) = n_output (nodes g ! j) \<longleftrightarrow> i = j"
  by (metis less_irrefl linorder_neqE_nat wf_output_mono)

lemma wf_tensor_source:
  assumes "graph_wf g" "x < length (tensors g)"
  shows "x \<in> set (graph_inputs g) \<or> (\<exists>j < length (nodes g). n_output (nodes g ! j) = x)"
proof -
  from assms have "x \<in> set (graph_inputs g) \<union> n_output ` set (nodes g)"
    by (simp add: graph_wf_def)
  then show ?thesis by (auto simp: in_set_conv_nth)
qed

lemma wf_input_not_output:
  "graph_wf g \<Longrightarrow> x \<in> set (graph_inputs g) \<Longrightarrow> j < length (nodes g) \<Longrightarrow> n_output (nodes g ! j) \<noteq> x"
  by (auto simp: graph_wf_def)

lemma wf_input_bound: "graph_wf g \<Longrightarrow> x \<in> set (graph_inputs g) \<Longrightarrow> x < length (tensors g)"
  by (auto simp: graph_wf_def)

lemma wf_graph_output_bound: "graph_wf g \<Longrightarrow> x \<in> set (graph_outputs g) \<Longrightarrow> x < length (tensors g)"
  by (simp add: graph_wf_def)

text \<open>Every tensor a node reads is a graph input or the output of an earlier node.\<close>

lemma wf_input_source:
  assumes wf: "graph_wf g" and i: "i < length (nodes g)" and x: "x \<in> set (n_inputs (nodes g ! i))"
  shows "x \<in> set (graph_inputs g) \<or> (\<exists>j < i. n_output (nodes g ! j) = x)"
proof -
  have "x < n_output (nodes g ! i)" using wf_n_input [OF wf i x] .
  moreover have "x < length (tensors g)" using wf_n_input_bound [OF wf i x] .
  ultimately show ?thesis using wf_tensor_source [OF wf] wf_output_mono [OF wf _ i] by metis
qed

lemmas wf_access = wf_t_id wf_shape_ok wf_n_id wf_n_output wf_n_input_bound wf_input_bound
  wf_graph_output_bound

section \<open>Call sequences\<close>

text \<open>A client of the graph API is a sequence of builder calls.\<close>

datatype build_call =
    Add_input string TensorShape
  | Add_op libane_op_t "TensorId list" TensorShape "byte list option"
  | Mark_output TensorId string

fun run_build :: "build_call list \<Rightarrow> AneGraph \<Rightarrow> AneGraph res" where
  "run_build [] g = Inr g"
| "run_build (Add_input nm shp # cs) g = bind_res (add_input nm shp g) (\<lambda>(_, g'). run_build cs g')"
| "run_build (Add_op op ins shp ws # cs) g =
     bind_res (add_op op ins shp ws g) (\<lambda>(_, g'). run_build cs g')"
| "run_build (Mark_output tid nm # cs) g = bind_res (mark_output tid nm g) (\<lambda>g'. run_build cs g')"

lemma run_build_built: "built g \<Longrightarrow> run_build cs g = Inr g' \<Longrightarrow> built g'"
proof (induction cs g rule: run_build.induct)
  case (2 nm shp cs g)
  then show ?case by (auto simp: res_simps intro: built.built_input)
next
  case (3 op ins shp ws cs g)
  then show ?case by (auto simp: res_simps intro: built.built_op)
next
  case (4 tid nm cs g)
  then show ?case by (auto simp: res_simps intro: built.built_output)
qed simp

text \<open>A small transformer-like graph, used where a concrete graph is evaluated: the chain
  \<open>RMSNORM, MATMUL, ADD\<close> (with the second graph input as side input), whose result is
  both a graph output and the input of a \<open>RELU\<close>.\<close>

definition demo_shape :: TensorShape where
  "demo_shape = mk_shape 1 2 1 16"

definition demo_calls :: "build_call list" where
  "demo_calls = [Add_input ''x'' demo_shape, Add_input ''y'' demo_shape,
     Add_op LIBANE_OP_RMSNORM [0] demo_shape (Some (replicate 4 0)),
     Add_op LIBANE_OP_MATMUL [2] demo_shape (Some (replicate 8 0)),
     Add_op LIBANE_OP_ADD [3, 1] demo_shape None,
     Mark_output 4 ''sum'',
     Add_op LIBANE_OP_RELU [4] demo_shape None,
     Mark_output 5 '''']"

definition demo_graph :: AneGraph where
  "demo_graph = \<lparr>
     tensors =
       [\<lparr>t_id = 0, t_name = ''x'', t_shape = demo_shape, t_producer = kInvalidNodeId\<rparr>,
        \<lparr>t_id = 1, t_name = ''y'', t_shape = demo_shape, t_producer = kInvalidNodeId\<rparr>,
        \<lparr>t_id = 2, t_name = ''t2'', t_shape = demo_shape, t_producer = 0\<rparr>,
        \<lparr>t_id = 3, t_name = ''t3'', t_shape = demo_shape, t_producer = 1\<rparr>,
        \<lparr>t_id = 4, t_name = ''sum'', t_shape = demo_shape, t_producer = 2\<rparr>,
        \<lparr>t_id = 5, t_name = ''t5'', t_shape = demo_shape, t_producer = 3\<rparr>],
     nodes =
       [\<lparr>n_id = 0, n_op = LIBANE_OP_RMSNORM, n_inputs = [0], n_output = 2,
          n_weights = replicate 4 0, n_weight_file = ''w0.bin''\<rparr>,
        \<lparr>n_id = 1, n_op = LIBANE_OP_MATMUL, n_inputs = [2], n_output = 3,
          n_weights = replicate 8 0, n_weight_file = ''w1.bin''\<rparr>,
        \<lparr>n_id = 2, n_op = LIBANE_OP_ADD, n_inputs = [3, 1], n_output = 4,
          n_weights = [], n_weight_file = ''''\<rparr>,
        \<lparr>n_id = 3, n_op = LIBANE_OP_RELU, n_inputs = [4], n_output = 5,
          n_weights = [], n_weight_file = ''''\<rparr>],
     graph_inputs = [0, 1], graph_outputs = [4, 5], next_tensor_id = 6, next_node_id = 4\<rparr>"

lemma demo_calls_run: "run_build demo_calls empty_graph = Inr demo_graph"
  by (simp add: demo_calls_def demo_graph_def add_input_def add_op_def mark_output_def validate_def
      demo_shape_def alloc_tensor_def empty_graph_def Let_def to_u32_def weight_file_name_def
      decimal_eval kInvalidNodeId_def signed_modulo_int_def)

lemma demo_built: "built demo_graph"
  using run_build_built [OF built.built_empty demo_calls_run] .

lemma demo_wf: "graph_wf demo_graph"
  by (rule built_graph_wf [OF demo_built]) (simp add: demo_graph_def)

section \<open>Guarantees of the builder\<close>

text \<open>
  C4. Whatever sequence of builder calls made a graph (any of them may have been refused), as
  long as fewer than \<open>2 ^ 32\<close> tensors exist the graph is well formed: ids are positions, every
  shape is valid, every node reads only tensors older than its output, node outputs are
  distinct and increasing, every tensor is either a graph input or the output of one node, and
  every marked output exists.
\<close>

theorem builder_invariant:
  assumes "built g" "length (tensors g) < 2 ^ 32"
  shows "graph_wf g"
  using assms by (rule built_graph_wf)

theorem builder_invariant_witness:
  "built demo_graph \<and> length (tensors demo_graph) = 6 \<and> graph_wf demo_graph"
  using builder_invariant [OF demo_built] demo_built by (simp add: demo_graph_def)

text \<open>
  C5. \<open>add_op\<close> on a well-formed graph with room for a tensor: it succeeds exactly when the
  output shape is valid and every input id exists. On success the returned id is fresh, reads
  back as a tensor of that shape named after the id whose producer is the new node, the new
  node reads back with the given operator, inputs and weights, and every older tensor and node
  reads back unchanged.
\<close>

theorem add_op_reads_back:
  assumes "graph_wf g" "length (tensors g) + 1 < 2 ^ 32"
  shows "if shape_ok shp \<and> (\<forall>x \<in> set ins. x < length (tensors g)) then
      \<exists>tid g'. add_op op ins shp ws g = Inr (tid, g') \<and> tid = length (tensors g)
        \<and> tensor g' tid = Inr \<lparr>t_id = tid, t_name = ''t'' @ nat_to_string tid, t_shape = shp,
             t_producer = length (nodes g)\<rparr>
        \<and> (\<exists>n. node g' (length (nodes g)) = Inr n \<and> n_op n = op \<and> n_inputs n = ins
             \<and> n_output n = tid \<and> n_weights n = (case ws of None \<Rightarrow> [] | Some b \<Rightarrow> b))
        \<and> (\<forall>i < length (tensors g). tensor g' i = tensor g i)
        \<and> (\<forall>i < length (nodes g). node g' i = node g i)
    else \<exists>e. add_op op ins shp ws g = Inl e"
proof (cases "shape_ok shp \<and> (\<forall>x \<in> set ins. x < length (tensors g))")
  case True
  have cap: "to_u32 (length (tensors g)) = length (tensors g)" using assms(2) by simp
  have "is_ok (add_op op ins shp ws g)"
    using True cap by (simp add: add_op_def is_ok_iff res_simps Let_def split: prod.splits)
  then obtain tid g' where add: "add_op op ins shp ws g = Inr (tid, g')" by (auto simp: res_simps)
  note d = add_op_InrD [OF add]
  have n: "next_tensor_id g = length (tensors g)" "next_node_id g = length (nodes g)"
    using assms(1) by (simp_all add: graph_wf_def)
  have cap': "length (nodes g) + 1 < 2 ^ 32" using length_nodes_le [OF assms(1)] assms(2) by simp
  show ?thesis
    using True add d n assms(2) cap' by (auto simp: tensor_def node_def nth_append)
next
  case False
  then have "\<not> is_ok (add_op op ins shp ws g)"
    using assms by (auto simp: add_op_def res_simps)
  with False show ?thesis by (cases "add_op op ins shp ws g") auto
qed

theorem add_op_reads_back_witness:
  "(\<exists>tid g'. add_op LIBANE_OP_ADD [5, 0] demo_shape None demo_graph = Inr (tid, g') \<and> tid = 6)
   \<and> (\<exists>e. add_op LIBANE_OP_ADD [6, 0] demo_shape None demo_graph = Inl e)"
proof -
  have "length (tensors demo_graph) = 6" by (simp add: demo_graph_def)
  moreover have "shape_ok demo_shape" by (simp add: shape_ok_def demo_shape_def)
  ultimately show ?thesis
    using add_op_reads_back [OF demo_wf, of demo_shape "[5, 0]" LIBANE_OP_ADD None]
      add_op_reads_back [OF demo_wf, of demo_shape "[6, 0]" LIBANE_OP_ADD None]
    by (auto simp: demo_graph_def)
qed

end
