(* ===== verification/GraphValidator.thy ===== *)
theory GraphValidator
  imports AneGraph
begin

text \<open>
  The graph validator (src/graph/graph_validator.hpp, graph_validator.cpp). Every check
  returns the errors it appends to \<open>ValidationResult::errors\<close>, in order; an error message is
  a constructor that carries the values the message prints. A check that reads a tensor
  through the throwing accessor, divides by a weight byte or indexes a vector returns a
  result, so that an escaping exception or an undefined step is visible.
\<close>

section \<open>Results\<close>

datatype node_error =
    Wrong_arity nat
  | Weight_size size_t nat
  | Weight_free_op nat
  | Pixel_shuffle_bytes nat
  | Upscale_not_positive int
  | Channels_not_divisible int int
  | Pwl_bytes nat
  | Pwl_samples int
  | Reduce_prod_shape
  | Scatter_no_mask
  | Scatter_shape
  | Gather_no_mask
  | Gather_static_shape
  | Gather_dynamic_weights
  | Gather_dynamic_shape
  | Mask_size size_t nat
  | Select_cond_shape
  | Select_xy_shape
  | Select_out_shape
  | Concat_input_seq int int
  | Concat_output_seq int int
  | Concat_channels int int
  | Reshape_numel size_t size_t
  | Slice_dims TensorShape TensorShape
  | Reduce_channels int
  | Reduce_seq int int
  | Conv2d_unsupported
  | Unknown_op int

datatype validation_error =
    No_inputs
  | No_outputs
  | Tensor_shape TensorId string failure
  | Dangling_input NodeId libane_op_t TensorId
  | Output_range TensorId
  | Output_undefined TensorId
  | Cycle nat nat
  | Output_unreachable TensorId string
  | Node_violation NodeId libane_op_t node_error
  | Binary_shapes NodeId libane_op_t TensorShape nat TensorShape

section \<open>Checks 1 to 3: structure, shapes, edges\<close>

definition check_structure :: "AneGraph \<Rightarrow> validation_error list" where
  "check_structure g =
     (if graph_inputs g = [] then [No_inputs] else [])
     @ (if graph_outputs g = [] then [No_outputs] else [])"

definition check_shapes :: "AneGraph \<Rightarrow> validation_error list" where
  "check_shapes g = concat (map (\<lambda>t. case validate (t_shape t) of
       Inl e \<Rightarrow> [Tensor_shape (t_id t) (t_name t) e] | Inr _ \<Rightarrow> []) (tensors g))"

fun edge_errors :: "TensorId set \<Rightarrow> GraphNode list \<Rightarrow> validation_error list \<times> TensorId set" where
  "edge_errors defined [] = ([], defined)"
| "edge_errors defined (n # ns) =
     (let es = map (Dangling_input (n_id n) (n_op n))
                 (filter (\<lambda>inp. inp \<notin> defined) (n_inputs n));
          (es', defined') = edge_errors (insert (n_output n) defined) ns
      in (es @ es', defined'))"

definition check_edges :: "AneGraph \<Rightarrow> validation_error list" where
  "check_edges g =
     (let (es, defined) = edge_errors (set (graph_inputs g)) (nodes g)
      in es @ concat (map (\<lambda>oid.
           if oid \<ge> to_u32 (length (tensors g)) then [Output_range oid]
           else if oid \<notin> defined then [Output_undefined oid] else []) (graph_outputs g)))"

section \<open>Check 4: Kahn's algorithm\<close>

text \<open>Tensor id to producer node: graph inputs first, node outputs after.\<close>

definition tensor_producer :: "AneGraph \<Rightarrow> (TensorId \<rightharpoonup> NodeId)" where
  "tensor_producer g =
     foldl (\<lambda>m n. m(n_output n \<mapsto> n_id n))
       (foldl (\<lambda>m i. m(i \<mapsto> kInvalidNodeId)) Map.empty (graph_inputs g)) (nodes g)"

text \<open>The producers of one node's inputs, each once, in the order the input list shows them.
  The two \<open>continue\<close>s for dangling inputs, graph inputs and ids past the node vector are
  the \<open>None\<close> cases.\<close>

definition input_producer :: "AneGraph \<Rightarrow> TensorId \<Rightarrow> NodeId option" where
  "input_producer g inp =
     (case tensor_producer g inp of
        None \<Rightarrow> None
      | Some p \<Rightarrow> if p = kInvalidNodeId then None
                  else if p \<ge> to_u32 (length (nodes g)) then None else Some p)"

fun preds_of :: "AneGraph \<Rightarrow> TensorId list \<Rightarrow> NodeId list \<Rightarrow> NodeId list" where
  "preds_of g [] seen = seen"
| "preds_of g (inp # ins) seen =
     (case input_producer g inp of
        None \<Rightarrow> preds_of g ins seen
      | Some p \<Rightarrow> preds_of g ins (if p \<in> set seen then seen else seen @ [p]))"

text \<open>Adding one node's edges to \<open>(in_degree, successors)\<close>.\<close>

definition add_edges ::
  "AneGraph \<Rightarrow> GraphNode \<Rightarrow> int list \<times> NodeId list list \<Rightarrow> int list \<times> NodeId list list" where
  "add_edges g n ds =
     foldl (\<lambda>(d, s) p. (d[n_id n := d ! n_id n + 1], s[p := s ! p @ [n_id n]])) ds
       (preds_of g (n_inputs n) [])"

definition build_degrees :: "AneGraph \<Rightarrow> int list \<times> NodeId list list" where
  "build_degrees g =
     foldl (\<lambda>ds n. add_edges g n ds)
       (replicate (length (nodes g)) 0, replicate (length (nodes g)) []) (nodes g)"

text \<open>One pass over the successors of a popped node. A successor outside the degree vector
  is skipped here; \<open>check_topo\<close> ends before the loop when there is such an id.\<close>

fun relax :: "NodeId list \<Rightarrow> NodeId list \<times> int list \<Rightarrow> NodeId list \<times> int list" where
  "relax [] (q, d) = (q, d)"
| "relax (s # ss) (q, d) =
     (if s \<ge> length d then relax ss (q, d)
      else let d' = d[s := d ! s - 1]
           in relax ss (if d' ! s = 0 then q @ [s] else q, d'))"

definition positives :: "int list \<Rightarrow> nat" where
  "positives d = length (filter (\<lambda>x. 0 < x) d)"

lemma positives_update:
  assumes "s < length d"
  shows "positives (d[s := d ! s - 1]) + (if d ! s = 1 then 1 else 0) = positives d"
proof -
  obtain xs y zs where d: "d = xs @ y # zs" "length xs = s"
    using assms id_take_nth_drop by (metis length_take min.absorb4)
  then have "d ! s = y" "d[s := d ! s - 1] = xs @ (y - 1) # zs"
    by (auto simp: nth_append list_update_append)
  with d show ?thesis by (simp add: positives_def)
qed

lemma relax_measure:
  "relax ss (q, d) = (q', d') \<Longrightarrow> 2 * positives d' + length q' \<le> 2 * positives d + length q"
proof (induction ss "(q, d)" arbitrary: q d rule: relax.induct)
  case (2 s ss q d)
  show ?case
  proof (cases "s < length d")
    case True
    have "positives (d[s := d ! s - 1]) + (if d ! s = 1 then 1 else 0) = positives d"
      using positives_update [OF True] .
    with 2 True show ?thesis by (fastforce simp: Let_def split: if_splits)
  next
    case False
    with 2 show ?thesis by simp
  qed
qed simp

function kahn :: "NodeId list list \<Rightarrow> NodeId list \<Rightarrow> int list \<Rightarrow> nat \<Rightarrow> nat" where
  "kahn succs [] d processed = processed"
| "kahn succs (nid # q) d processed =
     kahn succs (fst (relax (succs ! nid) (q, d))) (snd (relax (succs ! nid) (q, d))) (processed + 1)"
  by pat_completeness auto
termination
proof (relation "measure (\<lambda>(succs, q, d, processed). 2 * positives d + length q)")
  fix succs :: "NodeId list list" and nid q and d :: "int list" and processed :: nat
  have "2 * positives (snd (relax (succs ! nid) (q, d))) + length (fst (relax (succs ! nid) (q, d)))
      \<le> 2 * positives d + length q"
    using relax_measure [of "succs ! nid" q d] by (metis prod.collapse)
  then show "((succs, fst (relax (succs ! nid) (q, d)), snd (relax (succs ! nid) (q, d)), processed + 1),
      (succs, nid # q, d, processed))
      \<in> measure (\<lambda>(succs, q, d, processed). 2 * positives d + length q)"
    by simp
qed simp

definition check_topo :: "AneGraph \<Rightarrow> validation_error list res" where
  "check_topo g =
     (if nodes g = [] then Inr []
      else if \<exists>n \<in> set (nodes g). n_id n \<ge> length (nodes g)
      then Inl (Undefined_behaviour ''check_topo: node id outside in_degree'')
      else let (d, succs) = build_degrees g;
               q = filter (\<lambda>i. d ! i = 0) (map n_id (nodes g));
               processed = kahn succs q d 0
           in Inr (if processed \<noteq> length (nodes g) then [Cycle processed (length (nodes g))] else []))"

section \<open>Check 5: reachability\<close>

fun reach_pass :: "TensorId set \<Rightarrow> GraphNode list \<Rightarrow> TensorId set" where
  "reach_pass reachable [] = reachable"
| "reach_pass reachable (n # ns) =
     reach_pass (if \<forall>inp \<in> set (n_inputs n). inp \<in> reachable
                 then insert (n_output n) reachable else reachable) ns"

definition check_reachability :: "AneGraph \<Rightarrow> validation_error list res" where
  "check_reachability g =
     (let reachable = reach_pass (set (graph_inputs g)) (nodes g)
      in bind_res (map_res (\<lambda>oid.
           if oid \<ge> to_u32 (length (tensors g)) then Inr []
           else if oid \<notin> reachable
           then bind_res (tensor g oid) (\<lambda>t. Inr [Output_unreachable oid (t_name t)])
           else Inr []) (graph_outputs g)) (\<lambda>ess. Inr (concat ess)))"

section \<open>Check 6: arity, weights and shapes of each operator\<close>

text \<open>One definition per case of the switch in \<open>check_weights\<close>; \<open>out_shape\<close> is
  \<open>out_t.shape\<close>, the errors are the arguments of \<open>err\<close>.\<close>

definition shape_at :: "AneGraph \<Rightarrow> GraphNode \<Rightarrow> nat \<Rightarrow> TensorShape res" where
  "shape_at g n k = bind_res (tensor g (n_inputs n ! k)) (\<lambda>t. Inr (t_shape t))"

definition input_channels :: "AneGraph \<Rightarrow> GraphNode \<Rightarrow> int res" where
  "input_channels g n =
     (if n_inputs n \<noteq> [] \<and> n_inputs n ! 0 < to_u32 (length (tensors g))
      then bind_res (tensor g (n_inputs n ! 0)) (\<lambda>t. Inr (channels (t_shape t)))
      else Inr 0)"

definition weight_size_errors :: "(size_t \<Rightarrow> nat \<Rightarrow> node_error) \<Rightarrow> size_t \<Rightarrow> GraphNode \<Rightarrow> node_error list" where
  "weight_size_errors msg expected n =
     (if of_nat (length (n_weights n)) \<noteq> expected then [msg expected (length (n_weights n))] else [])"

definition weight_free_errors :: "GraphNode \<Rightarrow> node_error list" where
  "weight_free_errors n = (if n_weights n \<noteq> [] then [Weight_free_op (length (n_weights n))] else [])"

definition arity_errors :: "nat \<Rightarrow> GraphNode \<Rightarrow> node_error list" where
  "arity_errors k n = (if length (n_inputs n) \<noteq> k then [Wrong_arity (length (n_inputs n))] else [])"

definition check_matmul :: "int \<Rightarrow> int \<Rightarrow> GraphNode \<Rightarrow> node_error list" where
  "check_matmul IC OC n =
     (if length (n_inputs n) \<noteq> 1 then [Wrong_arity (length (n_inputs n))]
      else weight_size_errors Weight_size (of_int IC * of_int OC * 2) n)"

definition check_rmsnorm :: "int \<Rightarrow> GraphNode \<Rightarrow> node_error list" where
  "check_rmsnorm OC n =
     (if length (n_inputs n) \<noteq> 1 then [Wrong_arity (length (n_inputs n))]
      else weight_size_errors Weight_size (of_int OC * 2) n)"

definition check_layernorm :: "int \<Rightarrow> GraphNode \<Rightarrow> node_error list" where
  "check_layernorm OC n =
     (if length (n_inputs n) \<noteq> 1 then [Wrong_arity (length (n_inputs n))]
      else weight_size_errors Weight_size (of_int OC * 4) n)"

definition check_weight_free_unary :: "GraphNode \<Rightarrow> node_error list" where
  "check_weight_free_unary n = weight_free_errors n @ arity_errors 1 n"

text \<open>The message for a factor that is not positive does not end the case, so the remainder is
  taken for a zero factor too. On \<open>int32_t\<close> it is undefined there and for
  \<open>INT32_MIN % -1\<close>.\<close>

definition check_pixel_shuffle :: "AneGraph \<Rightarrow> GraphNode \<Rightarrow> node_error list res" where
  "check_pixel_shuffle g n =
     (if length (n_inputs n) \<noteq> 1 then Inr [Wrong_arity (length (n_inputs n))]
      else if length (n_weights n) \<noteq> 4 then Inr [Pixel_shuffle_bytes (length (n_weights n))]
      else let r = le_int32 (n_weights n);
               es = (if r \<le> 0 then [Upscale_not_positive r] else [])
           in bind_res (shape_at g n 0) (\<lambda>s.
                if r = 0 \<or> r = -1 \<and> channels s = - (2 ^ 31)
                then Inl (Undefined_behaviour ''pixel_shuffle: channels % upscale_factor'')
                else Inr (es @ (if channels s smod r \<noteq> 0
                                then [Channels_not_divisible (channels s) r] else []))))"

definition check_pwl :: "GraphNode \<Rightarrow> node_error list" where
  "check_pwl n =
     (if length (n_inputs n) \<noteq> 1 then [Wrong_arity (length (n_inputs n))]
      else if length (n_weights n) < 12 \<or> length (n_weights n) mod 4 \<noteq> 0
      then [Pwl_bytes (length (n_weights n))]
      else let n_floats = sint (of_nat (length (n_weights n)) :: u32) sdiv 4
           in (if n_floats < 4 then [Pwl_samples n_floats] else []))"

definition check_reduce_prod :: "AneGraph \<Rightarrow> TensorShape \<Rightarrow> GraphNode \<Rightarrow> node_error list res" where
  "check_reduce_prod g out_shape n =
     (if length (n_inputs n) \<noteq> 1
      then Inr (weight_free_errors n @ [Wrong_arity (length (n_inputs n))])
      else bind_res (shape_at g n 0) (\<lambda>s.
        Inr (weight_free_errors n @
          (if channels out_shape \<noteq> 1 \<or> seq out_shape \<noteq> seq s then [Reduce_prod_shape] else []))))"

definition check_scatter :: "AneGraph \<Rightarrow> TensorShape \<Rightarrow> GraphNode \<Rightarrow> node_error list res" where
  "check_scatter g out_shape n =
     (if length (n_inputs n) \<noteq> 2 then Inr [Wrong_arity (length (n_inputs n))]
      else if n_weights n = [] then Inr [Scatter_no_mask]
      else bind_res (shape_at g n 0) (\<lambda>a. bind_res (shape_at g n 1) (\<lambda>b.
        Inr ((if \<not> (a = b \<and> a = out_shape) then [Scatter_shape] else [])
             @ weight_size_errors Mask_size (shape_bytes out_shape) n))))"

definition check_gather :: "AneGraph \<Rightarrow> TensorShape \<Rightarrow> GraphNode \<Rightarrow> node_error list res" where
  "check_gather g out_shape n =
     (if length (n_inputs n) = 1 then
        (if n_weights n = [] then Inr [Gather_no_mask]
         else bind_res (shape_at g n 0) (\<lambda>s.
           Inr ((if s \<noteq> out_shape then [Gather_static_shape] else [])
                @ weight_size_errors Mask_size (shape_bytes out_shape) n)))
      else if length (n_inputs n) = 2 then
        bind_res (shape_at g n 0) (\<lambda>x. bind_res (shape_at g n 1) (\<lambda>m.
          Inr ((if n_weights n \<noteq> [] then [Gather_dynamic_weights] else [])
               @ (if \<not> (x = m \<and> x = out_shape) then [Gather_dynamic_shape] else []))))
      else Inr [Wrong_arity (length (n_inputs n))])"

definition check_binary :: "GraphNode \<Rightarrow> node_error list" where
  "check_binary n = weight_free_errors n @ arity_errors 2 n"

definition check_select :: "AneGraph \<Rightarrow> TensorShape \<Rightarrow> GraphNode \<Rightarrow> node_error list res" where
  "check_select g out_shape n =
     (if length (n_inputs n) \<noteq> 3
      then Inr (weight_free_errors n @ [Wrong_arity (length (n_inputs n))])
      else bind_res (shape_at g n 0) (\<lambda>c. bind_res (shape_at g n 1) (\<lambda>x. bind_res (shape_at g n 2) (\<lambda>y.
        Inr (weight_free_errors n
             @ (if channels c \<noteq> channels x \<or> seq c \<noteq> seq x then [Select_cond_shape] else [])
             @ (if channels x \<noteq> channels y \<or> seq x \<noteq> seq y then [Select_xy_shape] else [])
             @ (if channels out_shape \<noteq> channels x \<or> seq out_shape \<noteq> seq x
                then [Select_out_shape] else []))))))"

definition check_concat :: "AneGraph \<Rightarrow> TensorShape \<Rightarrow> GraphNode \<Rightarrow> node_error list res" where
  "check_concat g out_shape n =
     (if length (n_inputs n) \<noteq> 2
      then Inr (weight_free_errors n @ [Wrong_arity (length (n_inputs n))])
      else bind_res (shape_at g n 0) (\<lambda>a. bind_res (shape_at g n 1) (\<lambda>b.
        Inr (weight_free_errors n
             @ (if seq a \<noteq> seq b then [Concat_input_seq (seq a) (seq b)] else [])
             @ (if seq out_shape \<noteq> seq a then [Concat_output_seq (seq a) (seq out_shape)] else [])
             @ (if channels out_shape \<noteq> channels a + channels b
                then [Concat_channels (channels a + channels b) (channels out_shape)] else [])))))"

definition check_reshape :: "AneGraph \<Rightarrow> TensorShape \<Rightarrow> GraphNode \<Rightarrow> node_error list res" where
  "check_reshape g out_shape n =
     (if length (n_inputs n) \<noteq> 1
      then Inr (weight_free_errors n @ [Wrong_arity (length (n_inputs n))])
      else bind_res (shape_at g n 0) (\<lambda>s.
        Inr (weight_free_errors n
             @ (if numel s \<noteq> numel out_shape then [Reshape_numel (numel s) (numel out_shape)] else []))))"

definition check_slice :: "AneGraph \<Rightarrow> TensorShape \<Rightarrow> GraphNode \<Rightarrow> node_error list res" where
  "check_slice g out_shape n =
     (if length (n_inputs n) \<noteq> 1
      then Inr (weight_free_errors n @ [Wrong_arity (length (n_inputs n))])
      else bind_res (shape_at g n 0) (\<lambda>s.
        Inr (weight_free_errors n
             @ (if channels out_shape > channels s \<or> seq out_shape > seq s
                then [Slice_dims s out_shape] else []))))"

definition check_reduce :: "AneGraph \<Rightarrow> TensorShape \<Rightarrow> GraphNode \<Rightarrow> node_error list res" where
  "check_reduce g out_shape n =
     (if length (n_inputs n) \<noteq> 1
      then Inr (weight_free_errors n @ [Wrong_arity (length (n_inputs n))])
      else bind_res (shape_at g n 0) (\<lambda>s.
        Inr (weight_free_errors n
             @ (if channels out_shape \<noteq> 1 then [Reduce_channels (channels out_shape)] else [])
             @ (if seq out_shape \<noteq> seq s then [Reduce_seq (seq s) (seq out_shape)] else []))))"

definition unary_ops :: "libane_op_t list" where
  "unary_ops = [LIBANE_OP_GELU, LIBANE_OP_SOFTMAX, LIBANE_OP_AVG_POOL, LIBANE_OP_MAX_POOL,
     LIBANE_OP_NEG, LIBANE_OP_SINH, LIBANE_OP_COSH, LIBANE_OP_TAN, LIBANE_OP_ASIN, LIBANE_OP_ACOS,
     LIBANE_OP_SILU, LIBANE_OP_SQRT, LIBANE_OP_LOG, LIBANE_OP_RSQRT, LIBANE_OP_TRANSPOSE,
     LIBANE_OP_CAST, LIBANE_OP_RELU, LIBANE_OP_TANH, LIBANE_OP_SIGMOID, LIBANE_OP_HARDSWISH,
     LIBANE_OP_LEAKY_RELU, LIBANE_OP_ELU]"

definition binary_ops :: "libane_op_t list" where
  "binary_ops = [LIBANE_OP_ADD, LIBANE_OP_MUL, LIBANE_OP_MOD, LIBANE_OP_SUB, LIBANE_OP_REAL_DIV,
     LIBANE_OP_LOGICAL_AND, LIBANE_OP_LOGICAL_OR, LIBANE_OP_LOGICAL_XOR]"

text \<open>The switch. Every label of the source occurs once, so the order of the tests does not
  matter.\<close>

definition check_weights_case :: "AneGraph \<Rightarrow> int \<Rightarrow> TensorShape \<Rightarrow> GraphNode \<Rightarrow> node_error list res" where
  "check_weights_case g IC out_shape n =
     (if n_op n = LIBANE_OP_MATMUL then Inr (check_matmul IC (channels out_shape) n)
      else if n_op n = LIBANE_OP_RMSNORM then Inr (check_rmsnorm (channels out_shape) n)
      else if n_op n \<in> set [LIBANE_OP_LAYER_NORM, LIBANE_OP_LAYERNORM]
        then Inr (check_layernorm (channels out_shape) n)
      else if n_op n \<in> set unary_ops then Inr (check_weight_free_unary n)
      else if n_op n = LIBANE_OP_PIXEL_SHUFFLE then check_pixel_shuffle g n
      else if n_op n = LIBANE_OP_PWL_ACTIVATION then Inr (check_pwl n)
      else if n_op n = LIBANE_OP_REDUCE_PROD then check_reduce_prod g out_shape n
      else if n_op n \<in> set [LIBANE_OP_SCATTER, LIBANE_OP_SCATTER_ND, LIBANE_OP_SCATTER_ALONG_AXIS]
        then check_scatter g out_shape n
      else if n_op n = LIBANE_OP_GATHER then check_gather g out_shape n
      else if n_op n \<in> set binary_ops then Inr (check_binary n)
      else if n_op n = LIBANE_OP_SELECT then check_select g out_shape n
      else if n_op n = LIBANE_OP_CONCAT then check_concat g out_shape n
      else if n_op n = LIBANE_OP_RESHAPE then check_reshape g out_shape n
      else if n_op n = LIBANE_OP_SLICE_BY_INDEX then check_slice g out_shape n
      else if n_op n \<in> set [LIBANE_OP_REDUCE_SUM, LIBANE_OP_REDUCE_MEAN, LIBANE_OP_REDUCE_MAX]
        then check_reduce g out_shape n
      else if n_op n = LIBANE_OP_CONV2D then Inr [Conv2d_unsupported]
      else Inr [Unknown_op (op_code (n_op n))])"

definition check_weights_node :: "AneGraph \<Rightarrow> GraphNode \<Rightarrow> node_error list res" where
  "check_weights_node g n =
     bind_res (tensor g (n_output n)) (\<lambda>out_t.
     bind_res (input_channels g n) (\<lambda>IC.
       check_weights_case g IC (t_shape out_t) n))"

definition check_weights :: "AneGraph \<Rightarrow> validation_error list res" where
  "check_weights g =
     bind_res (map_res (\<lambda>n. bind_res (check_weights_node g n)
         (\<lambda>es. Inr (map (Node_violation (n_id n) (n_op n)) es))) (nodes g))
       (\<lambda>ess. Inr (concat ess))"

section \<open>Check 7: identical shapes of arithmetic operands\<close>

definition arith_ops :: "libane_op_t list" where
  "arith_ops = [LIBANE_OP_ADD, LIBANE_OP_MUL, LIBANE_OP_SUB, LIBANE_OP_REAL_DIV]"

definition check_binary_shapes_node :: "AneGraph \<Rightarrow> GraphNode \<Rightarrow> validation_error list res" where
  "check_binary_shapes_node g n =
     (if n_op n \<notin> set arith_ops then Inr []
      else if length (n_inputs n) < 2 then Inr []
      else bind_res (shape_at g n 0) (\<lambda>ref.
        bind_res (map_res (\<lambda>i.
            let tid = n_inputs n ! i
            in if tid \<ge> to_u32 (length (tensors g)) then Inr []
               else bind_res (shape_at g n i) (\<lambda>s.
                 Inr (if s \<noteq> ref then [Binary_shapes (n_id n) (n_op n) ref i s] else [])))
          [1..<length (n_inputs n)]) (\<lambda>ess. Inr (concat ess))))"

definition check_binary_shapes :: "AneGraph \<Rightarrow> validation_error list res" where
  "check_binary_shapes g =
     bind_res (map_res (check_binary_shapes_node g) (nodes g)) (\<lambda>ess. Inr (concat ess))"

section \<open>The validator\<close>

definition validate_graph :: "AneGraph \<Rightarrow> validation_error list res" where
  "validate_graph g =
     (if check_structure g \<noteq> [] then Inr (check_structure g)
      else bind_res (check_topo g) (\<lambda>topo.
           bind_res (check_reachability g) (\<lambda>reach.
           bind_res (check_weights g) (\<lambda>weights.
           bind_res (check_binary_shapes g) (\<lambda>binary.
             Inr (check_shapes g @ check_edges g @ topo @ reach @ weights @ binary))))))"

section \<open>Correctness of the cycle check\<close>

subsection \<open>The edge lists\<close>

lemma preds_of_set:
  "set (preds_of g ins seen) = set seen \<union> {p. \<exists>x \<in> set ins. input_producer g x = Some p}"
  by (induction g ins seen rule: preds_of.induct) (auto split: option.splits)

lemma preds_of_distinct: "distinct seen \<Longrightarrow> distinct (preds_of g ins seen)"
  by (induction g ins seen rule: preds_of.induct) (auto split: option.splits)

lemma input_producer_bound: "input_producer g x = Some p \<Longrightarrow> p < length (nodes g)"
  using mod_less_eq_dividend [of "length (nodes g)" "2 ^ 32"]
  by (auto simp: input_producer_def to_u32_def split: option.splits if_splits)

definition node_preds :: "AneGraph \<Rightarrow> NodeId \<Rightarrow> NodeId list" where
  "node_preds g i = preds_of g (n_inputs (nodes g ! i)) []"

lemma node_preds_distinct: "distinct (node_preds g i)"
  by (simp add: node_preds_def preds_of_distinct)

lemma node_preds_bound: "p \<in> set (node_preds g i) \<Longrightarrow> p < length (nodes g)"
  by (auto simp: node_preds_def preds_of_set input_producer_bound)

lemma add_edges_eq:
  assumes "distinct ps" "i < length d" "\<forall>p \<in> set ps. p < length s"
  shows "foldl (\<lambda>(d, s) p. (d[i := d ! i + 1], s[p := s ! p @ [i]])) (d, s) ps
    = (d[i := d ! i + int (length ps)],
       map (\<lambda>p. if p \<in> set ps then s ! p @ [i] else s ! p) [0..<length s])"
  using assms
proof (induction ps arbitrary: d s)
  case Nil
  then show ?case by (simp add: map_nth)
next
  case (Cons p ps)
  then show ?case
    by (auto simp: algebra_simps nth_list_update intro!: nth_equalityI)
qed

lemma build_degrees_prefix:
  assumes ids: "map n_id (nodes g) = [0..<length (nodes g)]" and k: "k \<le> length (nodes g)"
  shows "foldl (\<lambda>ds n. add_edges g n ds)
      (replicate (length (nodes g)) 0, replicate (length (nodes g)) []) (take k (nodes g))
    = (map (\<lambda>i. if i < k then int (length (node_preds g i)) else 0) [0..<length (nodes g)],
       map (\<lambda>p. filter (\<lambda>i. p \<in> set (node_preds g i)) [0..<k]) [0..<length (nodes g)])"
  using k
proof (induction k)
  case 0
  then show ?case by (simp add: map_replicate_const)
next
  case (Suc k)
  have id: "n_id (nodes g ! k) = k"
    using ids Suc.prems by (metis Suc_le_lessD add_0 length_map nth_map nth_upt)
  show ?case
    using Suc node_preds_distinct [of g k] node_preds_bound [of _ g k]
    by (auto simp: take_Suc_conv_app_nth add_edges_def id add_edges_eq node_preds_def [symmetric]
        nth_list_update intro!: nth_equalityI)
qed

lemma build_degrees_eq:
  assumes "map n_id (nodes g) = [0..<length (nodes g)]"
  shows "build_degrees g =
    (map (\<lambda>i. int (length (node_preds g i))) [0..<length (nodes g)],
     map (\<lambda>p. filter (\<lambda>i. p \<in> set (node_preds g i)) [0..<length (nodes g)]) [0..<length (nodes g)])"
  using build_degrees_prefix [OF assms order_refl] by (simp add: build_degrees_def cong: map_cong)

subsection \<open>The queue loop\<close>

lemma relax_eq:
  assumes "distinct ss" "\<forall>s \<in> set ss. s < length d"
  shows "relax ss (q, d) = (q @ filter (\<lambda>s. d ! s = 1) ss,
     map (\<lambda>i. if i \<in> set ss then d ! i - 1 else d ! i) [0..<length d])"
  using assms
proof (induction ss arbitrary: q d)
  case Nil
  then show ?case by (simp add: map_nth)
next
  case (Cons s ss)
  have "filter (\<lambda>x. d[s := d ! s - 1] ! x = 1) ss = filter (\<lambda>x. d ! x = 1) ss"
    using Cons.prems by (intro filter_cong) (auto simp: nth_list_update)
  then show ?case
    using Cons by (auto simp: Let_def nth_list_update intro!: nth_equalityI)
qed

text \<open>State of the loop over a dependency relation \<open>P\<close> (predecessor sets): \<open>D\<close> is the set of
  nodes already popped. The degrees count the predecessors still missing, the queue holds the
  nodes with none missing, and every node popped or queued is accessible.\<close>

definition kahn_inv :: "nat \<Rightarrow> (nat \<Rightarrow> nat set) \<Rightarrow> nat set \<Rightarrow> nat list \<Rightarrow> int list \<Rightarrow> bool" where
  "kahn_inv N P D q d \<longleftrightarrow> length d = N \<and> distinct q \<and> D \<inter> set q = {} \<and> finite D
     \<and> (\<forall>i < N. d ! i = int (card (P i - D)))
     \<and> (\<forall>i. i \<in> D \<union> set q \<longleftrightarrow> i < N \<and> P i \<subseteq> D)
     \<and> D \<union> set q \<subseteq> Wellfounded.acc {(p, i). p \<in> P i}"

lemma acc_of_preds:
  "P i \<subseteq> Wellfounded.acc {(p, i). p \<in> P i} \<Longrightarrow> i \<in> Wellfounded.acc {(p, i). p \<in> P i}"
  by (rule accI) blast

lemma kahn_inv_step:
  assumes inv: "kahn_inv N P D (nid # q) d"
    and succs: "distinct ss" "set ss = {i. i < N \<and> nid \<in> P i}"
    and fin: "\<forall>i < N. finite (P i)"
  shows "kahn_inv N P (insert nid D) (fst (relax ss (q, d))) (snd (relax ss (q, d)))"
proof -
  let ?D = "insert nid D"
  have len: "length d = N" and nid: "nid \<notin> D" "nid \<notin> set q"
    and deg: "\<And>i. i < N \<Longrightarrow> d ! i = int (card (P i - D))"
    and mem: "\<And>i. i \<in> D \<or> i = nid \<or> i \<in> set q \<longleftrightarrow> i < N \<and> P i \<subseteq> D"
    and acc: "insert nid D \<union> set q \<subseteq> Wellfounded.acc {(p, i). p \<in> P i}"
    using inv by (auto simp: kahn_inv_def)
  have rel: "relax ss (q, d) = (q @ filter (\<lambda>s. d ! s = 1) ss,
      map (\<lambda>i. if i \<in> set ss then d ! i - 1 else d ! i) [0..<N])"
    using relax_eq [of ss d q] succs len by auto
  have card: "card (P i - ?D) + (if nid \<in> P i then 1 else 0) = card (P i - D)" if "i < N" for i
  proof (cases "nid \<in> P i")
    case True
    then have "P i - D = insert nid (P i - ?D)" using nid(1) by auto
    then have "card (P i - D) = Suc (card (P i - ?D))"
      using fin that by (metis Diff_iff card_insert_disjoint finite_Diff insertI1)
    then show ?thesis using True by simp
  next
    case False
    then have "P i - ?D = P i - D" by auto
    then show ?thesis using False by simp
  qed
  have one: "d ! s = 1 \<longleftrightarrow> P s \<subseteq> ?D" if "s < N" "nid \<in> P s" for s
  proof -
    have "d ! s = 1 \<longleftrightarrow> card (P s - ?D) = 0" using card [OF that(1)] deg [OF that(1)] that(2) by auto
    also have "\<dots> \<longleftrightarrow> P s \<subseteq> ?D" using fin that(1) by auto
    finally show ?thesis .
  qed
  have new: "i \<in> ?D \<union> set (q @ filter (\<lambda>s. d ! s = 1) ss) \<longleftrightarrow> i < N \<and> P i \<subseteq> ?D" for i
  proof (cases "i < N \<and> nid \<in> P i")
    case True
    then have "\<not> (i \<in> D \<or> i = nid \<or> i \<in> set q)" using mem nid(1) by blast
    then show ?thesis using True one succs(2) by auto
  next
    case False
    then show ?thesis using mem [of i] succs(2) by auto
  qed
  let ?q = "q @ filter (\<lambda>s. d ! s = 1) ss"
  have acc_step: "i \<in> Wellfounded.acc {(p, i). p \<in> P i}" if "P i \<subseteq> ?D" for i
    using acc_of_preds [of P i] that acc by blast
  have acc': "?D \<union> set ?q \<subseteq> Wellfounded.acc {(p, i). p \<in> P i}"
    using new acc_step by blast
  have fresh: "s \<notin> ?D \<union> set q" if "s \<in> set ss" for s
    using that mem [of s] nid(1) succs(2) by blast
  have dq: "distinct q" "D \<inter> set q = {}" "finite D" using inv by (auto simp: kahn_inv_def)
  have dist: "distinct ?q" "?D \<inter> set ?q = {}"
    using dq fresh succs(1) nid(2) by auto
  have deg': "map (\<lambda>i. if i \<in> set ss then d ! i - 1 else d ! i) [0..<N] ! i = int (card (P i - ?D))"
    if "i < N" for i
    using card [OF that] deg [OF that] succs(2) that by (auto split: if_splits)
  show ?thesis
    unfolding kahn_inv_def rel fst_conv snd_conv
    using new acc' dist deg' dq(3) by (intro conjI allI impI) (simp_all del: set_append)
qed

lemma kahn_inv_done:
  assumes inv: "kahn_inv N P D [] d" and bound: "\<And>i. P i \<subseteq> {..<N}"
  shows "D = {i. i < N \<and> i \<in> Wellfounded.acc {(p, i). p \<in> P i}}"
proof -
  have mem: "\<And>i. i \<in> D \<longleftrightarrow> i < N \<and> P i \<subseteq> D" and acc: "D \<subseteq> Wellfounded.acc {(p, i). p \<in> P i}"
    using inv by (auto simp: kahn_inv_def)
  have "i < N \<longrightarrow> i \<in> D" if "i \<in> Wellfounded.acc {(p, i). p \<in> P i}" for i
    using that
  proof (induction rule: acc.induct)
    case (accI i)
    then show ?case using mem [of i] bound [of i] by auto
  qed
  then show ?thesis using mem acc by auto
qed

lemma kahn_counts:
  assumes "kahn_inv N P D q d" "\<And>i. P i \<subseteq> {..<N}"
    and "\<And>p. p < N \<Longrightarrow> distinct (succs ! p) \<and> set (succs ! p) = {i. i < N \<and> p \<in> P i}"
  shows "kahn succs q d (card D) = card {i. i < N \<and> i \<in> Wellfounded.acc {(p, i). p \<in> P i}}"
  using assms(1,3)
proof (induction succs q d "card D" arbitrary: D rule: kahn.induct)
  case (1 succs d)
  show ?case using kahn_inv_done [OF 1(1) assms(2)] by simp
next
  case (2 succs nid q d)
  have nid: "nid < N" "nid \<notin> D" "finite D" using 2(2) by (auto simp: kahn_inv_def)
  have fin: "\<forall>i < N. finite (P i)" using assms(2) finite_subset by blast
  have inv: "kahn_inv N P (insert nid D) (fst (relax (succs ! nid) (q, d))) (snd (relax (succs ! nid) (q, d)))"
    using kahn_inv_step [OF 2(2) _ _ fin] 2(3) nid(1) by blast
  have "card D + 1 = card (insert nid D)" using nid by simp
  from 2(1) [OF this inv 2(3)] show ?case by (simp only: kahn.simps \<open>card D + 1 = card (insert nid D)\<close>)
qed

subsection \<open>The cycle check decides acyclicity\<close>

text \<open>Node \<open>i\<close> reads the output of node \<open>p\<close>.\<close>

definition depends :: "AneGraph \<Rightarrow> (NodeId \<times> NodeId) set" where
  "depends g = {(p, i). p < length (nodes g) \<and> i < length (nodes g)
     \<and> n_output (nodes g ! p) \<in> set (n_inputs (nodes g ! i))}"

lemma producer_inputs:
  "foldl (\<lambda>m i. m(i \<mapsto> k)) m xs x = (if x \<in> set xs then Some k else m x)"
  by (induction xs arbitrary: m) auto

lemma producer_nodes:
  "distinct (map n_output ns) \<Longrightarrow>
     foldl (\<lambda>m n. m(n_output n \<mapsto> n_id n)) m ns x = Some p \<longleftrightarrow>
       (\<exists>n \<in> set ns. n_output n = x \<and> n_id n = p) \<or> (x \<notin> n_output ` set ns \<and> m x = Some p)"
  by (induction ns arbitrary: m) (auto simp: image_iff)

definition ids_ok :: "AneGraph \<Rightarrow> bool" where
  "ids_ok g \<longleftrightarrow> map n_id (nodes g) = [0..<length (nodes g)] \<and> distinct (map n_output (nodes g))
     \<and> length (nodes g) < 2 ^ 32"

lemma ids_okD: "ids_ok g \<Longrightarrow> i < length (nodes g) \<Longrightarrow> n_id (nodes g ! i) = i"
  unfolding ids_ok_def by (metis add_0 length_map nth_map nth_upt)

lemma input_producer_iff:
  assumes "ids_ok g"
  shows "input_producer g x = Some p \<longleftrightarrow> p < length (nodes g) \<and> n_output (nodes g ! p) = x"
proof -
  have d: "distinct (map n_output (nodes g))" and n: "length (nodes g) < 2 ^ 32"
    using assms by (simp_all add: ids_ok_def)
  have by_id: "(\<exists>n \<in> set (nodes g). n_output n = x \<and> n_id n = p) \<longleftrightarrow>
      p < length (nodes g) \<and> n_output (nodes g ! p) = x" for p
    using ids_okD [OF assms] by (metis in_set_conv_nth)
  have prod: "tensor_producer g x = Some p \<longleftrightarrow>
      (p < length (nodes g) \<and> n_output (nodes g ! p) = x)
      \<or> (x \<notin> n_output ` set (nodes g) \<and> x \<in> set (graph_inputs g) \<and> p = kInvalidNodeId)" for p
    by (auto simp: tensor_producer_def producer_nodes [OF d] producer_inputs by_id split: if_splits)
  show ?thesis
  proof (cases "tensor_producer g x")
    case None
    then show ?thesis using prod [of p] by (simp add: input_producer_def)
  next
    case (Some r)
    then show ?thesis using prod [of p] prod [of r] n
      by (auto simp: input_producer_def kInvalidNodeId_def)
  qed
qed

lemma node_preds_iff:
  "ids_ok g \<Longrightarrow> p \<in> set (node_preds g i) \<longleftrightarrow>
     p < length (nodes g) \<and> n_output (nodes g ! p) \<in> set (n_inputs (nodes g ! i))"
  by (auto simp: node_preds_def preds_of_set input_producer_iff)

lemma depends_finite: "finite (depends g)"
  by (rule finite_subset [of _ "{..<length (nodes g)} \<times> {..<length (nodes g)}"])
     (auto simp: depends_def)

text \<open>The loop pops exactly the nodes all of whose dependency chains are finite.\<close>

lemma check_topo_processed:
  assumes ok: "ids_ok g" and ne: "nodes g \<noteq> []"
  shows "check_topo g = Inr (let k = card {i. i < length (nodes g) \<and> i \<in> Wellfounded.acc (depends g)}
    in if k \<noteq> length (nodes g) then [Cycle k (length (nodes g))] else [])"
proof -
  let ?N = "length (nodes g)" and ?P = "\<lambda>i. {p. (p, i) \<in> depends g}"
  have ids: "map n_id (nodes g) = [0..<?N]" using ok by (simp add: ids_ok_def)
  have preds: "set (node_preds g i) = ?P i" if "i < ?N" for i
    using that by (auto simp: depends_def node_preds_iff [OF ok])
  have card: "length (node_preds g i) = card (?P i)" if "i < ?N" for i
    using preds [OF that] distinct_card [OF node_preds_distinct] by metis
  have bound: "?P i \<subseteq> {..<?N}" for i by (auto simp: depends_def)
  obtain d s where ds: "build_degrees g = (d, s)" by (cases "build_degrees g")
  have d: "d = map (\<lambda>i. int (card (?P i))) [0..<?N]"
    and s: "\<And>p. p < ?N \<Longrightarrow> s ! p = filter (\<lambda>i. p \<in> set (node_preds g i)) [0..<?N]"
    using ds card by (auto simp: build_degrees_eq [OF ids])
  let ?q = "filter (\<lambda>i. d ! i = 0) [0..<?N]"
  have zero: "d ! i = 0 \<longleftrightarrow> ?P i = {}" if "i < ?N" for i
    using that bound [of i] finite_subset [OF bound [of i]] by (auto simp: d)
  have no_preds: "i \<in> Wellfounded.acc (depends g)" if "\<forall>p. (p, i) \<notin> depends g" for i
    by (rule accI) (simp add: that)
  have inv: "kahn_inv ?N ?P {} ?q d"
    unfolding kahn_inv_def using zero no_preds by (auto simp: d)
  have succs: "distinct (s ! p) \<and> set (s ! p) = {i. i < ?N \<and> p \<in> ?P i}" if "p < ?N" for p
    using s [OF that] preds by auto
  have "kahn s ?q d 0 = card {i. i < ?N \<and> i \<in> Wellfounded.acc {(p, i). p \<in> ?P i}}"
    using kahn_counts [OF inv bound succs] by simp
  moreover have "{(p, i). p \<in> ?P i} = depends g" by auto
  moreover have "\<not> (\<exists>n \<in> set (nodes g). n_id n \<ge> ?N)"
    using ids by (metis atLeastLessThan_iff image_eqI list.set_map not_le set_upt)
  ultimately show ?thesis using ne ids by (simp add: check_topo_def ds Let_def)
qed

lemma acc_all_iff_acyclic:
  "card {i. i < length (nodes g) \<and> i \<in> Wellfounded.acc (depends g)} = length (nodes g)
     \<longleftrightarrow> acyclic (depends g)"
proof -
  let ?N = "length (nodes g)" and ?A = "{i. i < length (nodes g) \<and> i \<in> Wellfounded.acc (depends g)}"
  have "card ?A = ?N \<longleftrightarrow> ?A = {..<?N}"
    by (metis (no_types, lifting) card_lessThan card_subset_eq finite_lessThan lessThan_iff
        mem_Collect_eq subsetI)
  also have "\<dots> \<longleftrightarrow> (\<forall>i. i \<in> Wellfounded.acc (depends g))"
  proof -
    have "i \<in> Wellfounded.acc (depends g)" if "\<not> i < ?N" for i
      by (rule accI) (use that in \<open>simp add: depends_def\<close>)
    then show ?thesis by blast
  qed
  also have "\<dots> \<longleftrightarrow> wf (depends g)"
    by (auto simp: acc_wfI acc_wfD)
  also have "\<dots> \<longleftrightarrow> acyclic (depends g)"
    using finite_acyclic_wf depends_finite wf_acyclic by blast
  finally show ?thesis .
qed

lemma check_topo_acyclic:
  assumes "ids_ok g"
  shows "check_topo g = Inr [] \<longleftrightarrow> acyclic (depends g)"
proof (cases "nodes g = []")
  case True
  then have "depends g = {}" by (simp add: depends_def)
  with True show ?thesis by (simp add: check_topo_def acyclic_def)
next
  case False
  show ?thesis
    unfolding check_topo_processed [OF assms False] using acc_all_iff_acyclic [of g]
    by (simp add: Let_def)
qed

lemma graph_wf_ids_ok: "graph_wf g \<Longrightarrow> ids_ok g"
  using length_nodes_le [of g] by (simp add: graph_wf_def ids_ok_def strict_sorted_iff)

lemma wf_depends_acyclic:
  assumes "graph_wf g"
  shows "acyclic (depends g)"
proof -
  have "(p, i) \<in> depends g \<Longrightarrow> (p, i) \<in> less_than" for p i
    using wf_n_input [OF assms] wf_output_mono [OF assms] by (auto simp: depends_def)
  then show ?thesis by (meson acyclic_subset subrelI wf_acyclic wf_less_than)
qed

section \<open>The validator on graphs made by the builder\<close>

subsection \<open>Checks that cannot fail there\<close>

lemma wf_check_shapes: "graph_wf g \<Longrightarrow> check_shapes g = []"
  by (auto simp: check_shapes_def graph_wf_def list_all_iff validate_def shape_ok_def
      smod_eq_0_iff_dvd split: sum.splits)

lemma wf_input_before:
  assumes "graph_wf g" "k < length (nodes g)" "x \<in> set (n_inputs (nodes g ! k))"
  shows "x \<in> set (graph_inputs g) \<union> n_output ` set (take k (nodes g))"
proof (cases "x \<in> set (graph_inputs g)")
  case False
  then obtain j where j: "j < k" "n_output (nodes g ! j) = x" using wf_input_source [OF assms] by blast
  then have "nodes g ! j \<in> set (take k (nodes g))"
    using assms(2) by (metis length_take min.absorb4 nth_mem nth_take)
  then show ?thesis using j(2) by blast
qed simp

lemma edge_errors_prefix:
  assumes wf: "graph_wf g" and k: "k \<le> length (nodes g)"
  shows "edge_errors (set (graph_inputs g) \<union> n_output ` set (take k (nodes g))) (drop k (nodes g))
    = ([], {..<length (tensors g)})"
  using k
proof (induction "length (nodes g) - k" arbitrary: k)
  case 0
  then show ?case using wf by (simp add: graph_wf_def)
next
  case (Suc m)
  then have k: "k < length (nodes g)" by simp
  have src: "\<And>x. x \<in> set (n_inputs (nodes g ! k)) \<Longrightarrow>
      x \<in> set (graph_inputs g) \<union> n_output ` set (take k (nodes g))"
    using wf_input_before [OF wf k] by blast
  have "insert (n_output (nodes g ! k)) (set (graph_inputs g) \<union> n_output ` set (take k (nodes g)))
      = set (graph_inputs g) \<union> n_output ` set (take (Suc k) (nodes g))"
    using k by (auto simp: take_Suc_conv_app_nth)
  then show ?case
    using Suc(1) [of "Suc k"] Suc(2) k src
    by (simp add: Cons_nth_drop_Suc [symmetric] filter_empty_conv)
qed

lemma wf_check_edges: "graph_wf g \<Longrightarrow> check_edges g = []"
  using edge_errors_prefix [of g 0]
  by (auto simp: check_edges_def graph_wf_def)

lemma reach_prefix:
  assumes wf: "graph_wf g" and k: "k \<le> length (nodes g)"
  shows "reach_pass (set (graph_inputs g) \<union> n_output ` set (take k (nodes g))) (drop k (nodes g))
    = {..<length (tensors g)}"
  using k
proof (induction "length (nodes g) - k" arbitrary: k)
  case 0
  then show ?case using wf by (simp add: graph_wf_def)
next
  case (Suc m)
  then have k: "k < length (nodes g)" by simp
  have src: "\<forall>x \<in> set (n_inputs (nodes g ! k)).
      x \<in> set (graph_inputs g) \<union> n_output ` set (take k (nodes g))"
    using wf_input_before [OF wf k] by blast
  have "insert (n_output (nodes g ! k)) (set (graph_inputs g) \<union> n_output ` set (take k (nodes g)))
      = set (graph_inputs g) \<union> n_output ` set (take (Suc k) (nodes g))"
    using k by (auto simp: take_Suc_conv_app_nth)
  then show ?case
    using Suc(1) [of "Suc k"] Suc(2) k src
    by (simp add: Cons_nth_drop_Suc [symmetric])
qed

lemma map_res_nil: "(\<And>x. x \<in> set xs \<Longrightarrow> f x = Inr []) \<Longrightarrow> bind_res (map_res f xs) (\<lambda>ess. Inr (concat ess)) = Inr []"
  by (induction xs) (auto simp: res_simps)

lemma wf_check_reachability: "graph_wf g \<Longrightarrow> check_reachability g = Inr []"
  unfolding check_reachability_def Let_def
  using reach_prefix [of g 0]
  by (intro map_res_nil) (auto simp: wf_graph_output_bound)

lemma wf_check_topo: "graph_wf g \<Longrightarrow> check_topo g = Inr []"
  using check_topo_acyclic graph_wf_ids_ok wf_depends_acyclic by blast

subsection \<open>What an operator requires of a node\<close>

definition shape_of :: "AneGraph \<Rightarrow> TensorId \<Rightarrow> TensorShape" where
  "shape_of g x = t_shape (tensors g ! x)"

text \<open>The requirement of each operator in terms of the dimensions of its operands \<open>xs\<close> and its
  result \<open>y\<close> and of its weight bytes, with no machine arithmetic.\<close>

definition op_requires :: "libane_op_t \<Rightarrow> TensorShape list \<Rightarrow> TensorShape \<Rightarrow> byte list \<Rightarrow> bool" where
  "op_requires op xs y ws \<longleftrightarrow>
     (if op = LIBANE_OP_MATMUL then
        length xs = 1 \<and> int (length ws) = 2 * channels (xs ! 0) * channels y
      else if op = LIBANE_OP_RMSNORM then length xs = 1 \<and> int (length ws) = 2 * channels y
      else if op \<in> set [LIBANE_OP_LAYER_NORM, LIBANE_OP_LAYERNORM]
        then length xs = 1 \<and> int (length ws) = 4 * channels y
      else if op \<in> set unary_ops then length xs = 1 \<and> ws = []
      else if op = LIBANE_OP_PIXEL_SHUFFLE then
        length xs = 1 \<and> length ws = 4 \<and> 0 < le_int32 ws \<and> le_int32 ws dvd channels (xs ! 0)
      else if op = LIBANE_OP_PWL_ACTIVATION then
        length xs = 1 \<and> 16 \<le> length ws \<and> 4 dvd length ws
      else if op \<in> set [LIBANE_OP_REDUCE_PROD, LIBANE_OP_REDUCE_SUM, LIBANE_OP_REDUCE_MEAN,
          LIBANE_OP_REDUCE_MAX] then
        length xs = 1 \<and> ws = [] \<and> channels y = 1 \<and> seq y = seq (xs ! 0)
      else if op \<in> set [LIBANE_OP_SCATTER, LIBANE_OP_SCATTER_ND, LIBANE_OP_SCATTER_ALONG_AXIS] then
        length xs = 2 \<and> xs ! 0 = y \<and> xs ! 1 = y \<and> int (length ws) = 2 * channels y * seq y
      else if op = LIBANE_OP_GATHER then
        length xs = 1 \<and> xs ! 0 = y \<and> int (length ws) = 2 * channels y * seq y
        \<or> length xs = 2 \<and> xs ! 0 = y \<and> xs ! 1 = y \<and> ws = []
      else if op \<in> set arith_ops then length xs = 2 \<and> ws = [] \<and> xs ! 0 = xs ! 1
      else if op \<in> set binary_ops then length xs = 2 \<and> ws = []
      else if op = LIBANE_OP_SELECT then
        length xs = 3 \<and> ws = [] \<and> xs ! 0 = y \<and> xs ! 1 = y \<and> xs ! 2 = y
      else if op = LIBANE_OP_CONCAT then
        length xs = 2 \<and> ws = [] \<and> seq (xs ! 0) = seq y \<and> seq (xs ! 1) = seq y
        \<and> channels y = channels (xs ! 0) + channels (xs ! 1)
      else if op = LIBANE_OP_RESHAPE then
        length xs = 1 \<and> ws = [] \<and> channels (xs ! 0) * seq (xs ! 0) = channels y * seq y
      else if op = LIBANE_OP_SLICE_BY_INDEX then
        length xs = 1 \<and> ws = [] \<and> channels y \<le> channels (xs ! 0) \<and> seq y \<le> seq (xs ! 0)
      else False)"

definition node_requires :: "AneGraph \<Rightarrow> GraphNode \<Rightarrow> bool" where
  "node_requires g n = op_requires (n_op n) (map (shape_of g) (n_inputs n)) (shape_of g (n_output n)) (n_weights n)"

text \<open>The weight vector of a C++ object has a \<open>size_t\<close> length; the \<open>int\<close> cast in the
  piecewise-linear case needs it below \<open>2 ^ 31\<close>.\<close>

definition weights_fit :: "GraphNode \<Rightarrow> bool" where
  "weights_fit n \<longleftrightarrow> length (n_weights n) < 2 ^ 64
     \<and> (n_op n = LIBANE_OP_PWL_ACTIVATION \<longrightarrow> length (n_weights n) < 2 ^ 31)"

definition zero_upscale :: "GraphNode \<Rightarrow> bool" where
  "zero_upscale n \<longleftrightarrow> n_op n = LIBANE_OP_PIXEL_SHUFFLE \<and> length (n_inputs n) = 1
     \<and> length (n_weights n) = 4 \<and> le_int32 (n_weights n) = 0"

lemma shape_at_ok:
  "graph_wf g \<Longrightarrow> n_inputs n ! k < length (tensors g) \<Longrightarrow> shape_at g n k = Inr (shape_of g (n_inputs n ! k))"
  by (simp add: shape_at_def tensor_ok shape_of_def)

lemma weight_size_ok:
  assumes "length (n_weights n) < 2 ^ 64" "0 \<le> k" "k < 2 ^ 64" "e = of_int k"
  shows "weight_size_errors msg e n = [] \<longleftrightarrow> int (length (n_weights n)) = k"
proof -
  have "(of_nat (length (n_weights n)) :: size_t) = of_int k \<longleftrightarrow> int (length (n_weights n)) = k"
    unfolding word_uint_eq_iff using uint_of_int_size [OF assms(2,3)] assms(1)
    by (simp add: uint_of_int_size [of "int (length (n_weights n))", simplified])
  then show ?thesis using assms(4) by (simp add: weight_size_errors_def)
qed

lemma weight_free_ok [simp]: "weight_free_errors n = [] \<longleftrightarrow> n_weights n = []"
  by (simp add: weight_free_errors_def)

lemma arity_ok [simp]: "arity_errors k n = [] \<longleftrightarrow> length (n_inputs n) = k"
  by (simp add: arity_errors_def)

lemma shape_eq_iff: "shape_ok a \<Longrightarrow> shape_ok b \<Longrightarrow> a = b \<longleftrightarrow> channels a = channels b \<and> seq a = seq b"
  by (cases a; cases b) (auto simp: shape_ok_def)

lemma shape_ok_bounds:
  assumes "shape_ok a" "shape_ok b"
  shows "0 < channels a" "0 \<le> 2 * channels a * channels b" "2 * channels a * channels b < 2 ^ 64"
    "0 \<le> 2 * channels a" "2 * channels a < 2 ^ 64" "0 \<le> 4 * channels a" "4 * channels a < 2 ^ 64"
proof -
  from assms have *: "0 < channels a" "channels a \<le> 16384" "0 < channels b" "channels b \<le> 16384"
    by (simp_all add: shape_ok_def)
  then have "channels a * channels b \<le> 16384 * 16384" by (intro mult_mono) auto
  with * show "0 < channels a" "0 \<le> 2 * channels a * channels b" "2 * channels a * channels b < 2 ^ 64"
    "0 \<le> 2 * channels a" "2 * channels a < 2 ^ 64" "0 \<le> 4 * channels a" "4 * channels a < 2 ^ 64"
    by simp_all
qed

text \<open>A node of a well-formed graph reads and writes tensors with valid shapes.\<close>

definition node_in :: "AneGraph \<Rightarrow> GraphNode \<Rightarrow> bool" where
  "node_in g n \<longleftrightarrow> graph_wf g \<and> n \<in> set (nodes g) \<and> weights_fit n"

lemma node_inD:
  assumes "node_in g n"
  shows "graph_wf g" "length (n_weights n) < 2 ^ 64" "n_output n < length (tensors g)"
    "shape_ok (shape_of g (n_output n))"
    "\<And>k. k < length (n_inputs n) \<Longrightarrow> n_inputs n ! k < length (tensors g)"
    "\<And>k. k < length (n_inputs n) \<Longrightarrow> shape_ok (shape_of g (n_inputs n ! k))"
    "\<And>k. k < length (n_inputs n) \<Longrightarrow> shape_at g n k = Inr (shape_of g (n_inputs n ! k))"
    "tensor g (n_output n) = Inr (tensors g ! n_output n)"
proof -
  obtain i where i: "i < length (nodes g)" "n = nodes g ! i"
    using assms by (auto simp: node_in_def in_set_conv_nth)
  show wf: "graph_wf g" and "length (n_weights n) < 2 ^ 64" using assms by (auto simp: node_in_def weights_fit_def)
  show out: "n_output n < length (tensors g)" using wf_n_output [OF wf i(1)] i(2) by simp
  show "shape_ok (shape_of g (n_output n))" "tensor g (n_output n) = Inr (tensors g ! n_output n)"
    using wf_shape_ok [OF wf out] tensor_ok [OF wf out] by (simp_all add: shape_of_def)
  fix k assume "k < length (n_inputs n)"
  then show inp: "n_inputs n ! k < length (tensors g)" using wf_n_input_bound [OF wf i(1)] i(2) by simp
  show "shape_ok (shape_of g (n_inputs n ! k))" "shape_at g n k = Inr (shape_of g (n_inputs n ! k))"
    using wf_shape_ok [OF wf inp] shape_at_ok [OF wf inp] by (simp_all add: shape_of_def)
qed

lemma input_channels_ok:
  "node_in g n \<Longrightarrow> input_channels g n = Inr (if n_inputs n = [] then 0 else channels (shape_of g (n_inputs n ! 0)))"
  using node_inD(1,5) [of g n]
  by (auto simp: input_channels_def tensor_ok shape_of_def graph_wf_def)

lemma mask_size_ok:
  assumes "node_in g n"
  shows "weight_size_errors msg (shape_bytes (shape_of g (n_output n))) n = [] \<longleftrightarrow>
    int (length (n_weights n)) = 2 * channels (shape_of g (n_output n)) * seq (shape_of g (n_output n))"
proof -
  let ?s = "shape_of g (n_output n)"
  note d = node_inD [OF assms]
  have "shape_bytes ?s = of_int (2 * channels ?s * seq ?s)"
    using uint_shape_bytes [OF d(4)] by (metis word_of_int_uint)
  then show ?thesis
    using weight_size_ok [OF d(2), of "2 * channels ?s * seq ?s"] shape_ok_product_bound [OF d(4)] by simp
qed

lemma pwl_ok:
  assumes "length (n_weights n) < 2 ^ 31"
  shows "check_pwl n = [] \<longleftrightarrow> length (n_inputs n) = 1 \<and> 16 \<le> length (n_weights n) \<and> 4 dvd length (n_weights n)"
proof -
  let ?l = "length (n_weights n)"
  have "sint (of_nat ?l :: u32) = int ?l"
    using assms by (simp add: signed_of_nat signed_take_bit_int_eq_self)
  moreover have "int ?l sdiv 4 = int ?l div 4" by (cases "n_weights n = []") (simp_all add: signed_divide_int_def)
  moreover have "int ?l div 4 < 4 \<longleftrightarrow> ?l < 16" by linarith
  ultimately show ?thesis by (auto simp: check_pwl_def Let_def mod_eq_0_iff_dvd)
qed

lemma pixel_shuffle_ok:
  assumes "node_in g n"
  shows "check_pixel_shuffle g n = (if length (n_inputs n) \<noteq> 1 then Inr [Wrong_arity (length (n_inputs n))]
      else if length (n_weights n) \<noteq> 4 then Inr [Pixel_shuffle_bytes (length (n_weights n))]
      else if le_int32 (n_weights n) = 0
      then Inl (Undefined_behaviour ''pixel_shuffle: channels % upscale_factor'')
      else Inr ((if le_int32 (n_weights n) \<le> 0 then [Upscale_not_positive (le_int32 (n_weights n))] else [])
        @ (if le_int32 (n_weights n) dvd channels (shape_of g (n_inputs n ! 0)) then []
           else [Channels_not_divisible (channels (shape_of g (n_inputs n ! 0))) (le_int32 (n_weights n))])))"
proof (cases "length (n_inputs n) = 1")
  case True
  then have "shape_at g n 0 = Inr (shape_of g (n_inputs n ! 0))"
      "shape_ok (shape_of g (n_inputs n ! 0))"
    using node_inD(6,7) [OF assms, of 0] by simp_all
  then have "channels (shape_of g (n_inputs n ! 0)) \<noteq> - (2 ^ 31)" by (simp add: shape_ok_def)
  with \<open>shape_at g n 0 = _\<close> show ?thesis
    by (simp add: check_pixel_shuffle_def Let_def smod_eq_0_iff_dvd)
qed (simp add: check_pixel_shuffle_def)

lemma check_weights_case_fails:
  assumes "node_in g n"
  shows "check_weights_case g IC y n = Inl e \<longleftrightarrow>
    zero_upscale n \<and> e = Undefined_behaviour ''pixel_shuffle: channels % upscale_factor''"
proof (cases "n_op n = LIBANE_OP_PIXEL_SHUFFLE")
  case True
  then show ?thesis
    by (auto simp: check_weights_case_def zero_upscale_def pixel_shuffle_ok [OF assms] unary_ops_def)
next
  case False
  note at = node_inD(7) [OF assms]
  show ?thesis
    using False at
    by (simp add: check_weights_case_def zero_upscale_def check_reduce_prod_def
        check_scatter_def check_gather_def check_select_def check_concat_def check_reshape_def check_slice_def
        check_reduce_def)
qed

text \<open>Each case of the switch against the requirement of its operators.\<close>

lemma matmul_ok:
  assumes "node_in g n"
  shows "check_matmul (if n_inputs n = [] then 0 else channels (shape_of g (n_inputs n ! 0)))
      (channels (shape_of g (n_output n))) n = [] \<longleftrightarrow> length (n_inputs n) = 1
    \<and> int (length (n_weights n)) = 2 * channels (shape_of g (n_inputs n ! 0)) * channels (shape_of g (n_output n))"
proof (cases "length (n_inputs n) = 1")
  case True
  note d = node_inD [OF assms] and b = shape_ok_bounds [OF node_inD(6) [OF assms] node_inD(4) [OF assms], of 0]
  show ?thesis
    using True b weight_size_ok [OF d(2) b(2,3)] by (auto simp: check_matmul_def algebra_simps)
qed (simp add: check_matmul_def)

lemma norm_ok:
  assumes "node_in g n"
  shows "check_rmsnorm (channels (shape_of g (n_output n))) n = [] \<longleftrightarrow> length (n_inputs n) = 1
      \<and> int (length (n_weights n)) = 2 * channels (shape_of g (n_output n))"
    "check_layernorm (channels (shape_of g (n_output n))) n = [] \<longleftrightarrow> length (n_inputs n) = 1
      \<and> int (length (n_weights n)) = 4 * channels (shape_of g (n_output n))"
proof -
  note d = node_inD [OF assms] and b = shape_ok_bounds [OF node_inD(4) [OF assms] node_inD(4) [OF assms]]
  show "check_rmsnorm (channels (shape_of g (n_output n))) n = [] \<longleftrightarrow> length (n_inputs n) = 1
      \<and> int (length (n_weights n)) = 2 * channels (shape_of g (n_output n))"
    using weight_size_ok [OF d(2) b(4,5)] by (simp add: check_rmsnorm_def algebra_simps)
  show "check_layernorm (channels (shape_of g (n_output n))) n = [] \<longleftrightarrow> length (n_inputs n) = 1
      \<and> int (length (n_weights n)) = 4 * channels (shape_of g (n_output n))"
    using weight_size_ok [OF d(2) b(6,7)] by (simp add: check_layernorm_def algebra_simps)
qed

lemma numel_eq_iff:
  "shape_ok a \<Longrightarrow> shape_ok b \<Longrightarrow> numel a = numel b \<longleftrightarrow> channels a * seq a = channels b * seq b"
  by (metis uint_numel word_uint_eq_iff)

lemma mask_nonempty:
  "node_in g n \<Longrightarrow> int (length (n_weights n))
     = 2 * channels (shape_of g (n_output n)) * seq (shape_of g (n_output n)) \<Longrightarrow> n_weights n \<noteq> []"
  using shape_ok_product_bound(1) [OF node_inD(4)] by fastforce

lemma shaped_ok:
  assumes "node_in g n"
  defines "y \<equiv> shape_of g (n_output n)" and "x \<equiv> \<lambda>k. shape_of g (n_inputs n ! k)"
  shows "check_reduce_prod g y n = Inr [] \<longleftrightarrow>
      length (n_inputs n) = 1 \<and> n_weights n = [] \<and> channels y = 1 \<and> seq y = seq (x 0)"
    "check_reduce g y n = Inr [] \<longleftrightarrow>
      length (n_inputs n) = 1 \<and> n_weights n = [] \<and> channels y = 1 \<and> seq y = seq (x 0)"
    "check_slice g y n = Inr [] \<longleftrightarrow> length (n_inputs n) = 1 \<and> n_weights n = []
      \<and> channels y \<le> channels (x 0) \<and> seq y \<le> seq (x 0)"
    "check_reshape g y n = Inr [] \<longleftrightarrow> length (n_inputs n) = 1 \<and> n_weights n = []
      \<and> channels (x 0) * seq (x 0) = channels y * seq y"
    "check_concat g y n = Inr [] \<longleftrightarrow> length (n_inputs n) = 2 \<and> n_weights n = []
      \<and> seq (x 0) = seq y \<and> seq (x 1) = seq y \<and> channels y = channels (x 0) + channels (x 1)"
  using node_inD(4,6,7) [OF assms(1)]
  by (auto simp: y_def x_def check_reduce_prod_def check_reduce_def check_slice_def check_reshape_def
      check_concat_def numel_eq_iff)

lemma scatter_ok:
  assumes "node_in g n"
  shows "check_scatter g (shape_of g (n_output n)) n = Inr [] \<longleftrightarrow> length (n_inputs n) = 2
    \<and> shape_of g (n_inputs n ! 0) = shape_of g (n_output n)
    \<and> shape_of g (n_inputs n ! 1) = shape_of g (n_output n)
    \<and> int (length (n_weights n)) = 2 * channels (shape_of g (n_output n)) * seq (shape_of g (n_output n))"
  using node_inD(7) [OF assms] mask_size_ok [OF assms, of Mask_size] mask_nonempty [OF assms]
  by (cases "length (n_inputs n) = 2"; cases "n_weights n = []") (auto simp: check_scatter_def)

lemma gather_ok:
  assumes "node_in g n"
  shows "check_gather g (shape_of g (n_output n)) n = Inr [] \<longleftrightarrow>
    length (n_inputs n) = 1 \<and> shape_of g (n_inputs n ! 0) = shape_of g (n_output n)
      \<and> int (length (n_weights n)) = 2 * channels (shape_of g (n_output n)) * seq (shape_of g (n_output n))
    \<or> length (n_inputs n) = 2 \<and> shape_of g (n_inputs n ! 0) = shape_of g (n_output n)
      \<and> shape_of g (n_inputs n ! 1) = shape_of g (n_output n) \<and> n_weights n = []"
  using node_inD(7) [OF assms] mask_size_ok [OF assms, of Mask_size] mask_nonempty [OF assms]
  by (cases "length (n_inputs n) = 2"; cases "n_weights n = []") (auto simp: check_gather_def)

lemma select_ok:
  assumes "node_in g n"
  shows "check_select g (shape_of g (n_output n)) n = Inr [] \<longleftrightarrow> length (n_inputs n) = 3 \<and> n_weights n = []
    \<and> shape_of g (n_inputs n ! 0) = shape_of g (n_output n)
    \<and> shape_of g (n_inputs n ! 1) = shape_of g (n_output n)
    \<and> shape_of g (n_inputs n ! 2) = shape_of g (n_output n)"
proof (cases "length (n_inputs n) = 3")
  case True
  have eq: "shape_of g (n_inputs n ! k) = shape_of g (n_output n) \<longleftrightarrow>
      channels (shape_of g (n_inputs n ! k)) = channels (shape_of g (n_output n))
      \<and> seq (shape_of g (n_inputs n ! k)) = seq (shape_of g (n_output n))" if "k < 3" for k
    using node_inD(4,6) [OF assms] True that shape_eq_iff by simp
  have at: "shape_at g n k = Inr (shape_of g (n_inputs n ! k))" if "k < 3" for k
    using node_inD(7) [OF assms] True that by simp
  have "check_select g (shape_of g (n_output n)) n = Inr [] \<longleftrightarrow> n_weights n = []
    \<and> (\<forall>k \<in> {0, 1, 2}. channels (shape_of g (n_inputs n ! k)) = channels (shape_of g (n_output n))
      \<and> seq (shape_of g (n_inputs n ! k)) = seq (shape_of g (n_output n)))"
    by (simp add: check_select_def True at) metis
  then show ?thesis by (simp add: True eq conj_ac)
qed (simp add: check_select_def)

lemma concat_map_res_ok:
  "(\<And>x. x \<in> set xs \<Longrightarrow> f x = Inr (h x)) \<Longrightarrow>
     bind_res (map_res f xs) (\<lambda>ess. Inr (concat ess)) = Inr (concat (map h xs))"
  by (simp add: map_res_total)

lemma binary_shapes_ok:
  assumes "node_in g n"
  shows "check_binary_shapes_node g n = Inr (if n_op n \<in> set arith_ops \<and> 2 \<le> length (n_inputs n)
    then concat (map (\<lambda>k. if shape_of g (n_inputs n ! k) \<noteq> shape_of g (n_inputs n ! 0)
      then [Binary_shapes (n_id n) (n_op n) (shape_of g (n_inputs n ! 0)) k (shape_of g (n_inputs n ! k))]
      else []) [1..<length (n_inputs n)]) else [])"
proof (cases "n_op n \<in> set arith_ops \<and> 2 \<le> length (n_inputs n)")
  case True
  have cap: "to_u32 (length (tensors g)) = length (tensors g)"
    using node_inD(1) [OF assms] by (simp add: graph_wf_def)
  have "shape_at g n 0 = Inr (shape_of g (n_inputs n ! 0))" using True by (intro node_inD(7) [OF assms]) linarith
  then show ?thesis
    using True node_inD(5,7) [OF assms]
    by (simp add: check_binary_shapes_node_def cap not_less Let_def, intro concat_map_res_ok)
       (auto simp: not_le)
qed (auto simp: check_binary_shapes_node_def)

lemma binary_shapes_nil:
  "node_in g n \<Longrightarrow> length (n_inputs n) = 2 \<Longrightarrow> check_binary_shapes_node g n = Inr [] \<longleftrightarrow>
     n_op n \<notin> set arith_ops \<or> shape_of g (n_inputs n ! 0) = shape_of g (n_inputs n ! 1)"
  by (auto simp: binary_shapes_ok upt_rec split: if_splits)

lemma check_weights_node_case:
  "node_in g n \<Longrightarrow> check_weights_node g n = check_weights_case g
     (if n_inputs n = [] then 0 else channels (shape_of g (n_inputs n ! 0))) (shape_of g (n_output n)) n"
  by (simp add: check_weights_node_def node_inD(8) input_channels_ok shape_of_def)

lemmas case_ok = matmul_ok norm_ok shaped_ok scatter_ok gather_ok select_ok pixel_shuffle_ok

lemma nth_shapes:
  "length xs = 1 \<Longrightarrow> map f xs ! 0 = f (xs ! 0)"
  "length xs = 2 \<Longrightarrow> map f xs ! 0 = f (xs ! 0)" "length xs = 2 \<Longrightarrow> map f xs ! 1 = f (xs ! 1)"
  "length xs = 3 \<Longrightarrow> map f xs ! 0 = f (xs ! 0)" "length xs = 3 \<Longrightarrow> map f xs ! 1 = f (xs ! 1)"
  "length xs = 3 \<Longrightarrow> map f xs ! 2 = f (xs ! 2)"
  by simp_all

lemma node_checks_ok:
  assumes "node_in g n"
  shows "check_weights_node g n = Inr [] \<and> check_binary_shapes_node g n = Inr [] \<longleftrightarrow> node_requires g n"
proof (cases "n_op n \<in> set arith_ops")
  case True
  then show ?thesis
    using binary_shapes_nil [OF assms]
    by (auto simp: check_weights_node_case [OF assms] check_weights_case_def arith_ops_def node_requires_def
        op_requires_def unary_ops_def binary_ops_def check_binary_def)
next
  case False
  have pwl: "n_op n = LIBANE_OP_PWL_ACTIVATION \<Longrightarrow> length (n_weights n) < 2 ^ 31"
    using assms by (simp add: node_in_def weights_fit_def)
  have "check_weights_node g n = Inr [] \<longleftrightarrow> node_requires g n"
    unfolding check_weights_node_case [OF assms] node_requires_def check_weights_case_def op_requires_def
    using False pwl_ok [OF pwl]
    by (cases "n_op n")
       (simp_all add: case_ok [OF assms] unary_ops_def binary_ops_def arith_ops_def check_weight_free_unary_def
         check_binary_def nth_shapes conj_ac cong: conj_cong)
  then show ?thesis using False by (simp add: binary_shapes_ok [OF assms])
qed

subsection \<open>The verdict\<close>

lemma concat_bind_nil:
  "bind_res (map_res f xs) (\<lambda>ess. Inr (concat ess)) = Inr [] \<longleftrightarrow> (\<forall>x \<in> set xs. f x = Inr [])"
  by (induction xs) (auto simp: res_simps)

lemma concat_bind_fails:
  "(\<exists>e. bind_res (map_res f xs) (\<lambda>ess. Inr (concat ess)) = Inl e) \<longleftrightarrow> (\<exists>x \<in> set xs. \<exists>e. f x = Inl e)"
proof -
  have "is_ok (bind_res (map_res f xs) (\<lambda>ess. Inr (concat ess))) = is_ok (map_res f xs)"
    by (cases "map_res f xs") auto
  then have "(\<exists>e. bind_res (map_res f xs) (\<lambda>ess. Inr (concat ess)) = Inl e) \<longleftrightarrow> \<not> is_ok (map_res f xs)"
    by (metis is_ok_simps old.sum.exhaust)
  also have "\<dots> \<longleftrightarrow> (\<exists>x \<in> set xs. \<exists>e. f x = Inl e)"
    unfolding map_res_ok_iff by (metis is_ok_simps old.sum.exhaust)
  finally show ?thesis .
qed

lemma bind_map_nil: "bind_res r (\<lambda>es. Inr (map h es)) = Inr [] \<longleftrightarrow> r = Inr []"
  by (cases r) auto

definition fits :: "AneGraph \<Rightarrow> bool" where
  "fits g \<longleftrightarrow> length (tensors g) < 2 ^ 32 \<and> (\<forall>n \<in> set (nodes g). weights_fit n)"

lemma built_node_in: "built g \<Longrightarrow> fits g \<Longrightarrow> n \<in> set (nodes g) \<Longrightarrow> node_in g n"
  by (simp add: node_in_def fits_def built_graph_wf)

lemma validate_graph_wf:
  assumes "graph_wf g"
  shows "validate_graph g = (if check_structure g \<noteq> [] then Inr (check_structure g)
    else bind_res (check_weights g) (\<lambda>ws. bind_res (check_binary_shapes g) (\<lambda>bs. Inr (ws @ bs))))"
  using assms
  by (simp add: validate_graph_def wf_check_shapes wf_check_edges wf_check_topo wf_check_reachability)

lemma structure_nil: "check_structure g = [] \<longleftrightarrow> graph_inputs g \<noteq> [] \<and> graph_outputs g \<noteq> []"
  by (simp add: check_structure_def)

lemma validate_graph_iff:
  assumes "built g" "fits g"
  shows "validate_graph g = Inr [] \<longleftrightarrow>
    graph_inputs g \<noteq> [] \<and> graph_outputs g \<noteq> [] \<and> (\<forall>n \<in> set (nodes g). node_requires g n)"
proof -
  have wf: "graph_wf g" using assms by (simp add: fits_def built_graph_wf)
  have "check_weights g = Inr [] \<and> check_binary_shapes g = Inr [] \<longleftrightarrow> (\<forall>n \<in> set (nodes g). node_requires g n)"
    using node_checks_ok [OF built_node_in [OF assms]]
    by (auto simp: check_weights_def check_binary_shapes_def concat_bind_nil bind_map_nil)
  then show ?thesis by (auto simp: validate_graph_wf [OF wf] structure_nil res_simps)
qed

text \<open>
  C1. A graph made by builder calls validates without errors exactly when it has an input and an
  output and every node meets its operator's requirement on arity, operand and result
  dimensions and weight bytes.
\<close>

theorem validate_graph_correct:
  assumes "built g" "fits g"
  shows "validate_graph g = Inr [] \<longleftrightarrow>
    graph_inputs g \<noteq> [] \<and> graph_outputs g \<noteq> [] \<and> (\<forall>n \<in> set (nodes g). node_requires g n)"
  using assms by (rule validate_graph_iff)

theorem validate_graph_correct_witness:
  "built demo_graph \<and> validate_graph demo_graph = Inr []"
proof -
  have "fits demo_graph" by (simp add: fits_def demo_graph_def weights_fit_def)
  moreover have "\<forall>n \<in> set (nodes demo_graph). node_requires demo_graph n"
    by (simp add: demo_graph_def node_requires_def op_requires_def shape_of_def demo_shape_def
        unary_ops_def arith_ops_def)
  moreover have "graph_inputs demo_graph \<noteq> []" "graph_outputs demo_graph \<noteq> []"
    by (simp_all add: demo_graph_def)
  ultimately show ?thesis using validate_graph_correct [OF demo_built] demo_built by blast
qed

text \<open>
  C2. The only failure of the validator on a built graph is the undefined remainder of a
  \<open>PIXEL_SHUFFLE\<close> node whose upscale factor is zero, reached exactly when the graph has inputs,
  outputs and such a node.
\<close>

theorem validate_graph_undefined:
  assumes "built g" "fits g"
  shows "(\<exists>e. validate_graph g = Inl e) \<longleftrightarrow>
    graph_inputs g \<noteq> [] \<and> graph_outputs g \<noteq> [] \<and> (\<exists>n \<in> set (nodes g). zero_upscale n)"
proof -
  have wf: "graph_wf g" using assms by (simp add: fits_def built_graph_wf)
  have "(\<exists>e. check_weights g = Inl e) \<longleftrightarrow> (\<exists>n \<in> set (nodes g). zero_upscale n)"
    unfolding check_weights_def concat_bind_fails
    using check_weights_case_fails [OF built_node_in [OF assms]] check_weights_node_case [OF built_node_in [OF assms]]
    by (auto simp: res_simps)
  moreover have "\<not> (\<exists>e. check_binary_shapes g = Inl e)"
    unfolding check_binary_shapes_def concat_bind_fails
    using binary_shapes_ok [OF built_node_in [OF assms]] by auto
  ultimately show ?thesis by (auto simp: validate_graph_wf [OF wf] structure_nil res_simps)
qed

definition shuffle_calls :: "build_call list" where
  "shuffle_calls = [Add_input ''x'' demo_shape,
     Add_op LIBANE_OP_PIXEL_SHUFFLE [0] demo_shape (Some [0, 0, 0, 0]), Mark_output 1 '''']"

definition shuffle_graph :: AneGraph where
  "shuffle_graph = \<lparr>
     tensors =
       [\<lparr>t_id = 0, t_name = ''x'', t_shape = demo_shape, t_producer = kInvalidNodeId\<rparr>,
        \<lparr>t_id = 1, t_name = ''t1'', t_shape = demo_shape, t_producer = 0\<rparr>],
     nodes = [\<lparr>n_id = 0, n_op = LIBANE_OP_PIXEL_SHUFFLE, n_inputs = [0], n_output = 1,
                n_weights = [0, 0, 0, 0], n_weight_file = ''w0.bin''\<rparr>],
     graph_inputs = [0], graph_outputs = [1], next_tensor_id = 2, next_node_id = 1\<rparr>"

lemma shuffle_built: "built shuffle_graph"
proof (rule run_build_built [OF built.built_empty])
  show "run_build shuffle_calls empty_graph = Inr shuffle_graph"
    by (simp add: shuffle_calls_def shuffle_graph_def add_input_def add_op_def mark_output_def validate_def
      demo_shape_def alloc_tensor_def empty_graph_def Let_def to_u32_def weight_file_name_def
      decimal_eval kInvalidNodeId_def signed_modulo_int_def)
qed

theorem validate_graph_undefined_witness:
  "built shuffle_graph \<and> (\<exists>e. validate_graph shuffle_graph = Inl e)"
proof -
  have "fits shuffle_graph" by (simp add: fits_def shuffle_graph_def weights_fit_def)
  moreover have "\<exists>n \<in> set (nodes shuffle_graph). zero_upscale n"
    by (simp add: shuffle_graph_def zero_upscale_def le_int32_def)
  moreover have "graph_inputs shuffle_graph \<noteq> []" "graph_outputs shuffle_graph \<noteq> []"
    by (simp_all add: shuffle_graph_def)
  ultimately show ?thesis using validate_graph_undefined [OF shuffle_built] shuffle_built by blast
qed

text \<open>
  C3. On any graph whose node ids are positions and whose node outputs are distinct, whatever
  its edges, the queue loop of the cycle check ends, its error list is empty exactly when the
  dependency relation between nodes is acyclic, and otherwise it is one error that reports how
  many nodes have no infinite dependency chain.
\<close>

theorem check_topo_correct:
  assumes "ids_ok g"
  shows "check_topo g = Inr (if acyclic (depends g) then []
     else [Cycle (card {i. i < length (nodes g) \<and> i \<in> Wellfounded.acc (depends g)}) (length (nodes g))])"
proof (cases "nodes g = []")
  case True
  then have "depends g = {}" by (simp add: depends_def)
  with True show ?thesis by (simp add: check_topo_def acyclic_def)
next
  case False
  show ?thesis
    unfolding check_topo_processed [OF assms False] using acc_all_iff_acyclic [of g]
    by (simp add: Let_def)
qed

text \<open>Two nodes that read each other's output, after one that does not depend on them.\<close>

definition cyclic_graph :: AneGraph where
  "cyclic_graph = demo_graph\<lparr>nodes :=
     [\<lparr>n_id = 0, n_op = LIBANE_OP_RELU, n_inputs = [0], n_output = 2, n_weights = [], n_weight_file = ''''\<rparr>,
      \<lparr>n_id = 1, n_op = LIBANE_OP_ADD, n_inputs = [2, 4], n_output = 3, n_weights = [], n_weight_file = ''''\<rparr>,
      \<lparr>n_id = 2, n_op = LIBANE_OP_RELU, n_inputs = [3], n_output = 4, n_weights = [], n_weight_file = ''''\<rparr>]\<rparr>"

theorem check_topo_correct_witness:
  "ids_ok cyclic_graph \<and> \<not> acyclic (depends cyclic_graph) \<and> check_topo cyclic_graph \<noteq> Inr []"
proof -
  have ok: "ids_ok cyclic_graph" by (simp add: ids_ok_def cyclic_graph_def upt_rec)
  have "(1, 2) \<in> depends cyclic_graph" "(2, 1) \<in> depends cyclic_graph"
    by (simp_all add: depends_def cyclic_graph_def)
  then have "(1, 1) \<in> (depends cyclic_graph)\<^sup>+" by (meson trancl.intros)
  then have cyc: "\<not> acyclic (depends cyclic_graph)" by (auto simp: acyclic_def)
  with check_topo_correct [OF ok] show ?thesis using ok by simp
qed

end
