(* ===== verification/FusionRules.thy ===== *)
theory FusionRules
  imports AneGraph "HOL-Library.Sublist"
begin

text \<open>
  The fusion rules (src/graph/fusion_rules.hpp, fusion_rules.cpp): the consumer count of each
  tensor, the test whether a node extends the current group, and the greedy pass that splits
  the node sequence into groups. \<open>compute_groups\<close>'s local map \<open>tensor_group\<close> is written and
  never read, and \<open>graph_input_set\<close> is not used either; both are left out.
\<close>

record FusionGroup =
  node_ids :: "NodeId list"
  gr_inputs :: "TensorId list"
  gr_output :: TensorId

definition op_supported :: "libane_op_t \<Rightarrow> bool" where
  "op_supported op \<longleftrightarrow> op \<in> set
     [LIBANE_OP_MATMUL, LIBANE_OP_GELU, LIBANE_OP_SOFTMAX, LIBANE_OP_AVG_POOL, LIBANE_OP_MAX_POOL,
      LIBANE_OP_ADD, LIBANE_OP_MUL, LIBANE_OP_LOGICAL_AND, LIBANE_OP_LOGICAL_OR,
      LIBANE_OP_LOGICAL_XOR, LIBANE_OP_REDUCE_PROD, LIBANE_OP_REDUCE_SUM, LIBANE_OP_REDUCE_MEAN,
      LIBANE_OP_REDUCE_MAX, LIBANE_OP_SUB, LIBANE_OP_REAL_DIV, LIBANE_OP_SQRT, LIBANE_OP_LOG,
      LIBANE_OP_RSQRT, LIBANE_OP_CONCAT, LIBANE_OP_SLICE_BY_INDEX, LIBANE_OP_SCATTER,
      LIBANE_OP_SCATTER_ND, LIBANE_OP_SCATTER_ALONG_AXIS, LIBANE_OP_GATHER, LIBANE_OP_NEG,
      LIBANE_OP_MOD, LIBANE_OP_SINH, LIBANE_OP_COSH, LIBANE_OP_TAN, LIBANE_OP_ASIN,
      LIBANE_OP_ACOS, LIBANE_OP_SILU, LIBANE_OP_RMSNORM, LIBANE_OP_LAYERNORM,
      LIBANE_OP_LAYER_NORM, LIBANE_OP_TRANSPOSE, LIBANE_OP_RESHAPE, LIBANE_OP_SELECT,
      LIBANE_OP_RELU, LIBANE_OP_TANH, LIBANE_OP_SIGMOID, LIBANE_OP_HARDSWISH,
      LIBANE_OP_LEAKY_RELU, LIBANE_OP_ELU, LIBANE_OP_PIXEL_SHUFFLE, LIBANE_OP_PWL_ACTIVATION]"

text \<open>\<open>count[x]++\<close> on an \<open>unordered_map\<close> starts from 0 when \<open>x\<close> is not a key.\<close>

definition incr :: "(TensorId \<rightharpoonup> nat) \<Rightarrow> TensorId \<Rightarrow> (TensorId \<rightharpoonup> nat)" where
  "incr m x = m(x \<mapsto> (case m x of None \<Rightarrow> 1 | Some c \<Rightarrow> c + 1))"

definition build_consumer_count :: "AneGraph \<Rightarrow> (TensorId \<rightharpoonup> nat)" where
  "build_consumer_count g =
     foldl incr
       (foldl (\<lambda>m n. foldl incr m (n_inputs n))
          (foldl (\<lambda>m t. m(t_id t \<mapsto> 0)) Map.empty (tensors g)) (nodes g))
       (graph_outputs g)"

text \<open>A loop that returns at the first node of the group with a property.\<close>

fun some_node :: "AneGraph \<Rightarrow> (GraphNode \<Rightarrow> bool) \<Rightarrow> NodeId list \<Rightarrow> bool res" where
  "some_node g P [] = Inr False"
| "some_node g P (nid # nids) =
     bind_res (node g nid) (\<lambda>n. if P n then Inr True else some_node g P nids)"

definition can_extend :: "AneGraph \<Rightarrow> FusionGroup \<Rightarrow> NodeId \<Rightarrow> (TensorId \<rightharpoonup> nat) \<Rightarrow> bool res" where
  "can_extend g gr candidate_id consumer_count =
     (if node_ids gr = [] then Inr False
      else bind_res (node g (last (node_ids gr))) (\<lambda>lst.
           bind_res (node g candidate_id) (\<lambda>candidate.
             if \<not> op_supported (n_op candidate) then Inr False
             else if n_inputs candidate = [] then Inr False
             else if n_inputs candidate ! 0 \<noteq> n_output lst then Inr False
             else if consumer_count (n_output lst) \<noteq> Some 1 then Inr False
             else bind_res (if n_weight_file candidate \<noteq> ''''
                            then some_node g (\<lambda>n. n_weight_file n = n_weight_file candidate) (node_ids gr)
                            else Inr False) (\<lambda>same_file.
                  if same_file then Inr False
                  else bind_res (if length (n_inputs candidate) \<ge> 2
                                 then some_node g (\<lambda>n. n_output n = n_inputs candidate ! 1) (node_ids gr)
                                 else Inr False) (\<lambda>intra. Inr (\<not> intra))))))"

fun add_side_inputs :: "TensorId list \<Rightarrow> TensorId list \<Rightarrow> TensorId list" where
  "add_side_inputs ins [] = ins"
| "add_side_inputs ins (side # sides) =
     add_side_inputs (if side \<in> set ins then ins else ins @ [side]) sides"

definition extend_group :: "FusionGroup \<Rightarrow> GraphNode \<Rightarrow> FusionGroup" where
  "extend_group gr n = gr\<lparr>node_ids := node_ids gr @ [n_id n], gr_output := n_output n,
     gr_inputs := add_side_inputs (gr_inputs gr) (tl (n_inputs n))\<rparr>"

definition new_group :: "GraphNode \<Rightarrow> FusionGroup" where
  "new_group n = \<lparr>node_ids = [n_id n],
     gr_inputs = (if n_inputs n \<noteq> [] then [n_inputs n ! 0] else []) @ tl (n_inputs n),
     gr_output = n_output n\<rparr>"

fun group_pass :: "AneGraph \<Rightarrow> (TensorId \<rightharpoonup> nat) \<Rightarrow> FusionGroup list \<Rightarrow> GraphNode list \<Rightarrow> FusionGroup list res" where
  "group_pass g cc groups [] = Inr groups"
| "group_pass g cc groups (n # ns) =
     bind_res (if groups \<noteq> [] then can_extend g (last groups) (n_id n) cc else Inr False) (\<lambda>extended.
       group_pass g cc
         (if extended then butlast groups @ [extend_group (last groups) n] else groups @ [new_group n]) ns)"

definition compute_groups :: "AneGraph \<Rightarrow> FusionGroup list res" where
  "compute_groups g = group_pass g (build_consumer_count g) [] (nodes g)"

section \<open>Consumers\<close>

definition uses :: "AneGraph \<Rightarrow> TensorId \<Rightarrow> nat" where
  "uses g x = sum_list (map (\<lambda>n. count_list (n_inputs n) x) (nodes g)) + count_list (graph_outputs g) x"

lemma foldl_incr:
  "foldl incr m xs x = (if x \<in> set xs then Some ((case m x of None \<Rightarrow> 0 | Some c \<Rightarrow> c) + count_list xs x) else m x)"
  by (induction xs arbitrary: m) (auto simp: incr_def count_list_0_iff split: option.splits)

lemma foldl_incr_nodes:
  "m x = Some c \<Longrightarrow> foldl (\<lambda>m n. foldl incr m (n_inputs n)) m ns x
     = Some (c + sum_list (map (\<lambda>n. count_list (n_inputs n) x) ns))"
proof (induction ns arbitrary: m c)
  case (Cons n ns)
  have "foldl incr m (n_inputs n) x = Some (c + count_list (n_inputs n) x)"
    using Cons.prems by (auto simp: foldl_incr)
  from Cons.IH [where m = "foldl incr m (n_inputs n)", OF this] show ?case by (simp add: add.assoc)
qed simp

lemma foldl_zero: "foldl (\<lambda>m t. m(t_id t \<mapsto> 0)) m ts x = (if x \<in> t_id ` set ts then Some 0 else m x)"
  by (induction ts arbitrary: m) auto

lemma consumer_count_uses:
  assumes wf: "graph_wf g" and x: "x < length (tensors g)"
  shows "build_consumer_count g x = Some (uses g x)"
proof -
  have "x \<in> t_id ` set (tensors g)" using wf_t_id [OF wf x] x nth_mem by force
  then have "foldl (\<lambda>m t. m(t_id t \<mapsto> 0)) Map.empty (tensors g) x = Some 0" by (simp add: foldl_zero)
  from foldl_incr_nodes [where m = "foldl (\<lambda>m t. m(t_id t \<mapsto> 0)) Map.empty (tensors g)"
      and ns = "nodes g", OF this]
  show ?thesis
    by (simp add: build_consumer_count_def foldl_incr uses_def)
qed

text \<open>A tensor with one use that node \<open>i\<close> reads is read nowhere else and is no graph output.\<close>

lemma uses_once:
  assumes "uses g x = 1" "i < length (nodes g)" "x \<in> set (n_inputs (nodes g ! i))"
  shows "\<And>j. j < length (nodes g) \<Longrightarrow> x \<in> set (n_inputs (nodes g ! j)) \<Longrightarrow> j = i"
    "x \<notin> set (graph_outputs g)" "count_list (n_inputs (nodes g ! i)) x = 1"
proof -
  let ?c = "\<lambda>n. count_list (n_inputs n) x"
  have split: "sum_list (map ?c (nodes g)) =
      sum_list (map ?c (take i (nodes g))) + ?c (nodes g ! i) + sum_list (map ?c (drop (Suc i) (nodes g)))"
    by (subst id_take_nth_drop [OF assms(2)]) simp
  have "0 < ?c (nodes g ! i)" using assms(3) by (metis count_list_0_iff neq0_conv)
  with assms(1) split have rest: "sum_list (map ?c (take i (nodes g))) = 0"
    "sum_list (map ?c (drop (Suc i) (nodes g))) = 0"
    "count_list (graph_outputs g) x = 0" and one: "?c (nodes g ! i) = 1"
    unfolding uses_def by linarith+
  show "x \<notin> set (graph_outputs g)" "count_list (n_inputs (nodes g ! i)) x = 1"
    using rest(3) one by (simp_all add: count_list_0_iff)
  fix j assume j: "j < length (nodes g)" "x \<in> set (n_inputs (nodes g ! j))"
  show "j = i"
  proof (rule ccontr)
    assume "j \<noteq> i"
    then have "nodes g ! j \<in> set (take i (nodes g)) \<union> set (drop (Suc i) (nodes g))"
      using j(1) by (cases "j < i") (auto simp: in_set_conv_nth intro: exI [of _ j] exI [of _ "j - Suc i"])
    then have "?c (nodes g ! j) = 0" using rest(1,2) by auto
    then show False using j(2) by (simp add: count_list_0_iff)
  qed
qed

section \<open>The greedy pass\<close>

text \<open>Node \<open>b\<close> may follow node \<open>a\<close> in a group: it is supported, its first input is the output of
  \<open>a\<close>, and nothing else reads that output.\<close>

definition linked :: "AneGraph \<Rightarrow> NodeId \<Rightarrow> NodeId \<Rightarrow> bool" where
  "linked g a b \<longleftrightarrow> op_supported (n_op (nodes g ! b)) \<and> n_inputs (nodes g ! b) \<noteq> []
     \<and> n_inputs (nodes g ! b) ! 0 = n_output (nodes g ! a) \<and> uses g (n_output (nodes g ! a)) = 1"

definition reads :: "AneGraph \<Rightarrow> NodeId list \<Rightarrow> TensorId set" where
  "reads g ids = (\<Union>i \<in> set ids. set (n_inputs (nodes g ! i)))"

definition writes :: "AneGraph \<Rightarrow> NodeId list \<Rightarrow> TensorId set" where
  "writes g ids = (\<lambda>i. n_output (nodes g ! i)) ` set ids"

definition group_ok :: "AneGraph \<Rightarrow> FusionGroup \<Rightarrow> bool" where
  "group_ok g gr \<longleftrightarrow> node_ids gr \<noteq> [] \<and> successively (linked g) (node_ids gr)
     \<and> gr_output gr = n_output (nodes g ! last (node_ids gr))
     \<and> set (gr_inputs gr) = reads g (node_ids gr) - writes g (node_ids gr)
     \<and> prefix (n_inputs (nodes g ! hd (node_ids gr))) (gr_inputs gr)
     \<and> (distinct (n_inputs (nodes g ! hd (node_ids gr))) \<longrightarrow> distinct (gr_inputs gr))"

definition pass_inv :: "AneGraph \<Rightarrow> nat \<Rightarrow> FusionGroup list \<Rightarrow> bool" where
  "pass_inv g k gs \<longleftrightarrow> concat (map node_ids gs) = [0..<k] \<and> (\<forall>gr \<in> set gs. group_ok g gr)
     \<and> (\<forall>i. Suc i < k \<longrightarrow> (\<exists>gr \<in> set gs. i \<in> set (node_ids gr) \<and> Suc i \<in> set (node_ids gr)) \<longleftrightarrow> linked g i (Suc i))"

lemma successively_next:
  "successively P xs \<Longrightarrow> a \<in> set xs \<Longrightarrow> a \<noteq> last xs \<Longrightarrow> \<exists>c \<in> set xs. P a c"
  by (induction xs rule: induct_list012) auto

lemma add_side_inputs_set: "set (add_side_inputs ins sides) = set ins \<union> set sides"
  by (induction ins sides rule: add_side_inputs.induct) auto

lemma add_side_inputs_prefix: "prefix ins (add_side_inputs ins sides)"
  by (induction ins sides rule: add_side_inputs.induct) (auto split: if_splits dest: append_prefixD)

lemma add_side_inputs_distinct: "distinct ins \<Longrightarrow> distinct (add_side_inputs ins sides)"
  by (induction ins sides rule: add_side_inputs.induct) auto

lemma some_node_ok:
  assumes "graph_wf g" "\<forall>i \<in> set ids. i < length (nodes g)"
  shows "some_node g P ids = Inr (\<exists>i \<in> set ids. P (nodes g ! i))"
  using assms(2) by (induction ids) (auto simp: node_ok [OF assms(1)])

lemma linked_read: "linked g a b \<Longrightarrow> n_output (nodes g ! a) \<in> set (n_inputs (nodes g ! b))"
  by (metis linked_def length_greater_0_conv nth_mem)

text \<open>The second and later inputs of a node linked to the end of a group are external to it.\<close>

lemma side_inputs_external:
  assumes ok: "successively (linked g) ids" and ids: "ids \<noteq> []" "\<forall>i \<in> set ids. i < b"
    and b: "b < length (nodes g)" and link: "linked g (last ids) b"
    and side: "x \<in> set (tl (n_inputs (nodes g ! b)))"
  shows "x \<notin> writes g ids"
proof
  assume "x \<in> writes g ids"
  then obtain a where a: "a \<in> set ids" "x = n_output (nodes g ! a)" by (auto simp: writes_def)
  let ?ins = "n_inputs (nodes g ! b)"
  have read: "x \<in> set ?ins" using side by (metis list.set_sel(2) tl_Nil)
  show False
  proof (cases "a = last ids")
    case True
    then have "?ins = x # tl ?ins" "uses g x = 1"
      using link a(2) by (metis linked_def hd_conv_nth list.collapse)+
    moreover have "count_list ?ins x = 1" using uses_once(3) [OF _ b read] calculation by simp
    ultimately have "count_list (tl ?ins) x = 0"
      by (metis add_diff_cancel_right' count_list.simps(2) diff_self_eq_0)
    then show False using side by (simp add: count_list_0_iff)
  next
    case False
    then obtain c where c: "c \<in> set ids" "linked g a c" using successively_next [OF ok a(1)] by blast
    then have "c < b" "uses g x = 1" using ids(2) a(2) by (auto simp: linked_def)
    moreover have "x \<in> set (n_inputs (nodes g ! c))" using linked_read [OF c(2)] a(2) by simp
    ultimately show False using uses_once(1) [OF _ b read] b by (metis less_irrefl less_trans)
  qed
qed

lemma weight_file_name_inj [simp]: "weight_file_name i = weight_file_name j \<longleftrightarrow> i = j"
  by (simp add: weight_file_name_def)

lemma wf_weight_file_inj:
  assumes "graph_wf g" "i < length (nodes g)" "j < length (nodes g)"
    and "n_weight_file (nodes g ! i) \<noteq> []" "n_weight_file (nodes g ! j) = n_weight_file (nodes g ! i)"
  shows "j = i"
  using assms wf_node_wf [OF assms(1,2)] wf_node_wf [OF assms(1,3)] wf_n_id [OF assms(1)]
  by (auto simp: node_wf_def split: if_splits)

lemma can_extend_linked:
  assumes wf: "graph_wf g" and gr: "group_ok g gr" "\<forall>i \<in> set (node_ids gr). i < b" and b: "b < length (nodes g)"
  shows "can_extend g gr b (build_consumer_count g) = Inr (linked g (last (node_ids gr)) b)"
proof -
  let ?ids = "node_ids gr" and ?n = "nodes g ! b"
  have ne: "?ids \<noteq> []" and ch: "successively (linked g) ?ids" using gr(1) by (auto simp: group_ok_def)
  have bound: "\<forall>i \<in> set ?ids. i < length (nodes g)" using gr(2) b by auto
  have last: "last ?ids < length (nodes g)" using bound ne by simp
  have cc: "build_consumer_count g (n_output (nodes g ! last ?ids)) = Some (uses g (n_output (nodes g ! last ?ids)))"
    using consumer_count_uses [OF wf wf_n_output [OF wf last]] .
  have files: "\<not> (\<exists>i \<in> set ?ids. n_weight_file (nodes g ! i) = n_weight_file ?n)" if "n_weight_file ?n \<noteq> ''''"
    using wf_weight_file_inj [OF wf b _ that] gr(2) bound by (metis less_irrefl)
  have sides: "\<not> (\<exists>i \<in> set ?ids. n_output (nodes g ! i) = n_inputs ?n ! 1)"
    if "linked g (last ?ids) b" "length (n_inputs ?n) \<ge> 2"
  proof -
    have "n_inputs ?n ! 1 \<in> set (tl (n_inputs ?n))"
      using that(2) by (metis One_nat_def Suc_le_lessD length_tl nth_mem nth_tl numeral_2_eq_2 zero_less_diff)
    then show ?thesis using side_inputs_external [OF ch ne gr(2) b that(1)]
      unfolding writes_def by (metis image_eqI)
  qed
  show ?thesis
  proof (cases "linked g (last ?ids) b")
    case True
    then show ?thesis
      using files sides ne
      by (simp add: can_extend_def node_ok [OF wf last] node_ok [OF wf b] cc some_node_ok [OF wf bound]
          linked_def del: One_nat_def)
  next
    case False
    then show ?thesis
      using ne by (auto simp: can_extend_def node_ok [OF wf last] node_ok [OF wf b] cc linked_def)
  qed
qed

lemma group_ok_new:
  assumes "graph_wf g" "b < length (nodes g)"
  shows "group_ok g (new_group (nodes g ! b))"
proof -
  have "gr_inputs (new_group (nodes g ! b)) = n_inputs (nodes g ! b)"
    by (cases "n_inputs (nodes g ! b)") (auto simp: new_group_def)
  moreover have "n_output (nodes g ! b) \<notin> set (n_inputs (nodes g ! b))"
    using wf_n_input [OF assms] by blast
  ultimately show ?thesis
    using wf_n_id [OF assms] by (auto simp: group_ok_def new_group_def reads_def writes_def)
qed

lemma group_ok_extend:
  assumes wf: "graph_wf g" and gr: "group_ok g gr" "\<forall>i \<in> set (node_ids gr). i < b"
    and b: "b < length (nodes g)" and link: "linked g (last (node_ids gr)) b"
  shows "group_ok g (extend_group gr (nodes g ! b))"
proof -
  let ?ids = "node_ids gr" and ?n = "nodes g ! b"
  have ne: "?ids \<noteq> []" and ch: "successively (linked g) ?ids" using gr(1) by (auto simp: group_ok_def)
  have ins: "set (n_inputs ?n) = insert (n_output (nodes g ! last ?ids)) (set (tl (n_inputs ?n)))"
    using link by (metis linked_def hd_conv_nth list.collapse list.simps(15))
  have hd: "n_output (nodes g ! last ?ids) \<in> writes g ?ids" using ne by (simp add: writes_def)
  have side: "set (tl (n_inputs ?n)) \<inter> writes g ?ids = {}"
    using side_inputs_external [OF ch ne gr(2) b link] by blast
  have out: "n_output ?n \<notin> reads g ?ids \<union> set (n_inputs ?n)"
  proof -
    have "x < n_output ?n" if "i \<in> set ?ids" "x \<in> set (n_inputs (nodes g ! i))" for i x
      using that gr(2) b wf_n_input [OF wf _ that(2)] wf_output_mono [OF wf _ b, of i]
      by (meson less_trans)
    then show ?thesis using wf_n_input [OF wf b] by (auto simp: reads_def)
  qed
  have "set (gr_inputs (extend_group gr ?n)) = reads g (?ids @ [b]) - writes g (?ids @ [b])"
    using gr(1) ins hd side out
    by (auto simp: group_ok_def extend_group_def add_side_inputs_set reads_def writes_def)
  moreover have "prefix (n_inputs (nodes g ! hd ?ids)) (gr_inputs (extend_group gr ?n))"
    "distinct (n_inputs (nodes g ! hd ?ids)) \<longrightarrow> distinct (gr_inputs (extend_group gr ?n))"
    using gr(1) prefix_order.trans [OF _ add_side_inputs_prefix]
    by (auto simp: group_ok_def extend_group_def add_side_inputs_distinct)
  ultimately show ?thesis
    using ne ch link wf_n_id [OF wf b]
    by (auto simp: group_ok_def extend_group_def successively_append_iff)
qed

lemma pass_inv_step:
  assumes wf: "graph_wf g" and b: "b < length (nodes g)" and inv: "pass_inv g b gs"
  shows "\<exists>gs'. pass_inv g (Suc b) gs' \<and>
     (\<forall>ns. group_pass g (build_consumer_count g) gs (nodes g ! b # ns)
         = group_pass g (build_consumer_count g) gs' ns)"
proof (cases "gs = []")
  case True
  then have "b = 0" using inv by (auto simp: pass_inv_def dest: sym)
  then have "pass_inv g (Suc b) [new_group (nodes g ! b)]"
    using group_ok_new [OF wf b] wf_n_id [OF wf b] by (simp add: pass_inv_def new_group_def)
  with True show ?thesis by auto
next
  case False
  then obtain us gr where gs: "gs = us @ [gr]" by (metis rev_exhaust)
  have cat: "concat (map node_ids us) @ node_ids gr = [0..<b]" and ok: "group_ok g gr" "\<forall>u \<in> set us. group_ok g u"
    and bnd: "\<forall>i. Suc i < b \<longrightarrow> (\<exists>gr \<in> set gs. i \<in> set (node_ids gr) \<and> Suc i \<in> set (node_ids gr)) \<longleftrightarrow> linked g i (Suc i)"
    using inv gs by (auto simp: pass_inv_def)
  have mem: "\<forall>i \<in> set (node_ids gr). i < b"
    using cat by (metis Un_iff atLeastLessThan_iff set_append set_upt)
  have memu: "\<forall>u \<in> set us. \<forall>i \<in> set (node_ids u). i < b"
    using arg_cong [OF cat, of set] by auto
  have ne: "node_ids gr \<noteq> []" using ok(1) by (simp add: group_ok_def)
  then have b0: "0 < b" using mem by (metis gr_zeroI last_in_set less_nat_zero_code)
  have last: "last (node_ids gr) = b - 1"
    using arg_cong [OF cat, of last] ne b0 by (simp add: last_upt)
  let ?gr = "if linked g (b - 1) b then [extend_group gr (nodes g ! b)] else [gr, new_group (nodes g ! b)]"
  have ext: "can_extend g gr b (build_consumer_count g) = Inr (linked g (b - 1) b)"
    using can_extend_linked [OF wf ok(1) mem b] last by simp
  have id: "n_id (nodes g ! b) = b" using wf_n_id [OF wf b] .
  have "pass_inv g (Suc b) (us @ ?gr)"
    unfolding pass_inv_def
  proof (intro conjI ballI allI impI)
    show "concat (map node_ids (us @ ?gr)) = [0..<Suc b]"
      using cat id by (simp add: extend_group_def new_group_def flip: append_assoc)
    show "group_ok g u" if "u \<in> set (us @ ?gr)" for u
      using that ok group_ok_new [OF wf b] group_ok_extend [OF wf ok(1) mem b] last
      by (auto split: if_splits)
    fix i assume i: "Suc i < Suc b"
    show "(\<exists>u \<in> set (us @ ?gr). i \<in> set (node_ids u) \<and> Suc i \<in> set (node_ids u)) \<longleftrightarrow> linked g i (Suc i)"
    proof (cases "Suc i < b")
      case True
      then have "(\<exists>u \<in> set (us @ ?gr). i \<in> set (node_ids u) \<and> Suc i \<in> set (node_ids u))
          \<longleftrightarrow> (\<exists>u \<in> set gs. i \<in> set (node_ids u) \<and> Suc i \<in> set (node_ids u))"
        using gs id by (auto simp: extend_group_def new_group_def)
      then show ?thesis using bnd True by blast
    next
      case False
      then have "Suc i = b" using i by simp
      then show ?thesis
        using memu mem last ne id last_in_set [OF ne]
        by (auto simp: extend_group_def new_group_def)
    qed
  qed
  moreover have "group_pass g (build_consumer_count g) gs (nodes g ! b # ns)
      = group_pass g (build_consumer_count g) (us @ ?gr) ns" for ns
    using gs ext id by simp
  ultimately show ?thesis by blast
qed

lemma group_pass_inv:
  assumes wf: "graph_wf g" and k: "k \<le> length (nodes g)" and inv: "pass_inv g k gs"
  shows "\<exists>gs'. group_pass g (build_consumer_count g) gs (drop k (nodes g)) = Inr gs'
     \<and> pass_inv g (length (nodes g)) gs'"
  using k inv
proof (induction "length (nodes g) - k" arbitrary: k gs)
  case 0
  then show ?case by simp
next
  case (Suc m)
  then have k: "k < length (nodes g)" by simp
  obtain gs' where gs': "pass_inv g (Suc k) gs'"
    "\<forall>ns. group_pass g (build_consumer_count g) gs (nodes g ! k # ns) = group_pass g (build_consumer_count g) gs' ns"
    using pass_inv_step [OF wf k Suc(4)] by blast
  then show ?case using Suc(1) [of "Suc k" gs'] Suc(2) k by (simp add: Cons_nth_drop_Suc [symmetric])
qed

lemma compute_groups_inv:
  "graph_wf g \<Longrightarrow> \<exists>gs. compute_groups g = Inr gs \<and> pass_inv g (length (nodes g)) gs"
  using group_pass_inv [of g 0 "[]"] by (simp add: compute_groups_def pass_inv_def)

section \<open>Guarantees of the partition\<close>

lemma sorted_blocks:
  assumes "sorted_wrt (<) (concat xss)" "i < j" "j < length xss" "x \<in> set (xss ! i)" "y \<in> set (xss ! j)"
  shows "x < (y :: nat)"
proof -
  have "concat xss = concat (take j xss) @ concat (drop j xss)"
    by (metis append_take_drop_id concat_append)
  then have "\<forall>x \<in> set (concat (take j xss)). \<forall>y \<in> set (concat (drop j xss)). x < y"
    using assms(1) by (metis sorted_wrt_append)
  moreover have "x \<in> set (concat (take j xss))"
    using assms(2-4) nth_mem [of i "take j xss"] by (auto intro!: bexI [of _ "xss ! i"])
  moreover have "y \<in> set (concat (drop j xss))"
    using assms(3,5) by (metis Cons_nth_drop_Suc UnI1 concat.simps(2) set_append)
  ultimately show ?thesis by blast
qed

lemma group_of_node:
  assumes "pass_inv g k gs" "a < k"
  obtains j where "j < length gs" "a \<in> set (node_ids (gs ! j))"
proof -
  have "a \<in> set (concat (map node_ids gs))" using assms by (simp add: pass_inv_def)
  then show ?thesis using that by (auto simp: in_set_conv_nth [of _ gs])
qed

lemma group_order:
  assumes "pass_inv g k gs" "i < length gs" "j < length gs"
    and "a \<in> set (node_ids (gs ! i))" "b \<in> set (node_ids (gs ! j))"
  shows "i < j \<Longrightarrow> a < b" "a = b \<Longrightarrow> i = j" "a < k"
proof -
  have s: "sorted_wrt (<) (concat (map node_ids gs))" using assms(1) by (simp add: pass_inv_def)
  show "i < j \<Longrightarrow> a < b" using sorted_blocks [OF s, of i j a b] assms by simp
  show "a = b \<Longrightarrow> i = j"
    using sorted_blocks [OF s, of i j a b] sorted_blocks [OF s, of j i b a] assms
    by (cases i j rule: linorder_cases) auto
  have "a \<in> set (concat (map node_ids gs))" using assms(2,4) by auto
  moreover have "set (concat (map node_ids gs)) = {0..<k}"
    using assms(1) unfolding pass_inv_def by (metis set_upt)
  ultimately show "a < k" by auto
qed

text \<open>A node that is not the last of its group has its output read inside the group only.\<close>

lemma inner_output_private:
  assumes inv: "pass_inv g (length (nodes g)) gs" and j: "j < length gs" "a \<in> set (node_ids (gs ! j))"
    and inner: "a \<noteq> last (node_ids (gs ! j))"
  shows "n_output (nodes g ! a) \<notin> set (graph_outputs g)"
    "\<And>b. b < length (nodes g) \<Longrightarrow> n_output (nodes g ! a) \<in> set (n_inputs (nodes g ! b)) \<Longrightarrow> b \<in> set (node_ids (gs ! j))"
proof -
  have "successively (linked g) (node_ids (gs ! j))" using inv j by (simp add: pass_inv_def group_ok_def)
  then obtain c where c: "c \<in> set (node_ids (gs ! j))" "linked g a c"
    using successively_next [OF _ j(2) inner] by blast
  have cb: "c < length (nodes g)" using group_order(3) [OF inv j(1) j(1) c(1) c(1)] .
  have once: "uses g (n_output (nodes g ! a)) = 1" using c(2) by (simp add: linked_def)
  show "n_output (nodes g ! a) \<notin> set (graph_outputs g)"
    "\<And>b. b < length (nodes g) \<Longrightarrow> n_output (nodes g ! a) \<in> set (n_inputs (nodes g ! b)) \<Longrightarrow> b \<in> set (node_ids (gs ! j))"
    using uses_once(1,2) [OF once cb linked_read [OF c(2)]] c(1) by blast+
qed


lemma demo_groups:
  "compute_groups demo_graph = Inr
     [\<lparr>node_ids = [0, 1, 2], gr_inputs = [0, 1], gr_output = 4\<rparr>,
      \<lparr>node_ids = [3], gr_inputs = [4], gr_output = 5\<rparr>]"
  by (simp add: compute_groups_def build_consumer_count_def demo_graph_def can_extend_def new_group_def
      extend_group_def node_def to_u32_def op_supported_def incr_def)


lemma groups_dataflow:
  assumes wf: "graph_wf g" and gs: "compute_groups g = Inr gs"
  shows "(\<forall>i < length gs. \<forall>x \<in> set (gr_inputs (gs ! i)).
      x \<in> set (graph_inputs g) \<or> (\<exists>j < i. gr_output (gs ! j) = x))
    \<and> (\<forall>x \<in> set (graph_outputs g). x \<in> set (graph_inputs g) \<or> (\<exists>gr \<in> set gs. gr_output gr = x))"
proof -
  have inv: "pass_inv g (length (nodes g)) gs" using compute_groups_inv [OF wf] gs by simp
  have ok: "\<And>i. i < length gs \<Longrightarrow> group_ok g (gs ! i)" using inv by (simp add: pass_inv_def)
  have "x \<in> set (graph_inputs g) \<or> (\<exists>j < i. gr_output (gs ! j) = x)"
    if i: "i < length gs" and x: "x \<in> set (gr_inputs (gs ! i))" for i x
  proof -
    have "x \<in> reads g (node_ids (gs ! i))" and nw: "x \<notin> writes g (node_ids (gs ! i))"
      using ok [OF i] x by (auto simp: group_ok_def)
    then obtain b where b: "b \<in> set (node_ids (gs ! i))" "x \<in> set (n_inputs (nodes g ! b))"
      by (auto simp: reads_def)
    have bN: "b < length (nodes g)" using group_order(3) [OF inv i i b(1) b(1)] .
    show ?thesis
    proof (cases "x \<in> set (graph_inputs g)")
      case False
      then obtain a where a: "a < b" "n_output (nodes g ! a) = x"
        using wf_input_source [OF wf bN b(2)] by blast
      obtain j where j: "j < length gs" "a \<in> set (node_ids (gs ! j))"
        using group_of_node [OF inv less_trans [OF a(1) bN]] .
      have ne: "j \<noteq> i" using nw j(2) a(2) by (auto simp: writes_def)
      have "\<not> i < j" using group_order(1) [OF inv i j(1) b(1) j(2)] a(1) by auto
      with ne have lt: "j < i" by simp
      have "b \<notin> set (node_ids (gs ! j))" using group_order(2) [OF inv i j(1) b(1)] ne by blast
      then have "a = last (node_ids (gs ! j))"
        using inner_output_private(2) [OF inv j _ bN] b(2) a(2) by auto
      then have "gr_output (gs ! j) = x" using ok [OF j(1)] a(2) by (simp add: group_ok_def)
      with lt show ?thesis by blast
    qed simp
  qed
  moreover have "x \<in> set (graph_inputs g) \<or> (\<exists>gr \<in> set gs. gr_output gr = x)" if x: "x \<in> set (graph_outputs g)" for x
  proof (cases "x \<in> set (graph_inputs g)")
    case False
    then obtain a where a: "a < length (nodes g)" "n_output (nodes g ! a) = x"
      using wf_tensor_source [OF wf wf_graph_output_bound [OF wf x]] by blast
    obtain j where j: "j < length gs" "a \<in> set (node_ids (gs ! j))"
      using group_of_node [OF inv a(1)] .
    then have "a = last (node_ids (gs ! j))" using inner_output_private(1) [OF inv j] x a(2) by blast
    then show ?thesis using ok [OF j(1)] a(2) j(1) by (auto simp: group_ok_def)
  qed simp
  ultimately show ?thesis by blast
qed

text \<open>
  C7. Data flow between groups of a built graph: every external input of a group is a graph
  input or the output of an earlier group, so running the groups in order never reads a tensor
  that is not there yet; and every graph output is a graph input or the output of a group, so
  no requested result is lost inside a fused group.
\<close>

theorem fusion_dataflow:
  assumes "built g" "length (tensors g) < 2 ^ 32" "compute_groups g = Inr gs"
  shows "(\<forall>i < length gs. \<forall>x \<in> set (gr_inputs (gs ! i)).
      x \<in> set (graph_inputs g) \<or> (\<exists>j < i. gr_output (gs ! j) = x))
    \<and> (\<forall>x \<in> set (graph_outputs g). x \<in> set (graph_inputs g) \<or> (\<exists>gr \<in> set gs. gr_output gr = x))"
  by (rule groups_dataflow [OF built_graph_wf [OF assms(1,2)] assms(3)])

theorem fusion_dataflow_witness:
  "built demo_graph \<and> (\<exists>gs. compute_groups demo_graph = Inr gs \<and> gr_inputs (gs ! 1) = [4] \<and> gr_output (gs ! 0) = 4)"
proof -
  have "length (tensors demo_graph) < 2 ^ 32" by (simp add: demo_graph_def)
  from fusion_dataflow [OF demo_built this demo_groups] show ?thesis
    using demo_built by (auto simp: demo_groups)
qed

text \<open>
  C8. The interface of a group is exact: its listed inputs are the tensors its nodes read and do
  not write, its output is that of its last node, and the output of every other node of the
  group is read only by nodes of the group and is no graph output.
\<close>

theorem fusion_interface:
  assumes "built g" "length (tensors g) < 2 ^ 32" "compute_groups g = Inr gs" "j < length gs"
  shows "set (gr_inputs (gs ! j)) = reads g (node_ids (gs ! j)) - writes g (node_ids (gs ! j))
    \<and> gr_output (gs ! j) = n_output (nodes g ! last (node_ids (gs ! j)))
    \<and> (\<forall>a \<in> set (node_ids (gs ! j)). a \<noteq> last (node_ids (gs ! j)) \<longrightarrow>
         n_output (nodes g ! a) \<notin> set (graph_outputs g)
         \<and> (\<forall>b < length (nodes g). n_output (nodes g ! a) \<in> set (n_inputs (nodes g ! b))
              \<longrightarrow> b \<in> set (node_ids (gs ! j))))"
proof -
  have inv: "pass_inv g (length (nodes g)) gs"
    using compute_groups_inv [OF built_graph_wf [OF assms(1,2)]] assms(3) by simp
  then have "group_ok g (gs ! j)" using assms(4) by (simp add: pass_inv_def)
  then show ?thesis using inner_output_private [OF inv assms(4)] by (auto simp: group_ok_def)
qed

theorem fusion_interface_witness:
  "\<exists>gs. compute_groups demo_graph = Inr gs \<and> set (gr_inputs (gs ! 0)) = {0, 1} \<and> gr_output (gs ! 0) = 4
     \<and> reads demo_graph [0, 1, 2] - writes demo_graph [0, 1, 2] = {0, 1}"
proof -
  have "length (tensors demo_graph) < 2 ^ 32" by (simp add: demo_graph_def)
  from fusion_interface [OF demo_built this demo_groups, of 0] show ?thesis
    by (auto simp: demo_groups)
qed

end
