(* ===== verification/CompileCache.thy ===== *)
theory CompileCache
  imports LibaneOps
begin

text \<open>
  The compile cache (src/core/compile_cache.hpp, compile_cache.cpp): an LRU list of entries and
  a map from keys to list positions. An \<open>std::list\<close> node is identified by a number that stays
  with it (what an iterator denotes); dereferencing a position that is not in the list is
  undefined behaviour. \<open>get\<close> is two critical sections, \<open>get_find\<close> under the shared lock and
  \<open>get_promote\<close> under the exclusive one, with other threads' sections in between; every other
  operation is one section. References the cache gives up are logged in \<open>dropped\<close>: the entry is
  destroyed once no caller holds it.
\<close>

unbundle bit_operations_syntax

record libane_shape_t =
  dims0 :: int
  dims1 :: int
  dims2 :: int
  dims3 :: int
  ndim :: int

record CacheKey =
  k_op :: libane_op_t
  k_shape :: libane_shape_t
  weight_hash :: size_t

definition key_eq :: "CacheKey \<Rightarrow> CacheKey \<Rightarrow> bool" where
  "key_eq a b \<longleftrightarrow> k_op a = k_op b \<and> weight_hash a = weight_hash b
     \<and> [dims0 (k_shape a), dims1 (k_shape a), dims2 (k_shape a), dims3 (k_shape a), ndim (k_shape a)]
     = [dims0 (k_shape b), dims1 (k_shape b), dims2 (k_shape b), dims3 (k_shape b), ndim (k_shape b)]"

definition hash_combine :: "size_t \<Rightarrow> size_t \<Rightarrow> size_t" where
  "hash_combine seed v = seed XOR (v + 0x9e3779b9 + push_bit 6 seed + drop_bit 2 seed)"

text \<open>\<open>std::hash\<close> on \<open>int\<close>/\<open>int32_t\<close> and \<open>uint64_t\<close> is the library's choice.\<close>

definition CacheKeyHash :: "(int \<Rightarrow> size_t) \<Rightarrow> (size_t \<Rightarrow> size_t) \<Rightarrow> CacheKey \<Rightarrow> size_t" where
  "CacheKeyHash hash_int hash_u64 k =
     (let h = hash_int (op_code (k_op k));
          h = hash_combine h (hash_u64 (weight_hash k));
          h = hash_combine h (hash_int (dims0 (k_shape k)));
          h = hash_combine h (hash_int (dims1 (k_shape k)));
          h = hash_combine h (hash_int (dims2 (k_shape k)));
          h = hash_combine h (hash_int (dims3 (k_shape k)))
      in h)"

record CacheEntry =
  e_key :: CacheKey
  backend_handle :: nat
  has_release_fn :: bool
  e_size_bytes :: size_t
  is_ane :: bool
  inserted_at :: nat

text \<open>\<open>~CacheEntry\<close>: the handles passed to \<open>release_fn\<close>.\<close>

definition destroy_entry :: "CacheEntry \<Rightarrow> nat list" where
  "destroy_entry e = (if backend_handle e \<noteq> 0 \<and> has_release_fn e then [backend_handle e] else [])"

record MapValue =
  lru_pos :: nat
  mv_entry :: CacheEntry

record CompileCache =
  max_bytes :: size_t
  current_bytes :: size_t
  lru :: "(nat \<times> CacheEntry) list"
  cmap :: "CacheKey \<rightharpoonup> MapValue"
  hits :: size_t
  misses :: size_t
  evictions :: size_t
  disk_cache_dir :: "string option"
  next_pos :: nat
  dropped :: "CacheEntry list"

definition kDefaultMaxBytes :: size_t where
  "kDefaultMaxBytes = 512 * 1024 * 1024"

definition mk_cache :: "size_t \<Rightarrow> CompileCache" where
  "mk_cache mb = \<lparr>max_bytes = mb, current_bytes = 0, lru = [], cmap = Map.empty, hits = 0,
     misses = 0, evictions = 0, disk_cache_dir = None, next_pos = 0, dropped = []\<rparr>"

section \<open>List positions\<close>

definition lru_erase :: "nat \<Rightarrow> (nat \<times> CacheEntry) list \<Rightarrow> (nat \<times> CacheEntry) list res" where
  "lru_erase pos l = (if pos \<in> fst ` set l then Inr (filter (\<lambda>x. fst x \<noteq> pos) l)
     else Inl (Undefined_behaviour ''invalid list iterator''))"

definition lru_splice_front :: "nat \<Rightarrow> (nat \<times> CacheEntry) list \<Rightarrow> (nat \<times> CacheEntry) list res" where
  "lru_splice_front pos l = (if pos \<in> fst ` set l
     then Inr (filter (\<lambda>x. fst x = pos) l @ filter (\<lambda>x. fst x \<noteq> pos) l)
     else Inl (Undefined_behaviour ''invalid list iterator''))"

section \<open>Operations\<close>

definition get_find :: "CacheKey \<Rightarrow> CompileCache \<Rightarrow> bool \<times> CompileCache" where
  "get_find key c =
     (case cmap c key of
        None \<Rightarrow> (False, c\<lparr>misses := misses c + 1\<rparr>)
      | Some _ \<Rightarrow> (True, c\<lparr>hits := hits c + 1\<rparr>))"

definition get_promote :: "CacheKey \<Rightarrow> CompileCache \<Rightarrow> (CacheEntry option \<times> CompileCache) res" where
  "get_promote key c =
     (case cmap c key of
        None \<Rightarrow> Inr (None, c)
      | Some mv \<Rightarrow> bind_res (lru_splice_front (lru_pos mv) (lru c)) (\<lambda>l.
          Inr (Some (mv_entry mv), c\<lparr>lru := l\<rparr>)))"

text \<open>\<open>get\<close> when no other thread runs between the two sections.\<close>

definition cache_get :: "CacheKey \<Rightarrow> CompileCache \<Rightarrow> (CacheEntry option \<times> CompileCache) res" where
  "cache_get key c =
     (let (hit, c1) = get_find key c in if hit then get_promote key c1 else Inr (None, c1))"

definition evict_lru_locked :: "CompileCache \<Rightarrow> CompileCache" where
  "evict_lru_locked c =
     (if lru c = [] then c
      else let victim = snd (last (lru c))
           in c\<lparr>current_bytes := current_bytes c - e_size_bytes victim,
                cmap := (cmap c)(e_key victim := None), lru := butlast (lru c),
                evictions := evictions c + 1, dropped := victim # dropped c\<rparr>)"

function evict_for :: "size_t \<Rightarrow> CompileCache \<Rightarrow> CompileCache" where
  "evict_for entry_size c =
     (if current_bytes c + entry_size > max_bytes c \<and> lru c \<noteq> []
      then evict_for entry_size (evict_lru_locked c) else c)"
  by pat_completeness auto
termination
  by (relation "measure (\<lambda>(s, c). length (lru c))") (auto simp: evict_lru_locked_def Let_def)

declare evict_for.simps [simp del]

definition remove_existing :: "CacheKey \<Rightarrow> CompileCache \<Rightarrow> CompileCache res" where
  "remove_existing key c =
     (case cmap c key of
        None \<Rightarrow> Inr c
      | Some mv \<Rightarrow> bind_res (lru_erase (lru_pos mv) (lru c)) (\<lambda>l.
          Inr (c\<lparr>current_bytes := current_bytes c - e_size_bytes (mv_entry mv), lru := l,
                 cmap := (cmap c)(key := None), dropped := mv_entry mv # dropped c\<rparr>)))"

definition push_entry :: "CacheEntry \<Rightarrow> CompileCache \<Rightarrow> CompileCache" where
  "push_entry e c = c\<lparr>lru := (next_pos c, e) # lru c,
     cmap := (cmap c)(e_key e \<mapsto> \<lparr>lru_pos = next_pos c, mv_entry = e\<rparr>),
     current_bytes := current_bytes c + e_size_bytes e, next_pos := next_pos c + 1\<rparr>"

text \<open>\<open>None\<close> is a null \<open>unique_ptr\<close>; \<open>now\<close> is the clock reading.\<close>

definition cache_put :: "nat \<Rightarrow> CacheEntry option \<Rightarrow> CompileCache \<Rightarrow> (CacheEntry option \<times> CompileCache) res" where
  "cache_put now entry c =
     (case entry of
        None \<Rightarrow> Inr (None, c)
      | Some e \<Rightarrow> bind_res (remove_existing (e_key e) c) (\<lambda>c1.
          let c2 = evict_for (e_size_bytes e) c1;
              shared = e\<lparr>inserted_at := now\<rparr>
          in Inr (Some shared, push_entry shared c2)))"

definition cache_flush :: "CompileCache \<Rightarrow> CompileCache" where
  "cache_flush c = c\<lparr>lru := [], cmap := Map.empty, current_bytes := 0,
     dropped := map snd (lru c) @ dropped c\<rparr>"

definition cache_size_bytes :: "CompileCache \<Rightarrow> size_t" where
  "cache_size_bytes c = current_bytes c"

definition cache_size :: "CompileCache \<Rightarrow> nat" where
  "cache_size c = card (dom (cmap c))"

definition cache_stats :: "CompileCache \<Rightarrow> size_t \<times> size_t \<times> size_t" where
  "cache_stats c = (hits c, misses c, evictions c)"

text \<open>\<open>create_directories\<close> is the file system's; \<open>mkdir d\<close> says whether it succeeds (it throws
  otherwise).\<close>

definition enable_disk_cache :: "(string \<Rightarrow> bool) \<Rightarrow> string \<Rightarrow> CompileCache \<Rightarrow> CompileCache res" where
  "enable_disk_cache mkdir directory c =
     (if mkdir directory then Inr (c\<lparr>disk_cache_dir := Some directory\<rparr>)
      else Inl (Runtime_error ''create_directories''))"

definition disable_disk_cache :: "CompileCache \<Rightarrow> CompileCache" where
  "disable_disk_cache c = c\<lparr>disk_cache_dir := None\<rparr>"

section \<open>Invariant\<close>

lemma key_eq_iff: "key_eq a b \<longleftrightarrow> a = b"
  by (auto simp: key_eq_def)

text \<open>List positions are distinct and already handed out, keys are distinct, the map holds
  exactly the list nodes under their keys, and the byte counter is the sum of the sizes.\<close>

definition cache_inv :: "CompileCache \<Rightarrow> bool" where
  "cache_inv c \<longleftrightarrow> distinct (map fst (lru c)) \<and> distinct (map (e_key \<circ> snd) (lru c))
     \<and> (\<forall>x \<in> set (lru c). fst x < next_pos c)
     \<and> (\<forall>k mv. cmap c k = Some mv \<longleftrightarrow> (lru_pos mv, mv_entry mv) \<in> set (lru c) \<and> e_key (mv_entry mv) = k)
     \<and> current_bytes c = sum_list (map (e_size_bytes \<circ> snd) (lru c))"

definition entries :: "CompileCache \<Rightarrow> CacheEntry list" where
  "entries c = map snd (lru c)"

lemma cache_invD:
  assumes "cache_inv c"
  shows "distinct (map fst (lru c))" "distinct (map e_key (entries c))"
    "\<And>x. x \<in> set (lru c) \<Longrightarrow> fst x < next_pos c"
    "\<And>k mv. cmap c k = Some mv \<longleftrightarrow> (lru_pos mv, mv_entry mv) \<in> set (lru c) \<and> e_key (mv_entry mv) = k"
    "current_bytes c = sum_list (map e_size_bytes (entries c))"
  using assms by (auto simp: cache_inv_def entries_def)

lemma cmap_iff_lru:
  assumes "cache_inv c"
  shows "cmap c k = Some mv \<Longrightarrow> x \<in> set (lru c) \<Longrightarrow> fst x = lru_pos mv \<longleftrightarrow> e_key (snd x) = k"
proof -
  assume mv: "cmap c k = Some mv" and x: "x \<in> set (lru c)"
  note d = cache_invD [OF assms]
  have in_l: "(lru_pos mv, mv_entry mv) \<in> set (lru c)" "e_key (mv_entry mv) = k" using mv d(4) by auto
  have "inj_on fst (set (lru c))" "inj_on (e_key \<circ> snd) (set (lru c))"
    using assms by (auto simp: cache_inv_def distinct_map)
  then show ?thesis using in_l x by (metis comp_apply fst_conv inj_on_eq_iff snd_conv)
qed

lemma cmap_None:
  assumes "cache_inv c"
  shows "cmap c k = None \<longleftrightarrow> k \<notin> e_key ` set (entries c)"
proof
  assume none: "cmap c k = None"
  show "k \<notin> e_key ` set (entries c)"
  proof
    assume "k \<in> e_key ` set (entries c)"
    then obtain p e where "(p, e) \<in> set (lru c)" "e_key e = k" by (auto simp: entries_def)
    then have "cmap c k = Some \<lparr>lru_pos = p, mv_entry = e\<rparr>" using cache_invD(4) [OF assms] by simp
    then show False using none by simp
  qed
next
  assume "k \<notin> e_key ` set (entries c)"
  then show "cmap c k = None" using cache_invD(4) [OF assms, of k] by (cases "cmap c k") (force simp: entries_def)+
qed

lemma cmap_Some_entry:
  "cache_inv c \<Longrightarrow> cmap c k = Some mv \<Longrightarrow> mv_entry mv \<in> set (entries c) \<and> e_key (mv_entry mv) = k"
  using cache_invD(4) [of c k mv] by (force simp: entries_def)

lemma cmap_pos: "cache_inv c \<Longrightarrow> cmap c k = Some mv \<Longrightarrow> lru_pos mv \<in> fst ` set (lru c)"
  using cache_invD(4) [of c k mv] by force

section \<open>Specification: a list of entries, most recently used first\<close>

definition spec_lookup :: "CacheKey \<Rightarrow> CacheEntry list \<Rightarrow> CacheEntry option" where
  "spec_lookup k es = find (\<lambda>e. e_key e = k) es"

definition spec_promote :: "CacheKey \<Rightarrow> CacheEntry list \<Rightarrow> CacheEntry list" where
  "spec_promote k es = filter (\<lambda>e. e_key e = k) es @ filter (\<lambda>e. e_key e \<noteq> k) es"

definition spec_remove :: "CacheKey \<Rightarrow> CacheEntry list \<Rightarrow> CacheEntry list" where
  "spec_remove k es = filter (\<lambda>e. e_key e \<noteq> k) es"

definition total_bytes :: "CacheEntry list \<Rightarrow> nat" where
  "total_bytes es = sum_list (map (\<lambda>e. unat (e_size_bytes e)) es)"

text \<open>The longest prefix of the list that fits beside \<open>s\<close> bytes.\<close>

fun spec_fit :: "nat \<Rightarrow> CacheEntry list \<Rightarrow> CacheEntry list" where
  "spec_fit room [] = []"
| "spec_fit room (e # es) =
     (if unat (e_size_bytes e) \<le> room then e # spec_fit (room - unat (e_size_bytes e)) es else [])"

definition spec_put :: "nat \<Rightarrow> CacheEntry \<Rightarrow> CacheEntry list \<Rightarrow> CacheEntry list" where
  "spec_put mb e es =
     e # (if unat (e_size_bytes e) \<le> mb
          then spec_fit (mb - unat (e_size_bytes e)) (spec_remove (e_key e) es) else [])"

lemma lookup_spec: "cache_inv c \<Longrightarrow> spec_lookup k (entries c) = map_option mv_entry (cmap c k)"
proof (cases "cmap c k")
  case None
  assume "cache_inv c"
  then show ?thesis using None cmap_None [of c k] by (auto simp: spec_lookup_def find_None_iff)
next
  case (Some mv)
  assume inv: "cache_inv c"
  have e: "mv_entry mv \<in> set (entries c)" "e_key (mv_entry mv) = k" using cmap_Some_entry [OF inv Some] by auto
  then obtain e' where f: "find (\<lambda>e. e_key e = k) (entries c) = Some e'"
    by (cases "find (\<lambda>e. e_key e = k) (entries c)") (auto simp: find_None_iff)
  then have "e' \<in> set (entries c)" "e_key e' = k" by (auto simp: find_Some_iff)
  moreover have "inj_on e_key (set (entries c))" using cache_invD(2) [OF inv] by (simp add: distinct_map)
  ultimately have "e' = mv_entry mv" using e by (auto dest: inj_onD)
  then show ?thesis using f Some by (simp add: spec_lookup_def)
qed

section \<open>Each operation implements its specification\<close>

lemma filter_lru:
  assumes "cache_inv c" "cmap c k = Some mv"
  shows "map snd (filter (\<lambda>x. fst x = lru_pos mv) (lru c)) = filter (\<lambda>e. e_key e = k) (entries c)"
    "map snd (filter (\<lambda>x. fst x \<noteq> lru_pos mv) (lru c)) = filter (\<lambda>e. e_key e \<noteq> k) (entries c)"
proof -
  have "filter (\<lambda>x. fst x = lru_pos mv) (lru c) = filter (\<lambda>x. e_key (snd x) = k) (lru c)"
    "filter (\<lambda>x. fst x \<noteq> lru_pos mv) (lru c) = filter (\<lambda>x. e_key (snd x) \<noteq> k) (lru c)"
    using cmap_iff_lru [OF assms] by (auto intro: filter_cong)
  then show "map snd (filter (\<lambda>x. fst x = lru_pos mv) (lru c)) = filter (\<lambda>e. e_key e = k) (entries c)"
    "map snd (filter (\<lambda>x. fst x \<noteq> lru_pos mv) (lru c)) = filter (\<lambda>e. e_key e \<noteq> k) (entries c)"
    by (simp_all add: entries_def filter_map comp_def)
qed

text \<open>Reordering the list keeps the invariant.\<close>

lemma cache_inv_reorder:
  assumes "cache_inv c" "mset l = mset (lru c)"
  shows "cache_inv (c\<lparr>lru := l\<rparr>)"
proof -
  have "mset (map f l) = mset (map f (lru c))" for f :: "nat \<times> CacheEntry \<Rightarrow> 'b"
    using assms(2) by (simp add: mset_map)
  then have "distinct (map fst l) = distinct (map fst (lru c))"
    "distinct (map (e_key \<circ> snd) l) = distinct (map (e_key \<circ> snd) (lru c))"
    "sum_list (map (e_size_bytes \<circ> snd) l) = sum_list (map (e_size_bytes \<circ> snd) (lru c))"
    by (metis mset_eq_imp_distinct_iff sum_mset_sum_list)+
  then show ?thesis using assms(1) mset_eq_setD [OF assms(2)] by (simp add: cache_inv_def)
qed

lemma spec_promote_absent: "k \<notin> e_key ` set es \<Longrightarrow> spec_promote k es = es"
proof -
  assume "k \<notin> e_key ` set es"
  then have "filter (\<lambda>e. e_key e = k) es = []" "filter (\<lambda>e. e_key e \<noteq> k) es = es"
    by (induction es) auto
  then show ?thesis by (simp add: spec_promote_def)
qed

lemma get_promote_ok:
  assumes inv: "cache_inv c"
  shows "\<exists>c'. get_promote k c = Inr (spec_lookup k (entries c), c') \<and> cache_inv c'
     \<and> entries c' = spec_promote k (entries c) \<and> c' = c\<lparr>lru := lru c'\<rparr>"
proof (cases "cmap c k")
  case None
  then show ?thesis
    using inv cmap_None [OF inv, of k] by (simp add: get_promote_def lookup_spec spec_promote_absent)
next
  case (Some mv)
  let ?l = "filter (\<lambda>x. fst x = lru_pos mv) (lru c) @ filter (\<lambda>x. fst x \<noteq> lru_pos mv) (lru c)"
  have "mset ?l = mset (lru c)" by (simp flip: multiset_partition)
  then have "cache_inv (c\<lparr>lru := ?l\<rparr>)" by (rule cache_inv_reorder [OF inv])
  moreover have "map snd ?l = spec_promote k (entries c)"
    using filter_lru [OF inv Some] by (simp add: spec_promote_def)
  moreover have spec: "spec_lookup k (map snd (lru c)) = Some (mv_entry mv)"
    using lookup_spec [OF inv, of k] Some by (simp add: entries_def)
  ultimately show ?thesis
    using Some cmap_pos [OF inv Some]
    by (simp add: get_promote_def lru_splice_front_def entries_def)
qed

definition held :: "CompileCache \<Rightarrow> CacheEntry multiset" where
  "held c = mset (entries c) + mset (dropped c)"

lemma sum_filter_split:
  "sum_list (map f xs) = sum_list (map f (filter P xs)) + (sum_list (map f (filter (\<lambda>x. \<not> P x) xs)) :: 64 word)"
  by (induction xs) (auto simp: algebra_simps)

lemma filter_distinct_key: "distinct (map f xs) \<Longrightarrow> e \<in> set xs \<Longrightarrow> filter (\<lambda>x. f x = f e) xs = [e]"
proof (induction xs)
  case (Cons x xs)
  then show ?case by (cases "x = e") (auto simp: filter_empty_conv rev_image_eqI)
qed simp

lemma remove_existing_ok:
  assumes inv: "cache_inv c"
  shows "\<exists>c'. remove_existing k c = Inr c' \<and> cache_inv c' \<and> entries c' = spec_remove k (entries c)
     \<and> max_bytes c' = max_bytes c \<and> held c' = held c"
proof (cases "cmap c k")
  case None
  then have "spec_remove k (entries c) = entries c"
    using cmap_None [OF inv, of k] by (auto simp: spec_remove_def intro!: filter_True)
  then show ?thesis using None inv by (simp add: remove_existing_def)
next
  case (Some mv)
  let ?e = "mv_entry mv" and ?l = "filter (\<lambda>x. fst x \<noteq> lru_pos mv) (lru c)"
  note d = cache_invD [OF inv]
  have e: "?e \<in> set (entries c)" "e_key ?e = k" using cmap_Some_entry [OF inv Some] by auto
  have "filter (\<lambda>x. e_key x = k) (entries c) = [?e]"
    using filter_distinct_key [OF d(2) e(1)] e(2) by simp
  then have split: "mset (entries c) = add_mset ?e (mset (spec_remove k (entries c)))"
    "sum_list (map e_size_bytes (entries c)) = e_size_bytes ?e + sum_list (map e_size_bytes (spec_remove k (entries c)))"
    using multiset_partition [of "mset (entries c)" "\<lambda>x. e_key x = k"]
      sum_filter_split [of e_size_bytes "entries c" "\<lambda>x. e_key x = k"]
    by (auto simp: spec_remove_def simp flip: mset_filter)
  let ?c = "c\<lparr>current_bytes := current_bytes c - e_size_bytes ?e, lru := ?l,
      cmap := (cmap c)(k := None), dropped := ?e # dropped c\<rparr>"
  have ent: "map snd ?l = spec_remove k (entries c)" using filter_lru(2) [OF inv Some] by (simp add: spec_remove_def)
  have "cache_inv ?c"
    unfolding cache_inv_def
  proof (intro conjI allI ballI)
    show "distinct (map fst (lru ?c))" using d(1) by (simp add: distinct_map_filter)
    show "distinct (map (e_key \<circ> snd) (lru ?c))"
      using inv by (simp add: cache_inv_def distinct_map_filter)
    show "fst x < next_pos ?c" if "x \<in> set (lru ?c)" for x using that d(3) by simp
    show "cmap ?c k' = Some mv' \<longleftrightarrow> (lru_pos mv', mv_entry mv') \<in> set (lru ?c) \<and> e_key (mv_entry mv') = k'" for k' mv'
      using d(4) cmap_iff_lru [OF inv Some, of "(lru_pos mv', mv_entry mv')"] by auto
    show "current_bytes ?c = sum_list (map (e_size_bytes \<circ> snd) (lru ?c))"
      using d(5) split(2) ent by (simp flip: map_map)
  qed
  moreover have "entries ?c = spec_remove k (entries c)" using ent by (simp add: entries_def)
  moreover from this have "held ?c = held c" using split(1) by (simp add: held_def)
  ultimately show ?thesis
    using Some cmap_pos [OF inv Some] by (simp add: remove_existing_def lru_erase_def)
qed

lemma evict_ok:
  assumes inv: "cache_inv c" and ne: "lru c \<noteq> []"
  shows "cache_inv (evict_lru_locked c)" "entries (evict_lru_locked c) = butlast (entries c)"
    "max_bytes (evict_lru_locked c) = max_bytes c" "held (evict_lru_locked c) = held c"
proof -
  obtain l p e where l: "lru c = l @ [(p, e)]" using ne by (metis rev_exhaust surj_pair)
  have ev: "evict_lru_locked c = c\<lparr>current_bytes := current_bytes c - e_size_bytes e,
      cmap := (cmap c)(e_key e := None), lru := l, evictions := evictions c + 1, dropped := e # dropped c\<rparr>"
    by (simp add: evict_lru_locked_def l)
  show ent: "entries (evict_lru_locked c) = butlast (entries c)" "max_bytes (evict_lru_locked c) = max_bytes c"
    "held (evict_lru_locked c) = held c"
    by (simp_all add: ev entries_def l butlast_append held_def)
  note d = cache_invD [OF inv]
  have notin: "p \<notin> fst ` set l" "e_key e \<notin> (e_key \<circ> snd) ` set l"
    using inv l by (auto simp: cache_inv_def)
  have "cmap (evict_lru_locked c) k = Some mv \<longleftrightarrow> (lru_pos mv, mv_entry mv) \<in> set l \<and> e_key (mv_entry mv) = k" for k mv
    using d(4) [of k mv] notin l by (force simp: ev)
  then show "cache_inv (evict_lru_locked c)"
    using inv l by (simp add: cache_inv_def ev)
qed

lemma spec_fit_all: "total_bytes es \<le> room \<Longrightarrow> spec_fit room es = es"
  by (induction room es rule: spec_fit.induct) (auto simp: total_bytes_def)

lemma spec_fit_butlast: "es \<noteq> [] \<Longrightarrow> room < total_bytes es \<Longrightarrow> spec_fit room (butlast es) = spec_fit room es"
proof (induction room es rule: spec_fit.induct)
  case (2 room e es)
  show ?case
  proof (cases "es = []")
    case True
    then show ?thesis using 2 by (simp add: total_bytes_def)
  next
    case False
    then show ?thesis using 2 by (auto simp: total_bytes_def)
  qed
qed simp

lemma total_butlast: "es \<noteq> [] \<Longrightarrow> total_bytes (butlast es) \<le> total_bytes es"
  by (induction es) (auto simp: total_bytes_def)

lemma unat_sum_sizes: "total_bytes es < 2 ^ 64 \<Longrightarrow> unat (sum_list (map e_size_bytes es)) = total_bytes es"
proof (induction es)
  case (Cons e es)
  then have "unat (sum_list (map e_size_bytes es)) = total_bytes es" by (simp add: total_bytes_def)
  with Cons.prems show ?case by (simp add: total_bytes_def unat_word_ariths)
qed (simp add: total_bytes_def)

text \<open>The eviction loop leaves the longest prefix of recently used entries that fits, provided
  the byte counter plus the new size does not wrap.\<close>

lemma evict_for_ok:
  assumes "cache_inv c" "total_bytes (entries c) + unat s < 2 ^ 64"
  shows "cache_inv (evict_for s c) \<and> max_bytes (evict_for s c) = max_bytes c \<and> held (evict_for s c) = held c
    \<and> entries (evict_for s c) = (if unat s \<le> unat (max_bytes c)
        then spec_fit (unat (max_bytes c) - unat s) (entries c) else [])"
  using assms
proof (induction s c rule: evict_for.induct)
  case (1 s c)
  have cur: "unat (current_bytes c) = total_bytes (entries c)"
    using cache_invD(5) [OF 1(2)] unat_sum_sizes [of "entries c"] 1(3) by simp
  have sum: "unat (current_bytes c + s) = total_bytes (entries c) + unat s"
    using 1(3) cur by (simp add: unat_word_ariths)
  have empty: "lru c = [] \<longleftrightarrow> entries c = []" by (simp add: entries_def)
  show ?case
  proof (cases "current_bytes c + s > max_bytes c \<and> lru c \<noteq> []")
    case True
    note ev = evict_ok [OF 1(2) conjunct2 [OF True]]
    have "total_bytes (butlast (entries c)) \<le> total_bytes (entries c)" using True empty total_butlast by blast
    then have IH: "cache_inv (evict_for s (evict_lru_locked c))
        \<and> max_bytes (evict_for s (evict_lru_locked c)) = max_bytes c \<and> held (evict_for s (evict_lru_locked c)) = held c
        \<and> entries (evict_for s (evict_lru_locked c)) = (if unat s \<le> unat (max_bytes c)
            then spec_fit (unat (max_bytes c) - unat s) (butlast (entries c)) else [])"
      using 1(1) [OF True] ev 1(3) by simp
    have "unat (max_bytes c) < total_bytes (entries c) + unat s" using True sum by (simp add: word_less_nat_alt)
    then have "unat s \<le> unat (max_bytes c) \<Longrightarrow>
        spec_fit (unat (max_bytes c) - unat s) (butlast (entries c)) = spec_fit (unat (max_bytes c) - unat s) (entries c)"
      using True empty by (intro spec_fit_butlast) auto
    then show ?thesis using IH True by (simp add: evict_for.simps [of s c])
  next
    case False
    then have "evict_for s c = c" by (auto simp: evict_for.simps [of s c])
    moreover have "entries c = (if unat s \<le> unat (max_bytes c)
        then spec_fit (unat (max_bytes c) - unat s) (entries c) else [])"
    proof (cases "lru c = []")
      case True
      then show ?thesis by (simp add: entries_def)
    next
      case ne: False
      then have "total_bytes (entries c) + unat s \<le> unat (max_bytes c)"
        using False sum by (simp add: word_less_nat_alt)
      then show ?thesis by (simp add: spec_fit_all)
    qed
    ultimately show ?thesis using 1(2) by simp
  qed
qed

lemma push_ok:
  assumes inv: "cache_inv c" and new: "e_key e \<notin> e_key ` set (entries c)"
  shows "cache_inv (push_entry e c)" "entries (push_entry e c) = e # entries c"
    "held (push_entry e c) = add_mset e (held c)" "max_bytes (push_entry e c) = max_bytes c"
proof -
  note d = cache_invD [OF inv]
  have pos: "next_pos c \<notin> fst ` set (lru c)" using d(3) by force
  have key: "e_key e \<notin> (e_key \<circ> snd) ` set (lru c)" using new by (auto simp: entries_def)
  have "cmap (push_entry e c) k = Some mv \<longleftrightarrow>
      (lru_pos mv, mv_entry mv) \<in> set (lru (push_entry e c)) \<and> e_key (mv_entry mv) = k" for k mv
    using d(4) [of k mv] key by (cases mv) (force simp: push_entry_def)
  moreover have "\<forall>x \<in> set (lru (push_entry e c)). fst x < next_pos (push_entry e c)"
    using d(3) by (force simp: push_entry_def)
  ultimately show "cache_inv (push_entry e c)"
    using inv pos key by (simp add: cache_inv_def push_entry_def add.commute)
  show "entries (push_entry e c) = e # entries c" "held (push_entry e c) = add_mset e (held c)"
    "max_bytes (push_entry e c) = max_bytes c"
    by (simp_all add: push_entry_def entries_def held_def)
qed

lemma spec_fit_prefix: "set (spec_fit room es) \<subseteq> set es"
  by (induction room es rule: spec_fit.induct) auto

lemma spec_fit_total: "total_bytes (spec_fit room es) \<le> room"
  by (induction room es rule: spec_fit.induct) (auto simp: total_bytes_def)

lemma spec_remove_total: "total_bytes (spec_remove k es) \<le> total_bytes es"
  by (induction es) (auto simp: total_bytes_def spec_remove_def)

lemma spec_put_bounded: "total_bytes (spec_put mb e es) \<le> mb \<or> spec_put mb e es = [e]"
proof (cases "unat (e_size_bytes e) \<le> mb")
  case True
  then show ?thesis
    using spec_fit_total [of "mb - unat (e_size_bytes e)" "spec_remove (e_key e) es"]
    by (auto simp: spec_put_def total_bytes_def)
qed (simp add: spec_put_def)

lemma cache_put_ok:
  assumes inv: "cache_inv c" and cap: "total_bytes (entries c) + unat (e_size_bytes e) < 2 ^ 64"
  shows "\<exists>c'. cache_put now (Some e) c = Inr (Some (e\<lparr>inserted_at := now\<rparr>), c') \<and> cache_inv c'
    \<and> entries c' = spec_put (unat (max_bytes c)) (e\<lparr>inserted_at := now\<rparr>) (entries c)
    \<and> max_bytes c' = max_bytes c \<and> held c' = add_mset (e\<lparr>inserted_at := now\<rparr>) (held c)"
proof -
  let ?e = "e\<lparr>inserted_at := now\<rparr>"
  obtain c1 where c1: "remove_existing (e_key e) c = Inr c1" "cache_inv c1"
    "entries c1 = spec_remove (e_key e) (entries c)" "max_bytes c1 = max_bytes c" "held c1 = held c"
    using remove_existing_ok [OF inv] by blast
  let ?c2 = "evict_for (e_size_bytes e) c1"
  have "total_bytes (entries c1) + unat (e_size_bytes e) < 2 ^ 64"
    using cap spec_remove_total [of "e_key e" "entries c"] c1(3) by simp
  from evict_for_ok [OF c1(2) this]
  have c2: "cache_inv ?c2" "max_bytes ?c2 = max_bytes c" "held ?c2 = held c"
    "entries ?c2 = (if unat (e_size_bytes e) \<le> unat (max_bytes c)
      then spec_fit (unat (max_bytes c) - unat (e_size_bytes e)) (spec_remove (e_key e) (entries c)) else [])"
    using c1 by simp_all
  have "set (entries ?c2) \<subseteq> set (spec_remove (e_key e) (entries c))"
    using spec_fit_prefix by (fastforce simp: c2(4))
  then have "e_key ?e \<notin> e_key ` set (entries ?c2)" by (auto simp: spec_remove_def)
  from push_ok [OF c2(1) this] show ?thesis
    using c1(1) c2 by (simp add: cache_put_def Let_def spec_put_def)
qed

lemma flush_ok:
  "cache_inv (cache_flush c)" "entries (cache_flush c) = []" "max_bytes (cache_flush c) = max_bytes c"
  "held (cache_flush c) = held c"
  by (simp_all add: cache_flush_def cache_inv_def entries_def held_def)

section \<open>Any interleaving of critical sections\<close>

text \<open>The critical sections other threads may run in any order; \<open>get\<close> contributes a \<open>Find\<close> and,
  on a hit, a later \<open>Promote\<close>.\<close>

datatype cache_section =
    Find CacheKey
  | Promote CacheKey
  | Put nat "CacheEntry option"
  | Flush
  | Disable_disk

fun run_section :: "cache_section \<Rightarrow> CompileCache \<Rightarrow> CompileCache res" where
  "run_section (Find k) c = Inr (snd (get_find k c))"
| "run_section (Promote k) c = bind_res (get_promote k c) (\<lambda>(_, c'). Inr c')"
| "run_section (Put now e) c = bind_res (cache_put now e c) (\<lambda>(_, c'). Inr c')"
| "run_section Flush c = Inr (cache_flush c)"
| "run_section Disable_disk c = Inr (disable_disk_cache c)"

fun run_sections :: "cache_section list \<Rightarrow> CompileCache \<Rightarrow> CompileCache res" where
  "run_sections [] c = Inr c"
| "run_sections (s # ss) c = bind_res (run_section s c) (run_sections ss)"

fun spec_section :: "nat \<Rightarrow> cache_section \<Rightarrow> CacheEntry list \<Rightarrow> CacheEntry list" where
  "spec_section mb (Promote k) es = spec_promote k es"
| "spec_section mb (Put now (Some e)) es = spec_put mb (e\<lparr>inserted_at := now\<rparr>) es"
| "spec_section mb Flush es = []"
| "spec_section mb _ es = es"

fun put_entries :: "cache_section list \<Rightarrow> CacheEntry list" where
  "put_entries [] = []"
| "put_entries (Put now (Some e) # ss) = e\<lparr>inserted_at := now\<rparr> # put_entries ss"
| "put_entries (_ # ss) = put_entries ss"

text \<open>Sizes that cannot make the byte counter wrap: an entry and the limit are below \<open>2 ^ 63\<close>.\<close>

fun section_fits :: "cache_section \<Rightarrow> bool" where
  "section_fits (Put now (Some e)) \<longleftrightarrow> e_size_bytes e < 2 ^ 63"
| "section_fits _ \<longleftrightarrow> True"

definition bounded :: "CompileCache \<Rightarrow> bool" where
  "bounded c \<longleftrightarrow> (\<forall>e \<in> set (entries c). e_size_bytes e < 2 ^ 63) \<and> max_bytes c < 2 ^ 63
     \<and> (total_bytes (entries c) \<le> unat (max_bytes c) \<or> length (entries c) = 1)"

lemma bounded_total: "bounded c \<Longrightarrow> total_bytes (entries c) < 2 ^ 63"
  unfolding bounded_def by (auto simp: length_Suc_conv total_bytes_def word_less_nat_alt)

lemma spec_promote_mset [simp]: "mset (spec_promote k es) = mset es"
  by (simp add: spec_promote_def flip: multiset_partition)

lemma spec_promote_total [simp]: "total_bytes (spec_promote k es) = total_bytes es" "set (spec_promote k es) = set es"
  "length (spec_promote k es) = length es"
  using spec_promote_mset [of k es]
  by (metis mset_map sum_mset_sum_list total_bytes_def, metis mset_eq_setD, metis mset_eq_length)

lemma find_unchanged:
  "entries (snd (get_find k c)) = entries c" "cache_inv (snd (get_find k c)) = cache_inv c"
  "max_bytes (snd (get_find k c)) = max_bytes c" "held (snd (get_find k c)) = held c"
  by (auto simp: get_find_def entries_def cache_inv_def held_def split: option.splits)

lemma section_ok:
  assumes "cache_inv c" "bounded c" "section_fits s"
  shows "\<exists>c'. run_section s c = Inr c' \<and> cache_inv c' \<and> bounded c' \<and> max_bytes c' = max_bytes c
    \<and> entries c' = spec_section (unat (max_bytes c)) s (entries c)
    \<and> held c' = mset (put_entries [s]) + held c"
proof (cases s)
  case (Find k)
  then show ?thesis using assms by (simp add: find_unchanged bounded_def)
next
  case (Promote k)
  obtain c' where "get_promote k c = Inr (spec_lookup k (entries c), c')" "cache_inv c'"
    "entries c' = spec_promote k (entries c)" "c' = c\<lparr>lru := lru c'\<rparr>"
    using get_promote_ok [OF assms(1)] by blast
  moreover from this(4) have "max_bytes c' = max_bytes c" "dropped c' = dropped c"
    by (metis CompileCache.select_convs(1) CompileCache.surjective CompileCache.update_convs(3))
       (metis CompileCache.select_convs(10) CompileCache.surjective CompileCache.update_convs(3) calculation(4))
  ultimately show ?thesis
    using Promote assms(2) by (simp add: bounded_def held_def)
next
  case (Put now e)
  show ?thesis
  proof (cases e)
    case None
    then show ?thesis using Put assms by (simp add: cache_put_def)
  next
    case (Some e')
    have "total_bytes (entries c) + unat (e_size_bytes e') < 2 ^ 64"
      using bounded_total [OF assms(2)] assms(3) Put Some by (simp add: word_less_nat_alt)
    from cache_put_ok [OF assms(1) this, of now] obtain c' where c':
      "cache_put now (Some e') c = Inr (Some (e'\<lparr>inserted_at := now\<rparr>), c')" "cache_inv c'"
      "entries c' = spec_put (unat (max_bytes c)) (e'\<lparr>inserted_at := now\<rparr>) (entries c)"
      "max_bytes c' = max_bytes c" "held c' = add_mset (e'\<lparr>inserted_at := now\<rparr>) (held c)" by blast
    have "set (entries c') \<subseteq> insert (e'\<lparr>inserted_at := now\<rparr>) (set (entries c))"
      using spec_fit_prefix by (fastforce simp: c'(3) spec_put_def spec_remove_def)
    then have "bounded c'"
      using spec_put_bounded [of "unat (max_bytes c)" "e'\<lparr>inserted_at := now\<rparr>" "entries c"] assms(2,3) Put Some c'(3,4)
      by (auto simp: bounded_def)
    then show ?thesis using c' Put Some by simp
  qed
next
  case Flush
  then show ?thesis using assms flush_ok by (simp add: bounded_def total_bytes_def)
next
  case Disable_disk
  then show ?thesis
    using assms by (simp add: disable_disk_cache_def bounded_def cache_inv_def entries_def held_def)
qed

lemma sections_ok:
  assumes "cache_inv c" "bounded c" "list_all section_fits ss"
  shows "\<exists>c'. run_sections ss c = Inr c' \<and> cache_inv c' \<and> bounded c' \<and> max_bytes c' = max_bytes c
    \<and> entries c' = fold (spec_section (unat (max_bytes c))) ss (entries c)
    \<and> held c' = mset (put_entries ss) + held c"
  using assms
proof (induction ss arbitrary: c)
  case (Cons s ss)
  then obtain c1 where c1: "run_section s c = Inr c1" "cache_inv c1" "bounded c1" "max_bytes c1 = max_bytes c"
    "entries c1 = spec_section (unat (max_bytes c)) s (entries c)" "held c1 = mset (put_entries [s]) + held c"
    using section_ok [of c s] by auto
  moreover have "put_entries (s # ss) = put_entries [s] @ put_entries ss"
    by (cases s; cases "case s of Put _ e \<Rightarrow> e | _ \<Rightarrow> None") auto
  ultimately show ?case using Cons.IH [OF c1(2,3)] Cons.prems(3) by (auto simp: ac_simps)
qed simp

lemma mk_cache_ok: "cache_inv (mk_cache mb)" "entries (mk_cache mb) = []" "max_bytes (mk_cache mb) = mb"
  "held (mk_cache mb) = {#}"
  by (simp_all add: mk_cache_def cache_inv_def entries_def held_def)

lemma mk_cache_bounded: "mb < 2 ^ 63 \<Longrightarrow> bounded (mk_cache mb)"
  by (simp add: bounded_def mk_cache_ok total_bytes_def)

text \<open>
  C9. Whatever order the threads' critical sections run in, including another thread's \<open>put\<close> or
  \<open>flush\<close> between the two halves of a \<open>get\<close>, the cache never touches an invalid list iterator
  and its contents, most recently used first, are those of the sequential specification: a
  promotion moves the entry to the front, a \<open>put\<close> replaces the entry of the same key and keeps
  the longest run of recently used entries that fits. The map and the list agree, and the byte
  counter is the sum of the sizes.
\<close>

theorem cache_refines_lru:
  assumes "mb < 2 ^ 63" "list_all section_fits ss"
  shows "\<exists>c. run_sections ss (mk_cache mb) = Inr c \<and> cache_inv c
    \<and> entries c = fold (spec_section (unat mb)) ss []"
  using sections_ok [OF mk_cache_ok(1) mk_cache_bounded [OF assms(1)] assms(2)] by (auto simp: mk_cache_ok)

definition demo_key :: "nat \<Rightarrow> CacheKey" where
  "demo_key i = \<lparr>k_op = LIBANE_OP_MATMUL,
     k_shape = \<lparr>dims0 = 1, dims1 = 64, dims2 = 1, dims3 = 16, ndim = 4\<rparr>, weight_hash = of_nat i\<rparr>"

definition demo_entry :: "nat \<Rightarrow> size_t \<Rightarrow> CacheEntry" where
  "demo_entry i s = \<lparr>e_key = demo_key i, backend_handle = i + 1, has_release_fn = True, e_size_bytes = s,
     is_ane = True, inserted_at = 0\<rparr>"

definition demo_sections :: "cache_section list" where
  "demo_sections = [Put 1 (Some (demo_entry 0 40)), Put 2 (Some (demo_entry 1 40)), Find (demo_key 0),
     Promote (demo_key 0), Find (demo_key 1), Put 3 (Some (demo_entry 2 50)), Promote (demo_key 1)]"

lemma demo_keys [simp]: "demo_key i = demo_key j \<longleftrightarrow> (of_nat i :: size_t) = of_nat j"
  by (simp add: demo_key_def)

lemma demo_spec:
  "fold (spec_section 100) demo_sections [] = [demo_entry 2 50\<lparr>inserted_at := 3\<rparr>, demo_entry 0 40\<lparr>inserted_at := 1\<rparr>]"
  by (simp add: demo_sections_def spec_put_def spec_remove_def spec_promote_def demo_entry_def)

theorem cache_refines_lru_witness:
  "\<exists>c. run_sections demo_sections (mk_cache 100) = Inr c
     \<and> entries c = [demo_entry 2 50\<lparr>inserted_at := 3\<rparr>, demo_entry 0 40\<lparr>inserted_at := 1\<rparr>]"
proof -
  have "list_all section_fits demo_sections" by (simp add: demo_sections_def demo_entry_def)
  then show ?thesis using cache_refines_lru [of 100 demo_sections] demo_spec by auto
qed

text \<open>
  C10. The size limit: after any interleaving of critical sections the entries together are
  within \<open>max_bytes\<close>, unless a single entry larger than the limit is the only one, and
  \<open>size_bytes\<close> reports their exact total.
\<close>

theorem cache_size_bounded:
  assumes "mb < 2 ^ 63" "list_all section_fits ss" "run_sections ss (mk_cache mb) = Inr c"
  shows "unat (cache_size_bytes c) = total_bytes (entries c)
    \<and> (total_bytes (entries c) \<le> unat mb \<or> (\<exists>e. entries c = [e] \<and> unat mb < unat (e_size_bytes e)))"
proof -
  have ok: "cache_inv c" "bounded c" "max_bytes c = mb"
    using sections_ok [OF mk_cache_ok(1) mk_cache_bounded [OF assms(1)] assms(2)] assms(3)
    by (auto simp: mk_cache_ok)
  have "unat (cache_size_bytes c) = total_bytes (entries c)"
    using cache_invD(5) [OF ok(1)] unat_sum_sizes [of "entries c"] bounded_total [OF ok(2)]
    by (simp add: cache_size_bytes_def)
  moreover have "total_bytes (entries c) \<le> unat mb \<or> (\<exists>e. entries c = [e] \<and> unat mb < unat (e_size_bytes e))"
  proof (cases "total_bytes (entries c) \<le> unat mb")
    case False
    then have "length (entries c) = 1" using ok(2,3) by (simp add: bounded_def)
    then show ?thesis using False by (auto simp: length_Suc_conv total_bytes_def)
  qed simp
  ultimately show ?thesis by blast
qed

theorem cache_size_bounded_witness:
  "\<exists>c. run_sections demo_sections (mk_cache 100) = Inr c \<and> total_bytes (entries c) = 90
     \<and> unat (cache_size_bytes c) = 90"
proof -
  have fits: "list_all section_fits demo_sections" by (simp add: demo_sections_def demo_entry_def)
  obtain c where c: "run_sections demo_sections (mk_cache 100) = Inr c" "cache_inv c \<and> bounded c \<and> max_bytes c = 100"
    "entries c = [demo_entry 2 50\<lparr>inserted_at := 3\<rparr>, demo_entry 0 40\<lparr>inserted_at := 1\<rparr>]"
    using sections_ok [OF mk_cache_ok(1) mk_cache_bounded [of 100] fits] demo_spec by (auto simp: mk_cache_ok)
  have "unat (cache_size_bytes c) = total_bytes (entries c)"
    using cache_size_bounded [OF _ fits c(1)] by simp
  then show ?thesis using c(1) by (auto simp: c(3) total_bytes_def demo_entry_def)
qed



section \<open>The interface the compile paths rely on\<close>

text \<open>
  What \<open>libane_compile\<close> and the matmul path need of a store of compiled programs: a hit returns
  a program stored under that key, a miss means there is none, an insertion is visible at
  once, and nothing but the inserted program is added. A store may forget, never invent.
\<close>

locale program_store =
  fixes ok :: "'s \<Rightarrow> bool"
    and fits_in :: "'e \<Rightarrow> bool"
    and look :: "'k \<Rightarrow> 's \<Rightarrow> 'e option \<times> 's"
    and add :: "'e \<Rightarrow> 's \<Rightarrow> 'e option \<times> 's"
    and key_of :: "'e \<Rightarrow> 'k"
    and prog :: "'e \<Rightarrow> 'p"
    and stored :: "'s \<Rightarrow> ('k \<times> 'p) set"
  assumes look_law: "ok s \<Longrightarrow> look k s = (r, s') \<Longrightarrow> ok s' \<and> stored s' = stored s
      \<and> (case r of Some e \<Rightarrow> (k, prog e) \<in> stored s | None \<Rightarrow> k \<notin> fst ` stored s)"
    and add_law: "ok s \<Longrightarrow> fits_in e \<Longrightarrow> add e s = (r, s') \<Longrightarrow> ok s'
      \<and> (\<exists>e'. r = Some e' \<and> prog e' = prog e) \<and> (key_of e, prog e) \<in> stored s'
      \<and> stored s' \<subseteq> insert (key_of e, prog e) {kp \<in> stored s. fst kp \<noteq> key_of e}"
begin

text \<open>Look up, and on a miss compile and insert.\<close>

definition through :: "('k \<Rightarrow> 'e) \<Rightarrow> 'k \<Rightarrow> 's \<Rightarrow> 'e option \<times> 's" where
  "through compile k s = (case look k s of (Some e, s') \<Rightarrow> (Some e, s') | (None, s') \<Rightarrow> add (compile k) s')"

definition coherent :: "('k \<Rightarrow> 'e) \<Rightarrow> 's \<Rightarrow> bool" where
  "coherent compile s \<longleftrightarrow> (\<forall>kp \<in> stored s. snd kp = prog (compile (fst kp)))"

lemma through_coherent:
  assumes "ok s" "coherent compile s" "\<And>k. key_of (compile k) = k" "\<And>k. fits_in (compile k)"
    and "through compile k s = (r, s')"
  shows "ok s' \<and> coherent compile s' \<and> (\<exists>e. r = Some e \<and> prog e = prog (compile k))"
proof -
  obtain r0 s0 where look: "look k s = (r0, s0)" by (cases "look k s")
  note l = look_law [OF assms(1) look]
  show ?thesis
  proof (cases r0)
    case (Some e)
    then have "r = Some e" "s' = s0" using assms(5) look by (simp_all add: through_def)
    have st: "(k, prog e) \<in> stored s" using l Some by simp
    have "prog e = prog (compile k)" using bspec [OF assms(2) [unfolded coherent_def] st] by simp
    moreover have "coherent compile s0" using assms(2) l by (simp add: coherent_def)
    ultimately show ?thesis using l \<open>r = Some e\<close> \<open>s' = s0\<close> by simp
  next
    case None
    then have "add (compile k) s0 = (r, s')" using assms(5) look by (simp add: through_def)
    note a = add_law [OF conjunct1 [OF l] assms(4) this]
    have "snd kp = prog (compile (fst kp))" if "kp \<in> stored s'" for kp
    proof (cases "kp = (k, prog (compile k))")
      case False
      then have "kp \<in> stored s" using that a l assms(3) by blast
      then show ?thesis using assms(2) by (simp add: coherent_def)
    qed simp
    then show ?thesis using a by (simp add: coherent_def)
  qed
qed

end

definition cache_look :: "CacheKey \<Rightarrow> CompileCache \<Rightarrow> CacheEntry option \<times> CompileCache" where
  "cache_look k c = (case cache_get k c of Inr rc \<Rightarrow> rc | Inl _ \<Rightarrow> (None, c))"

definition cache_add :: "nat \<Rightarrow> CacheEntry \<Rightarrow> CompileCache \<Rightarrow> CacheEntry option \<times> CompileCache" where
  "cache_add now e c = (case cache_put now (Some e) c of Inr rc \<Rightarrow> rc | Inl _ \<Rightarrow> (None, c))"

definition stored_handles :: "CompileCache \<Rightarrow> (CacheKey \<times> nat) set" where
  "stored_handles c = (\<lambda>e. (e_key e, backend_handle e)) ` set (entries c)"

text \<open>A \<open>get\<close> that no other section interrupts.\<close>

lemma cache_get_ok:
  assumes inv: "cache_inv c"
  shows "\<exists>c'. cache_get k c = Inr (spec_lookup k (entries c), c') \<and> cache_inv c'
    \<and> entries c' = spec_promote k (entries c) \<and> max_bytes c' = max_bytes c"
proof (cases "cmap c k")
  case None
  then have "k \<notin> e_key ` set (entries c)" using cmap_None [OF inv] by blast
  then show ?thesis
    using None inv lookup_spec [OF inv, of k]
    by (simp add: cache_get_def get_find_def spec_promote_absent entries_def cache_inv_def)
next
  case (Some mv)
  let ?c = "snd (get_find k c)"
  have inv': "cache_inv ?c" using inv by (simp add: find_unchanged)
  obtain c' where "get_promote k ?c = Inr (spec_lookup k (entries ?c), c')" "cache_inv c'"
    "entries c' = spec_promote k (entries ?c)" "c' = ?c\<lparr>lru := lru c'\<rparr>"
    using get_promote_ok [OF inv'] by blast
  moreover from this(4) have "max_bytes c' = max_bytes ?c"
    by (metis CompileCache.select_convs(1) CompileCache.surjective CompileCache.update_convs(3))
  ultimately show ?thesis
    using Some by (simp add: cache_get_def get_find_def find_unchanged entries_def)
qed

lemma spec_lookup_cases:
  "case spec_lookup k es of Some e \<Rightarrow> e \<in> set es \<and> e_key e = k | None \<Rightarrow> k \<notin> e_key ` set es"
  by (auto simp: spec_lookup_def find_None_iff find_Some_iff split: option.splits)

interpretation cc: program_store "\<lambda>c. cache_inv c \<and> bounded c" "\<lambda>e. e_size_bytes e < 2 ^ 63"
  cache_look "cache_add now" e_key backend_handle stored_handles
proof (unfold_locales, goal_cases)
  case (1 c k r c')
  then obtain c1 where c1: "cache_get k c = Inr (spec_lookup k (entries c), c1)" "cache_inv c1"
    "entries c1 = spec_promote k (entries c)" "max_bytes c1 = max_bytes c"
    using cache_get_ok [of c k] by blast
  then have "r = spec_lookup k (entries c)" "c' = c1" using 1(2) by (simp_all add: cache_look_def)
  then show ?case
    using 1(1) c1 spec_lookup_cases [of k "entries c"]
    by (auto simp: bounded_def stored_handles_def image_iff split: option.splits)
next
  case (2 c e r c')
  have "total_bytes (entries c) + unat (e_size_bytes e) < 2 ^ 64"
    using 2(1,2) bounded_total by (force simp: word_less_nat_alt)
  with 2(1) obtain c1 where c1: "cache_put now (Some e) c = Inr (Some (e\<lparr>inserted_at := now\<rparr>), c1)"
    "entries c1 = spec_put (unat (max_bytes c)) (e\<lparr>inserted_at := now\<rparr>) (entries c)"
    using cache_put_ok [of c e now] by blast
  then have r: "r = Some (e\<lparr>inserted_at := now\<rparr>)" "c' = c1" using 2(3) by (simp_all add: cache_add_def)
  have "cache_inv c1 \<and> bounded c1"
    using section_ok [of c "Put now (Some e)"] 2(1,2) c1(1) by simp
  moreover have "set (entries c1) \<subseteq> insert (e\<lparr>inserted_at := now\<rparr>) {x \<in> set (entries c). e_key x \<noteq> e_key e}"
    using spec_fit_prefix by (fastforce simp: c1(2) spec_put_def spec_remove_def)
  then have "stored_handles c1 \<subseteq> (\<lambda>x. (e_key x, backend_handle x)) `
      insert (e\<lparr>inserted_at := now\<rparr>) {x \<in> set (entries c). e_key x \<noteq> e_key e}"
    unfolding stored_handles_def by (rule image_mono)
  then have "stored_handles c1 \<subseteq> insert (e_key e, backend_handle e)
      {kp \<in> stored_handles c. fst kp \<noteq> e_key e}"
    by (auto simp: stored_handles_def)
  moreover have "(e_key e, backend_handle e) \<in> stored_handles c1"
    by (simp add: stored_handles_def c1(2) spec_put_def)
  ultimately show ?case using r by simp
qed

text \<open>
  C12. Compiling through the cache is transparent: if every program in the cache is the one the
  compiler makes for its key, then a lookup that compiles and inserts on a miss returns the
  compiler's program for the requested key, whatever has been evicted, and the cache keeps that
  property. The hypothesis that the key determines the program is the caller's obligation.
\<close>

theorem cache_transparent:
  assumes "cache_inv c" "bounded c" "\<And>k. e_key (compile k) = k" "\<And>k. e_size_bytes (compile k) < 2 ^ 63"
    and "\<forall>e \<in> set (entries c). backend_handle e = backend_handle (compile (e_key e))"
    and "cc.through now compile k c = (r, c')"
  shows "cache_inv c' \<and> bounded c' \<and> (\<exists>e. r = Some e \<and> backend_handle e = backend_handle (compile k))
    \<and> (\<forall>e \<in> set (entries c'). backend_handle e = backend_handle (compile (e_key e)))"
proof -
  have "cc.coherent compile c" using assms(5) by (auto simp: cc.coherent_def stored_handles_def)
  from cc.through_coherent [OF _ this assms(3,4,6)] assms(1,2)
  show ?thesis by (auto simp: cc.coherent_def stored_handles_def)
qed

theorem cache_transparent_witness:
  "\<exists>r c'. cc.through 5 (\<lambda>k. (demo_entry 7 64)\<lparr>e_key := k\<rparr>) (demo_key 0) (mk_cache 100) = (r, c')
     \<and> cache_inv c' \<and> bounded c' \<and> (\<exists>e. r = Some e \<and> backend_handle e = 8)"
proof -
  let ?compile = "\<lambda>k. (demo_entry 7 64)\<lparr>e_key := k\<rparr>"
  obtain r c' where rc: "cc.through 5 ?compile (demo_key 0) (mk_cache 100) = (r, c')"
    by (cases "cc.through 5 ?compile (demo_key 0) (mk_cache 100)")
  have "cache_inv c' \<and> bounded c' \<and> (\<exists>e. r = Some e \<and> backend_handle e = backend_handle (?compile (demo_key 0)))
    \<and> (\<forall>e \<in> set (entries c'). backend_handle e = backend_handle (?compile (e_key e)))"
    by (rule cache_transparent [OF mk_cache_ok(1) mk_cache_bounded _ _ _ rc])
       (simp_all add: mk_cache_ok demo_entry_def)
  then show ?thesis using rc by (auto simp: demo_entry_def)
qed

end
