(* ===== verification/Half.thy ===== *)
theory Half
  imports Prelude
begin

text \<open>
  Software conversion between binary16 and binary32 as src/core/mil_builder.cpp,
  src/core/buffer_manager.cpp and src/libane.cpp write it out, on bit patterns, and byte memory
  seen as an array of \<open>uint16_t\<close>. On a target with hardware binary16 the buffer copies use a cast
  instead; these are the definitions of the portable build.
\<close>

unbundle bit_operations_syntax

section \<open>Conversions\<close>

definition fp32_to_fp16 :: "u32 \<Rightarrow> 16 word" where
  "fp32_to_fp16 fb =
     (let sign = drop_bit 16 fb AND 0x8000;
          e = uint (drop_bit 23 fb AND 0xFF) - 127 + 15;
          mantissa = drop_bit 13 fb AND 0x3FF
      in if e \<le> 0 then ucast sign
         else if e \<ge> 31 then ucast (sign OR 0x7C00)
         else ucast (sign OR push_bit 10 (word_of_int e) OR mantissa))"

text \<open>The loop bodies of \<open>AneBuffer::copy_to_f32\<close> and \<open>libane_matmul_f16\<close>.\<close>

definition fp16_to_fp32 :: "16 word \<Rightarrow> u32" where
  "fp16_to_fp32 h =
     (let s = push_bit 16 (ucast h AND 0x8000);
          e = drop_bit 10 (ucast h) AND 0x1F;
          m = ucast h AND 0x3FF
      in if e = 0 then s OR push_bit 13 m
         else if e = 31 then s OR 0x7F800000 OR push_bit 13 m
         else s OR push_bit 23 (e + 112) OR push_bit 13 m)"

section \<open>Arrays of halves\<close>

fun halves :: "byte list \<Rightarrow> 16 word list" where
  "halves (a # b # bs) = of_nat (le_nat [a, b]) # halves bs"
| "halves _ = []"

definition half_bytes :: "16 word list \<Rightarrow> byte list" where
  "half_bytes hs = concat (map (\<lambda>h. le_bytes 2 (unat h)) hs)"

lemma le_bytes_numeral: "le_bytes (numeral k) n = of_nat (n mod 256) # le_bytes (pred_numeral k) (n div 256)"
  by (metis le_bytes.simps(2) numeral_eq_Suc)

lemma length_halves: "length (halves bs) = length bs div 2"
  by (induction bs rule: halves.induct) auto

lemma le_bytes_2: "le_bytes 2 n = [of_nat (n mod 256), of_nat (n div 256 mod 256)]"
  by (simp add: le_bytes_numeral)

lemma half_bytes_simps: "half_bytes [] = []" "half_bytes (h # hs) = le_bytes 2 (unat h) @ half_bytes hs"
  by (simp_all add: half_bytes_def)

lemma length_half_bytes [simp]: "length (half_bytes hs) = 2 * length hs"
  by (induction hs) (simp_all add: half_bytes_simps)

lemma halves_half_bytes: "halves (half_bytes hs) = hs"
proof (induction hs)
  case (Cons h hs)
  have "unat h < 256 ^ 2" using unsigned_less [of h, where ?'a = nat] by simp
  then have "le_nat (le_bytes 2 (unat h)) = unat h" by (rule le_nat_le_bytes)
  then show ?case using Cons by (simp add: half_bytes_simps le_bytes_2)
qed (simp add: half_bytes_simps)

lemma halves_append: "even (length xs) \<Longrightarrow> halves (xs @ ys) = halves xs @ halves ys"
  by (induction xs rule: halves.induct) auto

lemma halves_zero: "halves (replicate (2 * n) 0) = replicate n 0"
  by (induction n) auto

lemma half_bytes_halves: "even (length bs) \<Longrightarrow> half_bytes (halves bs) = bs"
proof (induction bs rule: halves.induct)
  case (1 a b bs)
  have bnd: "le_nat [a, b] < 2 ^ 16" using le_nat_bound [of "[a, b]"] by simp
  have u: "unat (of_nat k :: 16 word) = k" if "k < 2 ^ 16" for k using that by (simp add: unat_of_nat)
  have "le_bytes 2 (unat (of_nat (le_nat [a, b]) :: 16 word)) = le_bytes (length [a, b]) (le_nat [a, b])"
    by (simp only: u [OF bnd]) (simp add: numeral_2_eq_2)
  also have "\<dots> = [a, b]" by (rule le_bytes_le_nat)
  finally show ?case using 1 by (simp add: half_bytes_simps)
qed (simp_all add: half_bytes_simps)

section \<open>The round trip\<close>

lemma mask_numerals: "(0x3FF :: 'a :: len word) = mask 10" "(0xFF :: 'a word) = mask 8" "(0x1F :: 'a word) = mask 5"
  by (simp_all add: mask_eq_exp_minus_1)

lemma bit_exp_numerals: "bit (0x8000 :: int) n \<longleftrightarrow> n = 15" "bit (0x100 :: int) n \<longleftrightarrow> n = 8"
  "bit (0x40000 :: int) n \<longleftrightarrow> n = 18"
proof -
  have "(0x8000 :: int) = 2 ^ 15" "(0x100 :: int) = 2 ^ 8" "(0x40000 :: int) = 2 ^ 18" by simp_all
  then show "bit (0x8000 :: int) n \<longleftrightarrow> n = 15" "bit (0x100 :: int) n \<longleftrightarrow> n = 8" "bit (0x40000 :: int) n \<longleftrightarrow> n = 18"
    by (simp_all only: bit_exp_iff) auto
qed

lemma float_fields:
  fixes h :: "16 word"
  assumes "E < (256 :: u32)"
  defines "fb \<equiv> push_bit 16 (ucast h AND 0x8000) OR push_bit 23 E OR push_bit 13 (ucast h AND 0x3FF)"
  shows "drop_bit 16 fb AND 0x8000 = ucast h AND 0x8000" "drop_bit 23 fb AND 0xFF = E"
    "drop_bit 13 fb AND 0x3FF = ucast h AND 0x3FF"
proof -
  have E: "\<not> bit E n" if "8 \<le> n" for n
  proof -
    have "uint (take_bit 8 E) = uint E"
      using assms(1) by (simp add: unsigned_take_bit_eq take_bit_eq_mod word_less_def uint_mod)
    then have "take_bit 8 E = E" by (simp only: word_uint_eq_iff)
    then show ?thesis using that by (metis bit_take_bit_iff leD)
  qed
  show "drop_bit 16 fb AND 0x8000 = ucast h AND 0x8000"
    unfolding fb_def mask_numerals
    by (rule bit_word_eqI) (auto simp: bit_simps bit_exp_numerals E)
  show "drop_bit 23 fb AND 0xFF = E"
    unfolding fb_def mask_numerals
  proof (rule bit_word_eqI)
    fix n assume "n < LENGTH(32)"
    then show "bit (drop_bit 23 (push_bit 16 (ucast h AND 0x8000) OR push_bit 23 E OR push_bit 13 (ucast h AND mask 10))
        AND mask 8) n = bit E n"
      using E [of n] by (cases "n < 8") (auto simp: bit_simps bit_exp_numerals)
  qed
  show "drop_bit 13 fb AND 0x3FF = ucast h AND 0x3FF"
    unfolding fb_def mask_numerals
    by (rule bit_word_eqI) (auto simp: bit_simps bit_exp_numerals)
qed


lemma fp16_fields: "fp16_to_fp32 h =
    (let E = (if drop_bit 10 h AND 0x1F = 0 then 0 else if drop_bit 10 h AND 0x1F = 31 then 255
              else (drop_bit 10 (ucast h) AND 0x1F) + 112)
     in push_bit 16 (ucast h AND 0x8000) OR push_bit 23 E OR push_bit 13 (ucast h AND 0x3FF))"
proof -
  have u: "(drop_bit 10 (ucast h) AND 0x1F :: u32) = ucast (drop_bit 10 h AND 0x1F)"
    unfolding mask_numerals by (rule bit_word_eqI) (auto simp: bit_simps)
  have b: "take_bit 32 (uint x) = uint x" for x :: "16 word"
    using uint_lt2p [of x] by (intro take_bit_int_eq_self) auto
  have "(ucast (drop_bit 10 h AND 0x1F) :: u32) = 0 \<longleftrightarrow> drop_bit 10 h AND 0x1F = 0" 
    "(ucast (drop_bit 10 h AND 0x1F) :: u32) = 31 \<longleftrightarrow> drop_bit 10 h AND 0x1F = 31"
    by (simp_all add: unsigned_ucast_eq word_uint_eq_iff b)
  then show ?thesis
    by (auto simp: fp16_to_fp32_def Let_def u word_bw_assocs push_bit_add)
qed


end
