(* ===== verification/BufferManager.thy ===== *)
theory BufferManager
  imports Half
begin

text \<open>
  Tensor buffers and their pool (src/core/buffer_manager.hpp, buffer_manager.cpp). A buffer owns
  a block of memory, \<open>b_mem\<close> (\<open>None\<close> is the null pointer of a moved-from buffer), identified by
  \<open>b_id\<close>; its length is the size of the allocation, which for an IOSurface is padded beyond
  \<open>b_bytes\<close>. \<open>IOSurfaceCreate\<close> and \<open>posix_memalign\<close> are the operating system's: \<open>alloc_env\<close>
  gives for each requested size the block they return, or that they fail; a build without
  IOSurface is an environment where \<open>io_create\<close> always fails. A failed \<open>assert\<close> and a copy
  outside a block are undefined behaviour. The ids of buffers whose destructor has run
  are collected in \<open>freed\<close>.
\<close>

record AneBuffer =
  b_id :: nat
  b_mem :: "byte list option"
  b_bytes :: size_t
  b_owned :: bool
  b_iosurface :: bool
  b_tensor_layout :: bool
  b_tensor_channels :: int
  b_tensor_seq :: int
  b_channel_stride :: size_t

record BufferPool =
  use_iosurface :: bool
  max_idle_per_size :: nat
  idle :: "size_t \<rightharpoonup> AneBuffer list"
  next_buf :: nat
  freed :: "nat set"

record alloc_env =
  io_create :: "nat \<Rightarrow> byte list option"
  memalign64 :: "nat \<Rightarrow> byte list option"

definition kDefaultMaxIdle :: nat where
  "kDefaultMaxIdle = 4"

definition kMinIOSurface :: size_t where
  "kMinIOSurface = 49152"

definition mk_pool :: "bool \<Rightarrow> nat \<Rightarrow> BufferPool" where
  "mk_pool io m = \<lparr>use_iosurface = io, max_idle_per_size = m, idle = Map.empty, next_buf = 0, freed = {}\<rparr>"

section \<open>Buffers\<close>

text \<open>\<open>memcpy\<close> of the first \<open>n\<close> bytes.\<close>

definition memcpy_into :: "byte list \<Rightarrow> byte list \<Rightarrow> nat \<Rightarrow> byte list res" where
  "memcpy_into dst src n =
     (if n \<le> length dst \<and> n \<le> length src then Inr (take n src @ drop n dst)
      else Inl (Undefined_behaviour ''memcpy out of bounds''))"

definition tensor_bytes :: "int \<Rightarrow> int \<Rightarrow> size_t" where
  "tensor_bytes c s = of_int c * of_int s * 2"

definition move_buffer :: "AneBuffer \<Rightarrow> AneBuffer \<times> AneBuffer" where
  "move_buffer o' =
     (\<lparr>b_id = b_id o', b_mem = b_mem o', b_bytes = b_bytes o', b_owned = b_owned o',
       b_iosurface = b_iosurface o', b_tensor_layout = False, b_tensor_channels = 0,
       b_tensor_seq = 0, b_channel_stride = 0\<rparr>,
      o'\<lparr>b_mem := None, b_bytes := 0, b_iosurface := False\<rparr>)"

definition copy_from :: "byte list \<Rightarrow> size_t \<Rightarrow> AneBuffer \<Rightarrow> AneBuffer res" where
  "copy_from src nbytes b =
     (if \<not> nbytes \<le> b_bytes b then Inl (Undefined_behaviour ''assert nbytes <= bytes_'')
      else case b_mem b of
        None \<Rightarrow> Inl (Undefined_behaviour ''null buffer'')
      | Some mem \<Rightarrow>
          if b_tensor_layout b then
            let n = tensor_bytes (b_tensor_channels b) (b_tensor_seq b)
            in if nbytes \<noteq> n then Inl (Undefined_behaviour ''assert nbytes == c * s * 2'')
               else bind_res (memcpy_into mem src (unat n)) (\<lambda>m. Inr (b\<lparr>b_mem := Some m\<rparr>))
          else bind_res (memcpy_into mem src (unat nbytes)) (\<lambda>m. Inr (b\<lparr>b_mem := Some m\<rparr>)))"

text \<open>The bytes written to the destination. The size is not checked against \<open>bytes_\<close>.\<close>

definition copy_to :: "size_t \<Rightarrow> AneBuffer \<Rightarrow> byte list res" where
  "copy_to nbytes b =
     (case b_mem b of
        None \<Rightarrow> Inl (Undefined_behaviour ''null buffer'')
      | Some mem \<Rightarrow>
          if b_tensor_layout b then
            let n = tensor_bytes (b_tensor_channels b) (b_tensor_seq b)
            in if nbytes \<noteq> n then Inl (Undefined_behaviour ''assert nbytes == c * s * 2'')
               else if unat n \<le> length mem then Inr (take (unat n) mem)
               else Inl (Undefined_behaviour ''memcpy out of bounds'')
          else if unat nbytes \<le> length mem then Inr (take (unat nbytes) mem)
          else Inl (Undefined_behaviour ''memcpy out of bounds''))"

text \<open>The copies that convert: a loop that writes or reads \<open>count\<close> halves.\<close>

definition copy_from_f32 :: "u32 list \<Rightarrow> size_t \<Rightarrow> AneBuffer \<Rightarrow> AneBuffer res" where
  "copy_from_f32 src cnt b =
     (if \<not> cnt * 2 \<le> b_bytes b then Inl (Undefined_behaviour ''assert count * 2 <= bytes_'')
      else case b_mem b of
        None \<Rightarrow> Inl (Undefined_behaviour ''null buffer'')
      | Some mem \<Rightarrow>
          let n = unat cnt in
          if n \<le> length src \<and> 2 * n \<le> length mem
          then Inr (b\<lparr>b_mem := Some (half_bytes (map fp32_to_fp16 (take n src)) @ drop (2 * n) mem)\<rparr>)
          else Inl (Undefined_behaviour ''copy out of bounds''))"

definition copy_to_f32 :: "size_t \<Rightarrow> AneBuffer \<Rightarrow> u32 list res" where
  "copy_to_f32 cnt b =
     (if \<not> cnt * 2 \<le> b_bytes b then Inl (Undefined_behaviour ''assert count * 2 <= bytes_'')
      else case b_mem b of
        None \<Rightarrow> Inl (Undefined_behaviour ''null buffer'')
      | Some mem \<Rightarrow>
          if 2 * unat cnt \<le> length mem then Inr (map fp16_to_fp32 (take (unat cnt) (halves mem)))
          else Inl (Undefined_behaviour ''copy out of bounds''))"

section \<open>The pool\<close>

definition allocate :: "alloc_env \<Rightarrow> size_t \<Rightarrow> BufferPool \<Rightarrow> (AneBuffer \<times> BufferPool) res" where
  "allocate env nbytes p =
     (let buf = \<lparr>b_id = next_buf p, b_mem = None, b_bytes = nbytes, b_owned = True, b_iosurface = False,
                 b_tensor_layout = False, b_tensor_channels = 0, b_tensor_seq = 0, b_channel_stride = 0\<rparr>;
          p' = p\<lparr>next_buf := next_buf p + 1\<rparr>;
          surface = (if use_iosurface p then io_create env (unat (max nbytes kMinIOSurface)) else None)
      in case surface of
           Some mem \<Rightarrow> Inr (buf\<lparr>b_mem := Some mem, b_iosurface := True\<rparr>, p')
         | None \<Rightarrow> (case memalign64 env (unat nbytes) of
             None \<Rightarrow> Inl Bad_alloc
           | Some mem \<Rightarrow> Inr (buf\<lparr>b_mem := Some mem\<rparr>, p')))"

definition reset_tensor :: "AneBuffer \<Rightarrow> AneBuffer" where
  "reset_tensor b = b\<lparr>b_tensor_layout := False, b_tensor_channels := 0, b_tensor_seq := 0, b_channel_stride := 0\<rparr>"

definition acquire :: "alloc_env \<Rightarrow> size_t \<Rightarrow> BufferPool \<Rightarrow> (AneBuffer \<times> BufferPool) res" where
  "acquire env nbytes p =
     (case idle p nbytes of
        Some (v # vs) \<Rightarrow>
          Inr (reset_tensor (last (v # vs)), p\<lparr>idle := (idle p)(nbytes \<mapsto> butlast (v # vs))\<rparr>)
      | _ \<Rightarrow> bind_res (allocate env nbytes p) (\<lambda>(b, p'). Inr (reset_tensor b, p')))"

definition acquire_tensor_padded ::
  "alloc_env \<Rightarrow> int \<Rightarrow> int \<Rightarrow> size_t \<Rightarrow> BufferPool \<Rightarrow> (AneBuffer \<times> BufferPool) res" where
  "acquire_tensor_padded env c s min_alloc_bytes p =
     (if \<not> (c > 0 \<and> s > 0) then Inl (Undefined_behaviour ''assert channels > 0 && seq > 0'')
      else bind_res (acquire env (max (tensor_bytes c s) min_alloc_bytes) p) (\<lambda>(b, p').
        Inr (b\<lparr>b_tensor_layout := True, b_tensor_channels := c, b_tensor_seq := s,
               b_channel_stride := of_int s * 2\<rparr>, p')))"

definition acquire_tensor :: "alloc_env \<Rightarrow> int \<Rightarrow> int \<Rightarrow> BufferPool \<Rightarrow> (AneBuffer \<times> BufferPool) res" where
  "acquire_tensor env c s p = acquire_tensor_padded env c s 0 p"

definition acquire_with_data :: "alloc_env \<Rightarrow> byte list \<Rightarrow> size_t \<Rightarrow> BufferPool \<Rightarrow> (AneBuffer \<times> BufferPool) res" where
  "acquire_with_data env src nbytes p =
     bind_res (acquire env nbytes p) (\<lambda>(b, p').
       bind_res (copy_from src nbytes b) (\<lambda>b'. Inr (b', p')))"

definition acquire_tensor_with_data ::
  "alloc_env \<Rightarrow> byte list \<Rightarrow> int \<Rightarrow> int \<Rightarrow> BufferPool \<Rightarrow> (AneBuffer \<times> BufferPool) res" where
  "acquire_tensor_with_data env src c s p =
     bind_res (acquire_tensor env c s p) (\<lambda>(b, p').
       bind_res (copy_from src (tensor_bytes c s) b) (\<lambda>b'. Inr (b', p')))"

definition acquire_from_f32 :: "alloc_env \<Rightarrow> u32 list \<Rightarrow> size_t \<Rightarrow> BufferPool \<Rightarrow> (AneBuffer \<times> BufferPool) res" where
  "acquire_from_f32 env src cnt p =
     bind_res (acquire env (cnt * 2) p) (\<lambda>(b, p').
       bind_res (copy_from_f32 src cnt b) (\<lambda>b'. Inr (b', p')))"

text \<open>\<open>idle_[sz]\<close> creates an empty vector for a new size, also when the buffer is then dropped.\<close>

definition release :: "AneBuffer option \<Rightarrow> BufferPool \<Rightarrow> BufferPool" where
  "release buf p =
     (case buf of
        None \<Rightarrow> p
      | Some b \<Rightarrow>
          let sz = b_bytes b; v = (case idle p sz of None \<Rightarrow> [] | Some v \<Rightarrow> v)
          in if length v < max_idle_per_size p
             then p\<lparr>idle := (idle p)(sz \<mapsto> v @ [b])\<rparr>
             else p\<lparr>idle := (idle p)(sz \<mapsto> v), freed := insert (b_id b) (freed p)\<rparr>)"

definition idle_at :: "BufferPool \<Rightarrow> size_t \<Rightarrow> AneBuffer list" where
  "idle_at p sz = (case idle p sz of None \<Rightarrow> [] | Some v \<Rightarrow> v)"

definition pool_flush :: "BufferPool \<Rightarrow> BufferPool" where
  "pool_flush p = p\<lparr>idle := Map.empty, freed := freed p \<union> (\<Union>sz. b_id ` set (idle_at p sz))\<rparr>"

definition pool_size :: "BufferPool \<Rightarrow> nat" where
  "pool_size p = (\<Sum>sz \<in> dom (idle p). length (idle_at p sz))"

section \<open>Ownership\<close>

definition buf_ok :: "AneBuffer \<Rightarrow> bool" where
  "buf_ok b \<longleftrightarrow> (\<exists>m. b_mem b = Some m \<and> unat (b_bytes b) \<le> length m)"

text \<open>What the operating system documents: a returned block has the requested size.\<close>

definition env_ok :: "alloc_env \<Rightarrow> bool" where
  "env_ok env \<longleftrightarrow> (\<forall>n m. io_create env n = Some m \<longrightarrow> length m = n) \<and> (\<forall>n m. memalign64 env n = Some m \<longrightarrow> length m = n)"

definition idle_ids :: "BufferPool \<Rightarrow> size_t \<Rightarrow> nat set" where
  "idle_ids p sz = b_id ` set (idle_at p sz)"

text \<open>The pool beside the buffers \<open>H\<close> its clients hold: \<open>loc\<close> says where each buffer id is, so
  every buffer is in one place only; idle buffers sit under their own size, and no size has more
  idle buffers than allowed.\<close>

datatype place = Idle_under size_t | Held | Freed | Unused

definition pool_at :: "(nat \<Rightarrow> place) \<Rightarrow> BufferPool \<Rightarrow> AneBuffer list \<Rightarrow> bool" where
  "pool_at loc p H \<longleftrightarrow> finite (dom (idle p)) \<and> distinct (map b_id H)
     \<and> (\<forall>sz. distinct (map b_id (idle_at p sz)) \<and> length (idle_at p sz) \<le> max_idle_per_size p)
     \<and> (\<forall>sz i. i \<in> idle_ids p sz \<longleftrightarrow> loc i = Idle_under sz)
     \<and> (\<forall>i. i \<in> b_id ` set H \<longleftrightarrow> loc i = Held) \<and> (\<forall>i. i \<in> freed p \<longleftrightarrow> loc i = Freed)
     \<and> (\<forall>i. next_buf p \<le> i \<longleftrightarrow> loc i = Unused)
     \<and> (\<forall>sz. \<forall>b \<in> set (idle_at p sz). b_bytes b = sz \<and> buf_ok b) \<and> (\<forall>b \<in> set H. buf_ok b)"

definition pool_ok :: "BufferPool \<Rightarrow> AneBuffer list \<Rightarrow> bool" where
  "pool_ok p H \<longleftrightarrow> (\<exists>loc. pool_at loc p H)"

lemma pool_atD:
  assumes "pool_at loc p H"
  shows "finite (dom (idle p))" "distinct (map b_id H)" "\<And>sz. distinct (map b_id (idle_at p sz))"
    "\<And>sz. length (idle_at p sz) \<le> max_idle_per_size p" "\<And>sz i. i \<in> idle_ids p sz \<longleftrightarrow> loc i = Idle_under sz"
    "\<And>i. i \<in> b_id ` set H \<longleftrightarrow> loc i = Held" "\<And>i. i \<in> freed p \<longleftrightarrow> loc i = Freed"
    "\<And>i. next_buf p \<le> i \<longleftrightarrow> loc i = Unused"
    "\<And>sz b. b \<in> set (idle_at p sz) \<Longrightarrow> b_bytes b = sz \<and> buf_ok b" "\<And>b. b \<in> set H \<Longrightarrow> buf_ok b"
  using assms by (simp_all add: pool_at_def)

lemma idle_at_upd [simp]: "idle_at (p\<lparr>idle := (idle p)(k \<mapsto> v)\<rparr>) sz = (if sz = k then v else idle_at p sz)"
  "idle_at (p\<lparr>idle := (idle p)(k \<mapsto> v), freed := f\<rparr>) sz = (if sz = k then v else idle_at p sz)"
  by (simp_all add: idle_at_def)

lemma idle_at_next [simp]: "idle_at (p\<lparr>next_buf := n\<rparr>) = idle_at p"
  by (simp add: idle_at_def fun_eq_iff)

lemma reset_tensor_simps [simp]: "b_id (reset_tensor b) = b_id b" "b_bytes (reset_tensor b) = b_bytes b"
  "b_mem (reset_tensor b) = b_mem b" "b_tensor_layout (reset_tensor b) = False" "buf_ok (reset_tensor b) = buf_ok b"
  by (simp_all add: reset_tensor_def buf_ok_def)

lemma allocate_ok:
  assumes "env_ok env" "allocate env n p = Inr (b, p')"
  shows "p' = p\<lparr>next_buf := next_buf p + 1\<rparr>" "b_id b = next_buf p" "b_bytes b = n" "buf_ok b"
  using assms by (auto simp: allocate_def Let_def buf_ok_def env_ok_def max_def word_le_nat_alt split: option.splits if_splits)

lemma acquire_cases:
  assumes "acquire env n p = Inr (b, p')"
  obtains (recycle) v b0 where "idle_at p n = v @ [b0]" "b = reset_tensor b0" "p' = p\<lparr>idle := (idle p)(n \<mapsto> v)\<rparr>"
  | (fresh) b0 where "idle_at p n = []" "allocate env n p = Inr (b0, p')" "b = reset_tensor b0"
proof (cases "idle_at p n" rule: rev_cases)
  case Nil
  then have "bind_res (allocate env n p) (\<lambda>(b, p'). Inr (reset_tensor b, p')) = Inr (b, p')"
    using assms by (auto simp: acquire_def idle_at_def split: option.splits list.splits)
  then show ?thesis using fresh Nil by (auto simp: res_simps)
next
  case (snoc v b0)
  then have "idle p n = Some (v @ [b0])" by (auto simp: idle_at_def split: option.splits)
  then show ?thesis
    using assms recycle [OF snoc] by (cases v) (auto simp: acquire_def)
qed

lemma pool_at_acquire:
  assumes env: "env_ok env" and ok: "pool_at loc p H" and acq: "acquire env n p = Inr (b, p')"
  shows "pool_at (loc(b_id b := Held)) p' (b # H) \<and> b_bytes b = n \<and> buf_ok b \<and> \<not> b_tensor_layout b"
  using acq
proof (cases rule: acquire_cases)
  case (recycle v b0)
  note d = pool_atD [OF ok]
  have b0: "b_bytes b0 = n" "buf_ok b0" "b_id b = b_id b0" using d(9) [of b0 n] recycle(1,2) by simp_all
  have at: "idle_at p' sz = (if sz = n then v else idle_at p sz)" for sz using recycle(3) by simp
  have loc: "loc (b_id b) = Idle_under n" using d(5) [of "b_id b" n] b0(3) recycle(1) by (simp add: idle_ids_def)
  have nv: "b_id b \<notin> b_id ` set v" using d(3) [of n] recycle(1) b0(3) by simp
  have idv: "insert (b_id b) (b_id ` set v) = {i. loc i = Idle_under n}"
    using d(5) [of _ n] recycle(1) b0(3) by (auto simp: idle_ids_def)
  have ids: "i \<in> idle_ids p' sz \<longleftrightarrow> (loc(b_id b := Held)) i = Idle_under sz" for i sz
    using d(5) [of i sz] idv nv loc by (auto simp: idle_ids_def at)
  have new: "b_id b \<notin> b_id ` set H" using d(6) [of "b_id b"] loc by simp
  have v: "distinct (map b_id v)" "length v \<le> max_idle_per_size p" "\<forall>x \<in> set v. b_bytes x = n \<and> buf_ok x"
    using d(3) [of n] d(4) [of n] d(9) [of _ n] recycle(1) by simp_all
  show ?thesis
    using d new loc b0 recycle at ids v
    by (auto simp: pool_at_def)
next
  case (fresh b0)
  note a = allocate_ok [OF env fresh(2)] and d = pool_atD [OF ok]
  have loc: "loc (b_id b) = Unused" using d(8) [of "next_buf p"] a(2) fresh(3) by simp
  have new: "b_id b \<notin> b_id ` set H" using d(6) [of "b_id b"] loc by simp
  have nxt: "Suc (next_buf p) \<le> i \<longleftrightarrow> (loc(b_id b := Held)) i = Unused" for i
    using d(8) [of i] a(2) fresh(3) by auto
  show ?thesis
    using d new loc a fresh(3) nxt
    by (auto simp: pool_at_def idle_ids_def)
qed

lemma pool_at_release:
  assumes ok: "pool_at loc p (xs @ b # ys)"
  shows "\<exists>loc'. pool_at loc' (release (Some b) p) (xs @ ys)"
proof -
  note d = pool_atD [OF ok]
  let ?v = "idle_at p (b_bytes b)"
  have loc: "loc (b_id b) = Held" using d(6) [of "b_id b"] by simp
  have b: "buf_ok b" using d(10) by simp
  have rest: "b_id b \<notin> b_id ` set (xs @ ys)" "distinct (map b_id (xs @ ys))" using d(2) by auto
  have H: "i \<in> b_id ` set (xs @ ys) \<longleftrightarrow> loc i = Held \<and> i \<noteq> b_id b" for i
    using d(6) [of i] rest(1) by auto
  have idle: "b_id b \<notin> b_id ` set (idle_at p sz)" for sz
    using d(5) [of "b_id b" sz] loc by (simp add: idle_ids_def)
  have nxt: "\<not> next_buf p \<le> b_id b" using d(8) [of "b_id b"] loc by simp
  show ?thesis
  proof (cases "length ?v < max_idle_per_size p")
    case True
    then have r: "release (Some b) p = p\<lparr>idle := (idle p)(b_bytes b \<mapsto> ?v @ [b])\<rparr>"
      by (simp add: release_def idle_at_def Let_def)
    have "pool_at (loc(b_id b := Idle_under (b_bytes b))) (release (Some b) p) (xs @ ys)"
      unfolding pool_at_def r
      using d(1,3,4,5,7,8,9,10) True b rest(2) H idle nxt loc
      by (auto simp: idle_ids_def)
    then show ?thesis by blast
  next
    case False
    then have r: "release (Some b) p = p\<lparr>idle := (idle p)(b_bytes b \<mapsto> ?v), freed := insert (b_id b) (freed p)\<rparr>"
      by (simp add: release_def idle_at_def Let_def)
    have "pool_at (loc(b_id b := Freed)) (release (Some b) p) (xs @ ys)"
      unfolding pool_at_def r
      using d(1,3,4,5,7,8,9,10) b rest(2) H idle nxt loc
      by (auto simp: idle_ids_def)
    then show ?thesis by blast
  qed
qed

lemma pool_at_flush:
  assumes ok: "pool_at loc p H"
  shows "\<exists>loc'. pool_at loc' (pool_flush p) H"
proof -
  note d = pool_atD [OF ok]
  let ?loc = "\<lambda>i. case loc i of Idle_under _ \<Rightarrow> Freed | l \<Rightarrow> l"
  have at: "idle_at (pool_flush p) sz = []" for sz by (simp add: pool_flush_def idle_at_def)
  have fl: "freed (pool_flush p) = freed p \<union> (\<Union>sz. idle_ids p sz)" "next_buf (pool_flush p) = next_buf p"
    "dom (idle (pool_flush p)) = {}"
    by (simp_all add: pool_flush_def idle_ids_def)
  have "?loc i = Freed \<longleftrightarrow> i \<in> freed p \<union> (\<Union>sz. idle_ids p sz)" for i
    using d(5) [of i] d(7) [of i] by (auto split: place.splits)
  moreover have "?loc i = Held \<longleftrightarrow> loc i = Held" "?loc i = Unused \<longleftrightarrow> loc i = Unused" "?loc i \<noteq> Idle_under sz" for i sz
    by (auto split: place.splits)
  ultimately have "pool_at ?loc (pool_flush p) H"
    unfolding pool_at_def using d(2,6,8,10)
    by (auto simp: at idle_ids_def fl)
  then show ?thesis by blast
qed

lemma pool_at_replace:
  assumes ok: "pool_at loc p (xs @ b # ys)" and b': "b_id b' = b_id b" "buf_ok b'"
  shows "pool_at loc p (xs @ b' # ys)"
  using ok b' by (auto simp: pool_at_def)

section \<open>Clients of the pool\<close>

text \<open>Reachable states of a pool and the buffers its clients hold: any interleaving of acquires
  (plain or tensor), copies into a held buffer, releases of a held buffer, and flushes.\<close>

inductive pool_run :: "alloc_env \<Rightarrow> BufferPool \<Rightarrow> AneBuffer list \<Rightarrow> bool" for env where
  run_start: "pool_run env (mk_pool io m) []"
| run_acquire: "pool_run env p H \<Longrightarrow> acquire env n p = Inr (b, p') \<Longrightarrow> pool_run env p' (b # H)"
| run_tensor: "pool_run env p H \<Longrightarrow> acquire_tensor_padded env c s n p = Inr (b, p') \<Longrightarrow> pool_run env p' (b # H)"
| run_copy: "pool_run env p (xs @ b # ys) \<Longrightarrow> copy_from src n b = Inr b' \<Longrightarrow> pool_run env p (xs @ b' # ys)"
| run_copy_f32: "pool_run env p (xs @ b # ys) \<Longrightarrow> copy_from_f32 fs n b = Inr b' \<Longrightarrow> pool_run env p (xs @ b' # ys)"
| run_release: "pool_run env p (xs @ b # ys) \<Longrightarrow> pool_run env (release (Some b) p) (xs @ ys)"
| run_flush: "pool_run env p H \<Longrightarrow> pool_run env (pool_flush p) H"

lemma copy_from_InrD:
  assumes "copy_from src n b = Inr b'" "buf_ok b"
  shows "b_id b' = b_id b" "buf_ok b'" "b_bytes b' = b_bytes b"
  using assms by (auto simp: copy_from_def memcpy_into_def buf_ok_def Let_def res_simps split: option.splits if_splits)

lemma copy_from_f32_InrD:
  assumes "copy_from_f32 src n b = Inr b'" "buf_ok b"
  shows "b_id b' = b_id b" "buf_ok b'" "b_bytes b' = b_bytes b"
  using assms by (auto simp: copy_from_f32_def buf_ok_def Let_def split: option.splits if_splits)

lemma tensor_acquireD:
  assumes "acquire_tensor_padded env c s n p = Inr (b, p')"
  obtains b0 where "acquire env (max (tensor_bytes c s) n) p = Inr (b0, p')" "0 < c" "0 < s"
    "b = b0\<lparr>b_tensor_layout := True, b_tensor_channels := c, b_tensor_seq := s, b_channel_stride := of_int s * 2\<rparr>"
  using assms that by (auto simp: acquire_tensor_padded_def res_simps split: if_splits)

lemma pool_run_ok:
  assumes "env_ok env" "pool_run env p H"
  shows "\<exists>loc. pool_at loc p H"
  using assms(2)
proof (induction rule: pool_run.induct)
  case (run_start io m)
  have "pool_at (\<lambda>i. Unused) (mk_pool io m) []"
    by (simp add: pool_at_def mk_pool_def idle_at_def idle_ids_def)
  then show ?case by blast
next
  case (run_acquire p H n b p')
  then show ?case using pool_at_acquire [OF assms(1)] by blast
next
  case (run_tensor p H c s n b p')
  obtain b0 where b0: "acquire env (max (tensor_bytes c s) n) p = Inr (b0, p')"
    "b = b0\<lparr>b_tensor_layout := True, b_tensor_channels := c, b_tensor_seq := s, b_channel_stride := of_int s * 2\<rparr>"
    using tensor_acquireD [OF run_tensor(2)] by blast
  obtain loc where "pool_at loc p' (b0 # H)" "buf_ok b0" using run_tensor(3) pool_at_acquire [OF assms(1) _ b0(1)] by blast
  then show ?case using pool_at_replace [of loc p' "[]" b0 H b] b0(2) by (auto simp: buf_ok_def)
next
  case (run_copy p xs b ys src n b')
  then obtain loc where loc: "pool_at loc p (xs @ b # ys)" by blast
  then have "buf_ok b" using pool_atD(10) by fastforce
  from copy_from_InrD [OF run_copy(2) this] loc show ?case using pool_at_replace by blast
next
  case (run_copy_f32 p xs b ys fs n b')
  then obtain loc where loc: "pool_at loc p (xs @ b # ys)" by blast
  then have "buf_ok b" using pool_atD(10) by fastforce
  from copy_from_f32_InrD [OF run_copy_f32(2) this] loc show ?case using pool_at_replace by blast
next
  case (run_release p xs b ys)
  then show ?case using pool_at_release by blast
next
  case (run_flush p H)
  then show ?case using pool_at_flush by blast
qed

text \<open>
  C13. Buffer ownership: in every state clients of the pool can reach, no buffer is held twice,
  none that is held is also idle in the pool or already destroyed, none is idle under two sizes,
  every idle buffer sits under its own size and no size has more than the allowed number of idle
  buffers; and every held buffer's memory covers its size.
\<close>

theorem pool_ownership:
  assumes "env_ok env" "pool_run env p H"
  shows "distinct (map b_id H)
    \<and> (\<forall>sz. idle_ids p sz \<inter> (b_id ` set H \<union> freed p) = {}
         \<and> (\<forall>sz'. sz' \<noteq> sz \<longrightarrow> idle_ids p sz \<inter> idle_ids p sz' = {})
         \<and> length (idle_at p sz) \<le> max_idle_per_size p \<and> (\<forall>b \<in> set (idle_at p sz). b_bytes b = sz))
    \<and> b_id ` set H \<inter> freed p = {} \<and> (\<forall>b \<in> set H. buf_ok b)"
proof -
  obtain loc where loc: "pool_at loc p H" using pool_run_ok [OF assms] by blast
  note d = pool_atD [OF loc]
  have sets: "\<And>sz. idle_ids p sz = {i. loc i = Idle_under sz}" "b_id ` set H = {i. loc i = Held}"
    "freed p = {i. loc i = Freed}"
    using d(5-7) by blast+
  show ?thesis unfolding sets using d(2,4,9,10) by auto
qed

definition demo_env :: alloc_env where
  "demo_env = \<lparr>io_create = (\<lambda>n. Some (replicate n 0)), memalign64 = (\<lambda>n. Some (replicate n 0))\<rparr>"

lemma demo_env_ok: "env_ok demo_env"
  by (auto simp: env_ok_def demo_env_def)

lemma demo_acquire:
  "\<exists>b p'. acquire demo_env n (mk_pool io m) = Inr (b, p') \<and> pool_run demo_env p' [b]"
proof -
  have "is_ok (acquire demo_env n (mk_pool io m))"
    by (cases io) (simp_all add: acquire_def mk_pool_def allocate_def demo_env_def Let_def)
  then obtain b p' where "acquire demo_env n (mk_pool io m) = Inr (b, p')" by (auto simp: is_ok_iff)
  then show ?thesis using pool_run.run_acquire [OF pool_run.run_start] by blast
qed

theorem pool_ownership_witness:
  "\<exists>b p'. acquire demo_env 64 (mk_pool True 4) = Inr (b, p')
     \<and> idle_ids (release (Some b) p') 64 \<inter> freed (release (Some b) p') = {}"
proof -
  obtain b p' where b: "acquire demo_env 64 (mk_pool True 4) = Inr (b, p')" "pool_run demo_env p' [b]"
    using demo_acquire by blast
  have "pool_run demo_env (release (Some b) p') []"
    using pool_run.run_release [of demo_env p' "[]" b "[]"] b(2) by simp
  from pool_ownership [OF demo_env_ok this] b(1) show ?thesis by auto
qed

lemma acquire_fails: "acquire env n p = Inl e \<Longrightarrow> e = Bad_alloc"
  by (auto simp: acquire_def allocate_def Let_def split: option.splits list.splits if_splits)

text \<open>
  C14. Filling a tensor buffer and reading it back: from any reachable pool, acquiring a
  \<open>[1,C,1,S]\<close> tensor buffer with data either fails with \<open>std::bad_alloc\<close> or returns a buffer
  from which \<open>copy_to\<close> yields exactly those \<open>2 * C * S\<close> bytes, recycled or not, IOSurface or
  not.
\<close>

theorem tensor_data_round_trip:
  assumes "env_ok env" "pool_run env p H" "0 < c" "0 < s" "2 * c * s < 2 ^ 64" "int (length src) = 2 * c * s"
  shows "case acquire_tensor_with_data env src c s p of
      Inl e \<Rightarrow> e = Bad_alloc
    | Inr (b, p') \<Rightarrow> copy_to (tensor_bytes c s) b = Inr src \<and> pool_run env p' (b # H)"
proof -
  obtain loc where loc: "pool_at loc p H" using pool_run_ok [OF assms(1,2)] by blast
  have n: "unat (tensor_bytes c s) = length src"
  proof -
    have "tensor_bytes c s = of_int (2 * c * s)" by (simp add: tensor_bytes_def)
    then have "uint (tensor_bytes c s) = 2 * c * s"
      using assms(3-5) uint_of_int_size [of "2 * c * s"] by (simp only:) simp
    then show ?thesis using assms(6) by (simp add: unat_eq_nat_uint)
  qed
  have at: "acquire_tensor env c s p = bind_res (acquire env (tensor_bytes c s) p) (\<lambda>(b, p').
        Inr (b\<lparr>b_tensor_layout := True, b_tensor_channels := c, b_tensor_seq := s, b_channel_stride := of_int s * 2\<rparr>, p'))"
    using assms(3,4) by (simp add: acquire_tensor_def acquire_tensor_padded_def)
  show ?thesis
  proof (cases "acquire env (tensor_bytes c s) p")
    case (Inl e)
    then show ?thesis using acquire_fails [OF Inl] by (simp add: acquire_tensor_with_data_def at)
  next
    case (Inr bp)
    obtain b p' where bp: "bp = (b, p')" by (cases bp)
    let ?b = "b\<lparr>b_tensor_layout := True, b_tensor_channels := c, b_tensor_seq := s, b_channel_stride := of_int s * 2\<rparr>"
    have ok: "b_bytes b = tensor_bytes c s" "buf_ok b"
      using pool_at_acquire [OF assms(1) loc] Inr bp by blast+
    then obtain m where m: "b_mem b = Some m" "length src \<le> length m" using n by (auto simp: buf_ok_def)
    have cp: "copy_from src (tensor_bytes c s) ?b = Inr (?b\<lparr>b_mem := Some (src @ drop (length src) m)\<rparr>)"
      using ok(1) m by (simp add: copy_from_def n memcpy_into_def)
    have "pool_run env p' (?b # H)"
      using pool_run.run_tensor [OF assms(2), of c s 0 ?b p'] at Inr bp by (simp add: acquire_tensor_def)
    from pool_run.run_copy [of env p' "[]" ?b H, OF _ cp] this
    have "pool_run env p' (?b\<lparr>b_mem := Some (src @ drop (length src) m)\<rparr> # H)" by simp
    then show ?thesis
      using Inr bp cp by (simp add: acquire_tensor_with_data_def at copy_to_def n)
  qed
qed

theorem tensor_data_round_trip_witness:
  "case acquire_tensor_with_data demo_env (map of_nat [0..<64]) 2 16 (mk_pool True 4) of
      Inl e \<Rightarrow> e = Bad_alloc
    | Inr (b, p') \<Rightarrow> copy_to (tensor_bytes 2 16) b = Inr (map of_nat [0..<64]) \<and> pool_run demo_env p' [b]"
  by (rule tensor_data_round_trip [OF demo_env_ok pool_run.run_start]) simp_all

text \<open>
  Recycling: releasing a held buffer into a pool with room for its size and acquiring that
  size again returns the same memory without an allocation, with the tensor layout cleared.
\<close>

theorem release_then_acquire:
  assumes "length (idle_at p (b_bytes b)) < max_idle_per_size p"
  shows "\<exists>p'. acquire env (b_bytes b) (release (Some b) p) = Inr (reset_tensor b, p')
    \<and> (\<forall>sz. idle_at p' sz = idle_at p sz) \<and> next_buf p' = next_buf p"
proof -
  let ?v = "idle_at p (b_bytes b)"
  have r: "release (Some b) p = p\<lparr>idle := (idle p)(b_bytes b \<mapsto> ?v @ [b])\<rparr>"
    using assms by (simp add: release_def idle_at_def Let_def)
  show ?thesis by (cases ?v) (auto simp: r acquire_def idle_at_def)
qed

theorem release_then_acquire_witness:
  "\<exists>b p. acquire demo_env 64 (mk_pool True 4) = Inr (b, p)
     \<and> (\<exists>p'. acquire demo_env 64 (release (Some b) p) = Inr (reset_tensor b, p'))"
proof -
  obtain b p where b: "acquire demo_env 64 (mk_pool True 4) = Inr (b, p)" "b_bytes b = 64" "idle p = Map.empty"
      "max_idle_per_size p = 4"
    by (auto simp: acquire_def mk_pool_def allocate_def demo_env_def Let_def reset_tensor_def)
  from release_then_acquire [of p b demo_env] b show ?thesis by (auto simp: idle_at_def)
qed

text \<open>
  C20. Filling a buffer from \<open>float\<close> data: from any reachable pool \<open>acquire_from_f32\<close> either fails
  with \<open>std::bad_alloc\<close> or returns a buffer from which \<open>copy_to_f32\<close> yields every element
  rounded to half precision by the software conversion.
\<close>

theorem f32_data_round_trip:
  assumes "env_ok env" "pool_run env p H" "2 * length src < 2 ^ 64"
  shows "case acquire_from_f32 env src (of_nat (length src)) p of
      Inl e \<Rightarrow> e = Bad_alloc
    | Inr (b, p') \<Rightarrow> copy_to_f32 (of_nat (length src)) b = Inr (map (fp16_to_fp32 \<circ> fp32_to_fp16) src)
        \<and> pool_run env p' (b # H)"
proof -
  obtain loc where loc: "pool_at loc p H" using pool_run_ok [OF assms(1,2)] by blast
  let ?n = "of_nat (length src) :: size_t"
  have n: "unat ?n = length src" using assms(3) by (simp add: unat_of_nat)
  have n2: "unat (?n * 2) = 2 * length src" using assms(3) n by (simp add: unat_word_ariths)
  show ?thesis
  proof (cases "acquire env (?n * 2) p")
    case (Inl e)
    then show ?thesis using acquire_fails [OF Inl] by (simp add: acquire_from_f32_def)
  next
    case (Inr bp)
    obtain b p' where bp: "bp = (b, p')" by (cases bp)
    have ok: "b_bytes b = ?n * 2" "buf_ok b" using pool_at_acquire [OF assms(1) loc] Inr bp by blast+
    then obtain m where m: "b_mem b = Some m" "2 * length src \<le> length m"
      using n2 by (auto simp: buf_ok_def)
    let ?m = "half_bytes (map fp32_to_fp16 src) @ drop (2 * length src) m"
    have cp: "copy_from_f32 src ?n b = Inr (b\<lparr>b_mem := Some ?m\<rparr>)"
      using ok(1) m n by (simp add: copy_from_f32_def Let_def)
    have "pool_run env p' (b # H)" using pool_run.run_acquire [OF assms(2)] Inr bp by blast
    from pool_run.run_copy_f32 [of env p' "[]" b H, OF _ cp] this
    have "pool_run env p' (b\<lparr>b_mem := Some ?m\<rparr> # H)" by simp
    moreover have "copy_to_f32 ?n (b\<lparr>b_mem := Some ?m\<rparr>) = Inr (map (fp16_to_fp32 \<circ> fp32_to_fp16) src)"
      using ok(1) m n by (simp add: copy_to_f32_def halves_append halves_half_bytes)
    ultimately show ?thesis using Inr bp cp by (simp add: acquire_from_f32_def)
  qed
qed

theorem f32_data_round_trip_witness:
  "case acquire_from_f32 demo_env [0x3F800000, 0xC0000000] 2 (mk_pool False 4) of
      Inl e \<Rightarrow> e = Bad_alloc
    | Inr (b, p') \<Rightarrow> copy_to_f32 2 b = Inr (map (fp16_to_fp32 \<circ> fp32_to_fp16) [0x3F800000, 0xC0000000])
        \<and> pool_run demo_env p' [b]"
proof -
  have "2 = (of_nat (length [0x3F800000, 0xC0000000 :: u32]) :: size_t)" by simp
  then show ?thesis
    by (simp only:) (rule f32_data_round_trip [OF demo_env_ok pool_run.run_start], simp)
qed

section \<open>Ownership of tensor buffers\<close>

lemma pool_ok_tensor:
  assumes "env_ok env" "pool_ok p H" "acquire_tensor_padded env c s n p = Inr (b, p')"
  shows "pool_ok p' (b # H)" "b_tensor_layout b" "b_tensor_channels b = c" "b_tensor_seq b = s" "b_bytes b = max (tensor_bytes c s) n"
proof -
  obtain b0 where b0: "acquire env (max (tensor_bytes c s) n) p = Inr (b0, p')"
    "b = b0\<lparr>b_tensor_layout := True, b_tensor_channels := c, b_tensor_seq := s, b_channel_stride := of_int s * 2\<rparr>"
    using tensor_acquireD [OF assms(3)] by blast
  obtain loc where l: "pool_at loc p H" using assms(2) by (auto simp: pool_ok_def)
  note a = pool_at_acquire [OF assms(1) l b0(1)]
  have "pool_at (loc(b_id b0 := Held)) p' ([] @ b0 # H)" "b_id b = b_id b0" "buf_ok b"
    using conjunct1 [OF a] conjunct2 [OF a] b0(2) by (auto simp: buf_ok_def)
  then have "pool_at (loc(b_id b0 := Held)) p' ([] @ b # H)" by (rule pool_at_replace)
  then show "pool_ok p' (b # H)" by (auto simp: pool_ok_def)
  show "b_tensor_layout b" "b_tensor_channels b = c" "b_tensor_seq b = s" "b_bytes b = max (tensor_bytes c s) n"
    using conjunct2 [OF a] b0(2) by simp_all
qed

lemma pool_ok_free1: "pool_ok p (b # H) \<Longrightarrow> pool_ok (p\<lparr>freed := insert (b_id b) (freed p)\<rparr>) H"
proof -
  assume "pool_ok p (b # H)"
  then obtain loc where l: "pool_at loc p (b # H)" by (auto simp: pool_ok_def)
  note d = pool_atD [OF l]
  have "loc (b_id b) = Held" using d(6) [of "b_id b"] by simp
  moreover have "i \<in> b_id ` set H \<longleftrightarrow> loc i = Held \<and> i \<noteq> b_id b" for i using d(6) [of i] d(2) by auto
  ultimately have "pool_at (loc(b_id b := Freed)) (p\<lparr>freed := insert (b_id b) (freed p)\<rparr>) H"
    unfolding pool_at_def using d by (auto simp: idle_at_def idle_ids_def)
  then show ?thesis by (auto simp: pool_ok_def)
qed

lemma pool_ok_free: "pool_ok p (F @ H) \<Longrightarrow> pool_ok (p\<lparr>freed := freed p \<union> b_id ` set F\<rparr>) H"
proof (induction F arbitrary: p)
  case (Cons b F)
  from Cons.IH [OF pool_ok_free1 [of p b "F @ H"]] Cons.prems show ?case by simp
qed simp

lemma acquire_tensor_fails: "0 < c \<Longrightarrow> 0 < s \<Longrightarrow> acquire_tensor_padded env c s n p = Inl e \<Longrightarrow> e = Bad_alloc"
  using acquire_fails by (auto simp: acquire_tensor_padded_def res_simps)

lemma demo_pool: "pool_ok (mk_pool io m) []"
  using pool_run_ok [OF demo_env_ok pool_run.run_start] by (simp add: pool_ok_def)

end
