(* ===== verification/MilText.thy ===== *)
theory MilText
  imports MilShape
begin

text \<open>
  The MIL text that src/core/mil_builder.cpp emits. A statement is a datatype whose \<open>render\<close> is
  the emitted line, character for character (the extra blanks some emitters align with are
  arguments); a program is its parameter list, its statements and its result variable. On this
  structure \<open>scoped\<close> says that every variable is defined once and before it is used.
  \<open>header\<close>, \<open>tensor_type\<close> and \<open>file_ref\<close> are the private helpers of \<open>MilBuilder\<close>.
\<close>

definition dq :: string where
  "dq = [CHR 0x22]"

definition nl :: string where
  "nl = [CHR 0x0A]"

text \<open>The value of a constant: literal text, or a reference into a weight file.\<close>

datatype mil_val = Lit string | Blob string string int

text \<open>An argument: a variable, literal text, or a tuple of variables.\<close>

datatype mil_arg = Ref string | Text string | Refs "string list"

text \<open>\<open>Const type name pad value pad2\<close> and \<open>Oper type name pad op arguments label\<close>; an argument is
  its keyword with the equals sign and its value.\<close>

datatype mil_stmt =
    Const string string string mil_val string
  | Oper string string string string "(string \<times> mil_arg) list" string

abbreviation cst :: "string \<Rightarrow> string \<Rightarrow> mil_val \<Rightarrow> mil_stmt" where
  "cst ty n v \<equiv> Const ty n [] v []"

abbreviation oper :: "string \<Rightarrow> string \<Rightarrow> string \<Rightarrow> (string \<times> mil_arg) list \<Rightarrow> string \<Rightarrow> mil_stmt" where
  "oper ty n op args label \<equiv> Oper ty n [] op args label"

record mil_code =
  params :: "(string \<times> string) list"
  stmts :: "mil_stmt list"
  result :: string

record MilProgram =
  code :: mil_code
  prog_weight_name :: string
  prog_all_weight_names :: "string list"
  prog_input_shape :: TensorShape
  prog_output_shape :: TensorShape

record MilFragment =
  frag_body :: "mil_stmt list"
  frag_input :: string
  frag_output :: string
  frag_side_input :: string
  frag_weight_file :: string
  frag_output_shape :: TensorShape

record FusedInput =
  var_name :: string
  fused_shape :: TensorShape

record QKVWeights =
  q_file :: string
  k_file :: string
  v_file :: string

section \<open>Text\<close>

fun join :: "string \<Rightarrow> string list \<Rightarrow> string" where
  "join sep [] = []"
| "join sep [s] = s"
| "join sep (s # t # ss) = s @ sep @ join sep (t # ss)"

fun render_val :: "mil_val \<Rightarrow> string" where
  "render_val (Lit s) = s"
| "render_val (Blob ty file offset) =
     ty @ ''(BLOBFILE(path=string('' @ dq @ ''@model_path/weights/'' @ file @ dq
        @ ''), offset=uint64('' @ to_string offset @ '')))''"

fun render_arg :: "string \<times> mil_arg \<Rightarrow> string" where
  "render_arg (k, Ref x) = k @ x"
| "render_arg (k, Text s) = k @ s"
| "render_arg (k, Refs xs) = k @ ''('' @ join '', '' xs @ '')''"

fun render :: "mil_stmt \<Rightarrow> string" where
  "render (Const ty n pad v pad2) =
     ''        '' @ ty @ '' '' @ n @ pad @ '' = const()[name=string('' @ dq @ n @ dq @ ''),'' @ pad2
       @ '' val='' @ render_val v @ ''];'' @ nl"
| "render (Oper ty n pad op args label) =
     ''        '' @ ty @ '' '' @ n @ pad @ '' = '' @ op @ ''('' @ join '', '' (map render_arg args)
       @ '')[name=string('' @ dq @ label @ dq @ '')];'' @ nl"

definition header :: string where
  "header =
     ''program(1.3)'' @ nl @ ''[buildInfo = dict<string, string>({''
     @ ''{'' @ dq @ ''coremlc-component-MIL'' @ dq @ '', '' @ dq @ ''3510.2.1'' @ dq @ ''}, ''
     @ ''{'' @ dq @ ''coremlc-version'' @ dq @ '', '' @ dq @ ''3505.4.1'' @ dq @ ''}, ''
     @ ''{'' @ dq @ ''coremltools-component-milinternal'' @ dq @ '', '' @ dq @ dq @ ''}, ''
     @ ''{'' @ dq @ ''coremltools-version'' @ dq @ '', '' @ dq @ ''9.0'' @ dq @ ''}''
     @ ''})]'' @ nl @ ''{'' @ nl"

definition tensor_type :: "TensorShape \<Rightarrow> string" where
  "tensor_type s = ''tensor<fp16, ['' @ to_string (batch s) @ '', '' @ to_string (channels s) @ '', ''
     @ to_string (height s) @ '', '' @ to_string (seq s) @ '']>''"

definition kWeightDictOffset :: int where
  "kWeightDictOffset = 64"

definition kDataOffset :: nat where
  "kDataOffset = 128"

definition file_ref :: "string \<Rightarrow> int \<Rightarrow> TensorShape \<Rightarrow> mil_val" where
  "file_ref file offset s =
     Blob (''tensor<fp16, ['' @ to_string (batch s) @ '','' @ to_string (channels s) @ '',''
       @ to_string (height s) @ '','' @ to_string (seq s) @ '']>'') file offset"

text \<open>The reference several emitters build in place.\<close>

definition blob_ref :: "string \<Rightarrow> string \<Rightarrow> mil_val" where
  "blob_ref ty file = Blob ty file kWeightDictOffset"

text \<open>\<open>MilProgram::text\<close>.\<close>

definition render_code :: "mil_code \<Rightarrow> string" where
  "render_code c =
     header @ ''    func main<ios18>('' @ join '', '' (map (\<lambda>(ty, n). ty @ '' '' @ n) (params c)) @ '') {'' @ nl
     @ concat (map render (stmts c)) @ ''    } -> ('' @ result c @ '');'' @ nl @ ''}'' @ nl"

definition prog_text :: "MilProgram \<Rightarrow> string" where
  "prog_text p = render_code (code p)"

text \<open>\<open>int\<close> arithmetic of the emitters leaves the 32-bit range only with undefined behaviour.\<close>

definition int32_ok :: "int \<Rightarrow> bool" where
  "int32_ok i \<longleftrightarrow> - (2 ^ 31) \<le> i \<and> i < 2 ^ 31"

section \<open>Scoping\<close>

fun stmt_def :: "mil_stmt \<Rightarrow> string" where
  "stmt_def (Const _ n _ _ _) = n"
| "stmt_def (Oper _ n _ _ _ _) = n"

fun stmt_label :: "mil_stmt \<Rightarrow> string" where
  "stmt_label (Const _ n _ _ _) = n"
| "stmt_label (Oper _ _ _ _ _ l) = l"

fun stmt_type :: "mil_stmt \<Rightarrow> string" where
  "stmt_type (Const ty _ _ _ _) = ty"
| "stmt_type (Oper ty _ _ _ _ _) = ty"

fun arg_uses :: "mil_arg \<Rightarrow> string list" where
  "arg_uses (Ref x) = [x]"
| "arg_uses (Text _) = []"
| "arg_uses (Refs xs) = xs"

fun stmt_uses :: "mil_stmt \<Rightarrow> string list" where
  "stmt_uses (Const _ _ _ _ _) = []"
| "stmt_uses (Oper _ _ _ _ args _) = concat (map (arg_uses \<circ> snd) args)"

fun stmt_files :: "mil_stmt \<Rightarrow> string list" where
  "stmt_files (Const _ _ _ (Blob _ f _) _) = [f]"
| "stmt_files _ = []"

fun scoped :: "string set \<Rightarrow> mil_stmt list \<Rightarrow> bool" where
  "scoped S [] = True"
| "scoped S (st # sts) \<longleftrightarrow> (\<forall>x \<in> set (stmt_uses st). x \<in> S) \<and> stmt_def st \<notin> S
     \<and> scoped (insert (stmt_def st) S) sts"

definition defs :: "mil_stmt list \<Rightarrow> string set" where
  "defs sts = stmt_def ` set sts"

definition files :: "mil_stmt list \<Rightarrow> string list" where
  "files sts = concat (map stmt_files sts)"

lemma defs_simps [simp]: "defs [] = {}" "defs (st # sts) = insert (stmt_def st) (defs sts)"
  "defs (xs @ ys) = defs xs \<union> defs ys"
  by (auto simp: defs_def)

lemma files_simps [simp]: "files [] = []" "files (st # sts) = stmt_files st @ files sts"
  "files (xs @ ys) = files xs @ files ys"
  by (simp_all add: files_def)

lemma scoped_append: "scoped S (xs @ ys) \<longleftrightarrow> scoped S xs \<and> scoped (S \<union> defs xs) ys"
  by (induction S xs rule: scoped.induct) (auto simp: insert_commute)

lemma scoped_defs_fresh: "scoped S sts \<Longrightarrow> defs sts \<inter> S = {}"
  by (induction S sts rule: scoped.induct) auto

lemma scoped_distinct: "scoped S sts \<Longrightarrow> distinct (map stmt_def sts)"
proof (induction S sts rule: scoped.induct)
  case (2 S st sts)
  then have "stmt_def st \<notin> defs sts" using scoped_defs_fresh by fastforce
  with 2 show ?case by (simp add: defs_def)
qed simp

text \<open>A complete program: distinct parameters, every variable defined once and before use, a
  result that is defined, and distinct operation labels.\<close>

definition code_ok :: "mil_code \<Rightarrow> bool" where
  "code_ok c \<longleftrightarrow> distinct (map snd (params c)) \<and> scoped (snd ` set (params c)) (stmts c)
     \<and> result c \<in> defs (stmts c) \<and> distinct (map stmt_label (stmts c))"

end
