(* ===== verification/MilPrograms.thy ===== *)
theory MilPrograms
  imports MilText
begin

text \<open>
  The single-operation programs of \<open>MilBuilder\<close> (src/core/mil_builder.cpp): each validates its
  shapes in source order and returns a complete program. \<open>libane_compile\<close> chooses among them. The
  rendering of \<open>float\<close> literals is an argument, and \<open>int\<close> arithmetic that could overflow is
  guarded.
\<close>

definition matmul_conv1x1_program ::
  "int \<Rightarrow> int \<Rightarrow> int \<Rightarrow> string \<Rightarrow> MilProgram res" where
  "matmul_conv1x1_program IC OC SP weight_file = (
     let in_s = mk_shape 1 IC 1 SP in
     let out_s = mk_shape 1 OC 1 SP in
     bind_res (validate in_s) (\<lambda>_.
     bind_res (validate out_s) (\<lambda>_.
     let wshape = mk_shape OC IC 1 1 in
     let wtype = ''tensor<fp16, ['' @ to_string OC @ '','' @ to_string IC @ '',1,1]>'' in
     let wval = file_ref weight_file kWeightDictOffset wshape in
     Inr \<lparr>code = \<lparr>params = [(tensor_type in_s, ''x'')], stmts = [
        cst ''string'' ''pt'' (Lit (''string('' @ dq @ ''valid'' @ dq @ '')'')),
        cst ''tensor<int32, [2]>'' ''st'' (Lit ''tensor<int32, [2]>([1,1])''),
        cst ''tensor<int32, [4]>'' ''pd'' (Lit ''tensor<int32, [4]>([0,0,0,0])''),
        cst ''tensor<int32, [2]>'' ''dl'' (Lit ''tensor<int32, [2]>([1,1])''),
        cst ''int32'' ''gr'' (Lit ''int32(1)''),
        cst wtype ''W'' wval,
        oper (tensor_type out_s) ''y'' ''conv'' [(''dilations='', Ref ''dl''), (''groups='', Ref ''gr''), (''pad='', Ref ''pd''),
           (''pad_type='', Ref ''pt''), (''strides='', Ref ''st''), (''weight='', Ref ''W''), (''x='', Ref ''x'')] ''y''],
        result = ''y''\<rparr>, prog_weight_name = weight_file, prog_all_weight_names = [],
        prog_input_shape = in_s, prog_output_shape = out_s\<rparr>)))"

definition qkv_proj_program ::
  "int \<Rightarrow> int \<Rightarrow> int \<Rightarrow> int \<Rightarrow> QKVWeights \<Rightarrow> MilProgram res" where
  "qkv_proj_program IC head_dim n_heads SP w = (
     if \<not> int32_ok (head_dim * n_heads) then Inl (Undefined_behaviour ''signed overflow'') else
     let OC = head_dim * n_heads in
     let in_s = mk_shape 1 IC 1 SP in
     let out_s = mk_shape 1 OC 1 SP in
     bind_res (validate in_s) (\<lambda>_.
     bind_res (validate out_s) (\<lambda>_.
     let wshape = mk_shape OC IC 1 1 in
     let wtype = ''tensor<fp16, ['' @ to_string OC @ '','' @ to_string IC @ '',1,1]>'' in
     let wval = file_ref (q_file w) kWeightDictOffset wshape in
     Inr \<lparr>code = \<lparr>params = [(tensor_type in_s, ''x'')], stmts = [
        cst ''string'' ''pt'' (Lit (''string('' @ dq @ ''valid'' @ dq @ '')'')),
        cst ''tensor<int32, [2]>'' ''st'' (Lit ''tensor<int32, [2]>([1,1])''),
        cst ''tensor<int32, [4]>'' ''pd'' (Lit ''tensor<int32, [4]>([0,0,0,0])''),
        cst ''tensor<int32, [2]>'' ''dl'' (Lit ''tensor<int32, [2]>([1,1])''),
        cst ''int32'' ''gr'' (Lit ''int32(1)''),
        cst wtype ''W'' wval,
        oper (tensor_type out_s) ''y'' ''conv'' [(''dilations='', Ref ''dl''), (''groups='', Ref ''gr''), (''pad='', Ref ''pd''),
           (''pad_type='', Ref ''pt''), (''strides='', Ref ''st''), (''weight='', Ref ''W''), (''x='', Ref ''x'')] ''y''],
        result = ''y''\<rparr>, prog_weight_name = q_file w, prog_all_weight_names = [],
        prog_input_shape = in_s, prog_output_shape = out_s\<rparr>)))"

definition rmsnorm_program ::
  "int \<Rightarrow> int \<Rightarrow> string \<Rightarrow> (int \<Rightarrow> string) \<Rightarrow> MilProgram res" where
  "rmsnorm_program C SP scale_file inv_lit = (
     let shape = mk_shape 1 C 1 SP in
     bind_res (validate shape) (\<lambda>_.
     let tt = tensor_type shape in
     let tss = ''tensor<fp16, [1,1,1,'' @ to_string SP @ '']>'' in
     let wref = blob_ref (''tensor<fp16, [1,'' @ to_string C @ '',1,1]>'') scale_file in
     Inr \<lparr>code = \<lparr>params = [(tt, ''x'')], stmts = [
        oper tt ''rms_sq'' ''mul'' [(''x='', Ref ''x''), (''y='', Ref ''x'')] ''rms_sq'',
        cst ''tensor<int32, [1]>'' ''rms_ax'' (Lit ''tensor<int32, [1]>([1])''),
        cst ''bool'' ''rms_kd'' (Lit ''bool(true)''),
        oper tss ''rms_ss'' ''reduce_sum'' [(''x='', Ref ''rms_sq''), (''axes='', Ref ''rms_ax''), (''keep_dims='', Ref ''rms_kd'')] ''rms_ss'',
        cst ''fp16'' ''rms_invd'' (Lit (''fp16('' @ (inv_lit C) @ '')'')),
        oper tss ''rms_ms'' ''mul'' [(''x='', Ref ''rms_ss''), (''y='', Ref ''rms_invd'')] ''rms_ms'',
        cst ''fp16'' ''rms_eps'' (Lit ''fp16(9.765625e-4)''),
        oper tss ''rms_mse'' ''add'' [(''x='', Ref ''rms_ms''), (''y='', Ref ''rms_eps'')] ''rms_mse'',
        cst ''fp16'' ''rms_nhalf'' (Lit ''fp16(-0.5)''),
        oper tss ''rms_rrms'' ''pow'' [(''x='', Ref ''rms_mse''), (''y='', Ref ''rms_nhalf'')] ''rms_rrms'',
        oper tt ''rms_xr'' ''mul'' [(''x='', Ref ''x''), (''y='', Ref ''rms_rrms'')] ''rms_xr'',
        cst (''tensor<fp16, [1,'' @ to_string C @ '',1,1]>'') ''rms_w'' wref,
        oper tt ''out'' ''mul'' [(''x='', Ref ''rms_xr''), (''y='', Ref ''rms_w'')] ''out''],
        result = ''out''\<rparr>, prog_weight_name = scale_file, prog_all_weight_names = [],
        prog_input_shape = shape, prog_output_shape = shape\<rparr>))"

definition gelu_program ::
  "int \<Rightarrow> int \<Rightarrow> MilProgram res" where
  "gelu_program C SP = (
     let shape = mk_shape 1 C 1 SP in
     bind_res (validate shape) (\<lambda>_.
     let tt = tensor_type shape in
     Inr \<lparr>code = \<lparr>params = [(tensor_type shape, ''x'')], stmts = [
        oper tt ''g_x2'' ''mul'' [(''x='', Ref ''x''), (''y='', Ref ''x'')] ''g_x2'',
        oper tt ''g_x3'' ''mul'' [(''x='', Ref ''g_x2''), (''y='', Ref ''x'')] ''g_x3'',
        cst ''fp16'' ''g_c1'' (Lit ''fp16(0.044715)''),
        oper tt ''g_cx3'' ''mul'' [(''x='', Ref ''g_x3''), (''y='', Ref ''g_c1'')] ''g_cx3'',
        oper tt ''g_inner'' ''add'' [(''x='', Ref ''x''), (''y='', Ref ''g_cx3'')] ''g_inner'',
        cst ''fp16'' ''g_c2'' (Lit ''fp16(0.7979)''),
        oper tt ''g_scaled'' ''mul'' [(''x='', Ref ''g_inner''), (''y='', Ref ''g_c2'')] ''g_scaled'',
        oper tt ''g_th'' ''tanh'' [(''x='', Ref ''g_scaled'')] ''g_th'',
        cst ''fp16'' ''g_one'' (Lit ''fp16(1.0)''),
        oper tt ''g_onep'' ''add'' [(''x='', Ref ''g_th''), (''y='', Ref ''g_one'')] ''g_onep'',
        cst ''fp16'' ''g_half'' (Lit ''fp16(0.5)''),
        oper tt ''g_hx'' ''mul'' [(''x='', Ref ''x''), (''y='', Ref ''g_half'')] ''g_hx'',
        oper tt ''y'' ''mul'' [(''x='', Ref ''g_hx''), (''y='', Ref ''g_onep'')] ''y''],
        result = ''y''\<rparr>, prog_weight_name = '''', prog_all_weight_names = [],
        prog_input_shape = shape, prog_output_shape = shape\<rparr>))"

definition softmax_program ::
  "int \<Rightarrow> int \<Rightarrow> MilProgram res" where
  "softmax_program C SP = (
     let shape = mk_shape 1 C 1 SP in
     bind_res (validate shape) (\<lambda>_.
     Inr \<lparr>code = \<lparr>params = [(tensor_type shape, ''x'')], stmts = [
        cst ''int32'' ''sm_ax'' (Lit ''int32(1)''),
        oper (tensor_type shape) ''y'' ''softmax'' [(''axis='', Ref ''sm_ax''), (''x='', Ref ''x'')] ''sm''],
        result = ''y''\<rparr>, prog_weight_name = '''', prog_all_weight_names = [],
        prog_input_shape = shape, prog_output_shape = shape\<rparr>))"

definition avg_pool_program ::
  "int \<Rightarrow> int \<Rightarrow> MilProgram res" where
  "avg_pool_program C SP = (
     let shape = mk_shape 1 C 1 SP in
     bind_res (validate shape) (\<lambda>_.
     Inr \<lparr>code = \<lparr>params = [(tensor_type shape, ''x'')], stmts = [
        oper (tensor_type shape) ''y'' ''identity'' [(''x='', Ref ''x'')] ''avg_pool_lowered''],
        result = ''y''\<rparr>, prog_weight_name = '''', prog_all_weight_names = [],
        prog_input_shape = shape, prog_output_shape = shape\<rparr>))"

definition max_pool_program ::
  "int \<Rightarrow> int \<Rightarrow> MilProgram res" where
  "max_pool_program C SP = (
     let shape = mk_shape 1 C 1 SP in
     bind_res (validate shape) (\<lambda>_.
     Inr \<lparr>code = \<lparr>params = [(tensor_type shape, ''x'')], stmts = [
        oper (tensor_type shape) ''y'' ''identity'' [(''x='', Ref ''x'')] ''max_pool_lowered''],
        result = ''y''\<rparr>, prog_weight_name = '''', prog_all_weight_names = [],
        prog_input_shape = shape, prog_output_shape = shape\<rparr>))"

definition logical_and_program ::
  "int \<Rightarrow> int \<Rightarrow> MilProgram res" where
  "logical_and_program C SP = (
     let shape = mk_shape 1 C 1 SP in
     bind_res (validate shape) (\<lambda>_.
     let tt = tensor_type shape in
     let tb = ''tensor<bool, [1, '' @ to_string C @ '', 1, '' @ to_string SP @ '']>'' in
     Inr \<lparr>code = \<lparr>params = [(tt, ''x''), (tt, ''y'')], stmts = [
        oper tb ''xb'' ''cast'' [(''x='', Ref ''x''), (''dtype='', Text (''string('' @ dq @ ''bool'' @ dq @ '')''))] ''lnd_xb'',
        oper tb ''yb'' ''cast'' [(''x='', Ref ''y''), (''dtype='', Text (''string('' @ dq @ ''bool'' @ dq @ '')''))] ''lnd_yb'',
        oper tt ''xf'' ''cast'' [(''x='', Ref ''xb''), (''dtype='', Text (''string('' @ dq @ ''fp16'' @ dq @ '')''))] ''lnd_xf'',
        oper tt ''yf'' ''cast'' [(''x='', Ref ''yb''), (''dtype='', Text (''string('' @ dq @ ''fp16'' @ dq @ '')''))] ''lnd_yf'',
        oper tt ''z'' ''mul'' [(''x='', Ref ''xf''), (''y='', Ref ''yf'')] ''lnd_out''],
        result = ''z''\<rparr>, prog_weight_name = '''', prog_all_weight_names = [],
        prog_input_shape = shape, prog_output_shape = shape\<rparr>))"

definition logical_or_program ::
  "int \<Rightarrow> int \<Rightarrow> MilProgram res" where
  "logical_or_program C SP = (
     let shape = mk_shape 1 C 1 SP in
     bind_res (validate shape) (\<lambda>_.
     let tt = tensor_type shape in
     let tb = ''tensor<bool, [1, '' @ to_string C @ '', 1, '' @ to_string SP @ '']>'' in
     Inr \<lparr>code = \<lparr>params = [(tt, ''x''), (tt, ''y'')], stmts = [
        oper tb ''xb'' ''cast'' [(''x='', Ref ''x''), (''dtype='', Text (''string('' @ dq @ ''bool'' @ dq @ '')''))] ''lor_xb'',
        oper tb ''yb'' ''cast'' [(''x='', Ref ''y''), (''dtype='', Text (''string('' @ dq @ ''bool'' @ dq @ '')''))] ''lor_yb'',
        oper tt ''xf'' ''cast'' [(''x='', Ref ''xb''), (''dtype='', Text (''string('' @ dq @ ''fp16'' @ dq @ '')''))] ''lor_xf'',
        oper tt ''yf'' ''cast'' [(''x='', Ref ''yb''), (''dtype='', Text (''string('' @ dq @ ''fp16'' @ dq @ '')''))] ''lor_yf'',
        oper tt ''z'' ''maximum'' [(''x='', Ref ''xf''), (''y='', Ref ''yf'')] ''lor_out''],
        result = ''z''\<rparr>, prog_weight_name = '''', prog_all_weight_names = [],
        prog_input_shape = shape, prog_output_shape = shape\<rparr>))"

definition logical_xor_program ::
  "int \<Rightarrow> int \<Rightarrow> MilProgram res" where
  "logical_xor_program C SP = (
     let shape = mk_shape 1 C 1 SP in
     bind_res (validate shape) (\<lambda>_.
     let tt = tensor_type shape in
     let tb = ''tensor<bool, [1, '' @ to_string C @ '', 1, '' @ to_string SP @ '']>'' in
     Inr \<lparr>code = \<lparr>params = [(tt, ''x''), (tt, ''y'')], stmts = [
        oper tb ''xb'' ''cast'' [(''x='', Ref ''x''), (''dtype='', Text (''string('' @ dq @ ''bool'' @ dq @ '')''))] ''lxr_xb'',
        oper tb ''yb'' ''cast'' [(''x='', Ref ''y''), (''dtype='', Text (''string('' @ dq @ ''bool'' @ dq @ '')''))] ''lxr_yb'',
        oper tt ''xf'' ''cast'' [(''x='', Ref ''xb''), (''dtype='', Text (''string('' @ dq @ ''fp16'' @ dq @ '')''))] ''lxr_xf'',
        oper tt ''yf'' ''cast'' [(''x='', Ref ''yb''), (''dtype='', Text (''string('' @ dq @ ''fp16'' @ dq @ '')''))] ''lxr_yf'',
        oper tb ''zb'' ''not_equal'' [(''x='', Ref ''xf''), (''y='', Ref ''yf'')] ''lxr_zb'',
        oper tt ''z'' ''cast'' [(''x='', Ref ''zb''), (''dtype='', Text (''string('' @ dq @ ''fp16'' @ dq @ '')''))] ''lxr_out''],
        result = ''z''\<rparr>, prog_weight_name = '''', prog_all_weight_names = [],
        prog_input_shape = shape, prog_output_shape = shape\<rparr>))"

definition reduce_prod_program ::
  "int \<Rightarrow> int \<Rightarrow> MilProgram res" where
  "reduce_prod_program C SP = (
     let in_s = mk_shape 1 C 1 SP in
     let out_s = mk_shape 1 1 1 SP in
     bind_res (validate in_s) (\<lambda>_.
     bind_res (validate out_s) (\<lambda>_.
     let tin = tensor_type in_s in
     let tout = tensor_type out_s in
     Inr \<lparr>code = \<lparr>params = [(tin, ''x'')], stmts = [
        cst ''fp16'' ''rp_eps'' (Lit ''fp16(0x1.0cp-17)''),
        oper tin ''rp_x'' ''add'' [(''x='', Ref ''x''), (''y='', Ref ''rp_eps'')] ''rp_x'',
        oper tin ''rp_l'' ''log'' [(''x='', Ref ''rp_x''), (''epsilon='', Ref ''rp_eps'')] ''rp_l'',
        cst ''tensor<int32, [1]>'' ''rp_ax'' (Lit ''tensor<int32, [1]>([1])''),
        cst ''bool'' ''rp_kd'' (Lit ''bool(true)''),
        oper tout ''rp_s'' ''reduce_sum'' [(''x='', Ref ''rp_l''), (''axes='', Ref ''rp_ax''), (''keep_dims='', Ref ''rp_kd'')] ''rp_s'',
        oper tout ''y'' ''exp'' [(''x='', Ref ''rp_s'')] ''rp_out''],
        result = ''y''\<rparr>, prog_weight_name = '''', prog_all_weight_names = [],
        prog_input_shape = in_s, prog_output_shape = out_s\<rparr>)))"

definition scatter_static_mask_program ::
  "int \<Rightarrow> int \<Rightarrow> string \<Rightarrow> MilProgram res" where
  "scatter_static_mask_program C SP mask_file = (
     let shape = mk_shape 1 C 1 SP in
     bind_res (validate shape) (\<lambda>_.
     let tt = tensor_type shape in
     let mref = blob_ref tt mask_file in
     Inr \<lparr>code = \<lparr>params = [(tt, ''base''), (tt, ''updates'')], stmts = [
        cst tt ''m'' mref,
        cst ''fp16'' ''one'' (Lit ''fp16(1.0)''),
        oper tt ''inv'' ''sub'' [(''x='', Ref ''one''), (''y='', Ref ''m'')] ''inv'',
        oper tt ''xb'' ''mul'' [(''x='', Ref ''base''), (''y='', Ref ''inv'')] ''xb'',
        oper tt ''uu'' ''mul'' [(''x='', Ref ''updates''), (''y='', Ref ''m'')] ''uu'',
        oper tt ''out'' ''add'' [(''x='', Ref ''xb''), (''y='', Ref ''uu'')] ''out''],
        result = ''out''\<rparr>, prog_weight_name = mask_file, prog_all_weight_names = [],
        prog_input_shape = shape, prog_output_shape = shape\<rparr>))"

definition gather_static_mask_program ::
  "int \<Rightarrow> int \<Rightarrow> string \<Rightarrow> MilProgram res" where
  "gather_static_mask_program C SP mask_file = (
     let shape = mk_shape 1 C 1 SP in
     bind_res (validate shape) (\<lambda>_.
     let tt = tensor_type shape in
     let mref = blob_ref tt mask_file in
     Inr \<lparr>code = \<lparr>params = [(tt, ''x'')], stmts = [
        cst tt ''m'' mref,
        oper tt ''out'' ''mul'' [(''x='', Ref ''x''), (''y='', Ref ''m'')] ''out''],
        result = ''out''\<rparr>, prog_weight_name = mask_file, prog_all_weight_names = [],
        prog_input_shape = shape, prog_output_shape = shape\<rparr>))"

definition gather_dynamic_mask_program ::
  "int \<Rightarrow> int \<Rightarrow> MilProgram res" where
  "gather_dynamic_mask_program C SP = (
     let shape = mk_shape 1 C 1 SP in
     bind_res (validate shape) (\<lambda>_.
     let tt = tensor_type shape in
     Inr \<lparr>code = \<lparr>params = [(tt, ''x''), (tt, ''mask'')], stmts = [
        oper tt ''out'' ''mul'' [(''x='', Ref ''x''), (''y='', Ref ''mask'')] ''out''],
        result = ''out''\<rparr>, prog_weight_name = '''', prog_all_weight_names = [],
        prog_input_shape = shape, prog_output_shape = shape\<rparr>))"

definition neg_program ::
  "int \<Rightarrow> int \<Rightarrow> MilProgram res" where
  "neg_program C SP = (
     let shape = mk_shape 1 C 1 SP in
     bind_res (validate shape) (\<lambda>_.
     let tt = tensor_type shape in
     Inr \<lparr>code = \<lparr>params = [(tt, ''x'')], stmts = [
        cst ''fp16'' ''n1'' (Lit ''fp16(-1.0)''),
        oper tt ''out'' ''mul'' [(''x='', Ref ''x''), (''y='', Ref ''n1'')] ''out''],
        result = ''out''\<rparr>, prog_weight_name = '''', prog_all_weight_names = [],
        prog_input_shape = shape, prog_output_shape = shape\<rparr>))"

definition mod_program ::
  "int \<Rightarrow> int \<Rightarrow> MilProgram res" where
  "mod_program C SP = (
     let shape = mk_shape 1 C 1 SP in
     bind_res (validate shape) (\<lambda>_.
     let tt = tensor_type shape in
     Inr \<lparr>code = \<lparr>params = [(tt, ''x''), (tt, ''y'')], stmts = [
        oper tt ''q'' ''floor_div'' [(''x='', Ref ''x''), (''y='', Ref ''y'')] ''q'',
        oper tt ''qy'' ''mul'' [(''x='', Ref ''q''), (''y='', Ref ''y'')] ''qy'',
        oper tt ''out'' ''sub'' [(''x='', Ref ''x''), (''y='', Ref ''qy'')] ''out''],
        result = ''out''\<rparr>, prog_weight_name = '''', prog_all_weight_names = [],
        prog_input_shape = shape, prog_output_shape = shape\<rparr>))"

definition sinh_program ::
  "int \<Rightarrow> int \<Rightarrow> MilProgram res" where
  "sinh_program C SP = (
     let shape = mk_shape 1 C 1 SP in
     bind_res (validate shape) (\<lambda>_.
     let tt = tensor_type shape in
     Inr \<lparr>code = \<lparr>params = [(tt, ''x'')], stmts = [
        cst ''fp16'' ''n1'' (Lit ''fp16(-1.0)''),
        cst ''fp16'' ''h'' (Lit ''fp16(0.5)''),
        oper tt ''nx'' ''mul'' [(''x='', Ref ''x''), (''y='', Ref ''n1'')] ''nx'',
        oper tt ''ex'' ''exp'' [(''x='', Ref ''x'')] ''ex'',
        oper tt ''enx'' ''exp'' [(''x='', Ref ''nx'')] ''enx'',
        oper tt ''d'' ''sub'' [(''x='', Ref ''ex''), (''y='', Ref ''enx'')] ''d'',
        oper tt ''out'' ''mul'' [(''x='', Ref ''d''), (''y='', Ref ''h'')] ''out''],
        result = ''out''\<rparr>, prog_weight_name = '''', prog_all_weight_names = [],
        prog_input_shape = shape, prog_output_shape = shape\<rparr>))"

definition cosh_program ::
  "int \<Rightarrow> int \<Rightarrow> MilProgram res" where
  "cosh_program C SP = (
     let shape = mk_shape 1 C 1 SP in
     bind_res (validate shape) (\<lambda>_.
     let tt = tensor_type shape in
     Inr \<lparr>code = \<lparr>params = [(tt, ''x'')], stmts = [
        cst ''fp16'' ''n1'' (Lit ''fp16(-1.0)''),
        cst ''fp16'' ''h'' (Lit ''fp16(0.5)''),
        oper tt ''nx'' ''mul'' [(''x='', Ref ''x''), (''y='', Ref ''n1'')] ''nx'',
        oper tt ''ex'' ''exp'' [(''x='', Ref ''x'')] ''ex'',
        oper tt ''enx'' ''exp'' [(''x='', Ref ''nx'')] ''enx'',
        oper tt ''s'' ''add'' [(''x='', Ref ''ex''), (''y='', Ref ''enx'')] ''s'',
        oper tt ''out'' ''mul'' [(''x='', Ref ''s''), (''y='', Ref ''h'')] ''out''],
        result = ''out''\<rparr>, prog_weight_name = '''', prog_all_weight_names = [],
        prog_input_shape = shape, prog_output_shape = shape\<rparr>))"

definition tan_program ::
  "int \<Rightarrow> int \<Rightarrow> MilProgram res" where
  "tan_program C SP = (
     let shape = mk_shape 1 C 1 SP in
     bind_res (validate shape) (\<lambda>_.
     let tt = tensor_type shape in
     Inr \<lparr>code = \<lparr>params = [(tt, ''x'')], stmts = [
        cst ''fp16'' ''teps'' (Lit ''fp16(0x1.0cp-17)''),
        oper tt ''sx'' ''sin'' [(''x='', Ref ''x'')] ''sx'',
        oper tt ''cx'' ''cos'' [(''x='', Ref ''x'')] ''cx'',
        oper tt ''cxe'' ''add'' [(''x='', Ref ''cx''), (''y='', Ref ''teps'')] ''cxe'',
        oper tt ''out'' ''real_div'' [(''x='', Ref ''sx''), (''y='', Ref ''cxe'')] ''out''],
        result = ''out''\<rparr>, prog_weight_name = '''', prog_all_weight_names = [],
        prog_input_shape = shape, prog_output_shape = shape\<rparr>))"

definition asin_program ::
  "int \<Rightarrow> int \<Rightarrow> MilProgram res" where
  "asin_program C SP = (
     let shape = mk_shape 1 C 1 SP in
     bind_res (validate shape) (\<lambda>_.
     let tt = tensor_type shape in
     Inr \<lparr>code = \<lparr>params = [(tt, ''x'')], stmts = [
        cst ''fp16'' ''one'' (Lit ''fp16(1.0)''),
        cst ''fp16'' ''ae'' (Lit ''fp16(0x1.0cp-17)''),
        oper tt ''xsq'' ''mul'' [(''x='', Ref ''x''), (''y='', Ref ''x'')] ''xsq'',
        oper tt ''den2'' ''sub'' [(''x='', Ref ''one''), (''y='', Ref ''xsq'')] ''den2'',
        oper tt ''den2e'' ''add'' [(''x='', Ref ''den2''), (''y='', Ref ''ae'')] ''den2e'',
        oper tt ''den'' ''sqrt'' [(''x='', Ref ''den2e'')] ''den'',
        oper tt ''ratio'' ''real_div'' [(''x='', Ref ''x''), (''y='', Ref ''den'')] ''ratio'',
        oper tt ''out'' ''atan'' [(''x='', Ref ''ratio'')] ''out''],
        result = ''out''\<rparr>, prog_weight_name = '''', prog_all_weight_names = [],
        prog_input_shape = shape, prog_output_shape = shape\<rparr>))"

definition acos_program ::
  "int \<Rightarrow> int \<Rightarrow> MilProgram res" where
  "acos_program C SP = (
     let shape = mk_shape 1 C 1 SP in
     bind_res (validate shape) (\<lambda>_.
     let tt = tensor_type shape in
     Inr \<lparr>code = \<lparr>params = [(tt, ''x'')], stmts = [
        cst ''fp16'' ''hp'' (Lit ''fp16(1.5703125)''),
        cst ''fp16'' ''one'' (Lit ''fp16(1.0)''),
        cst ''fp16'' ''ae'' (Lit ''fp16(0x1.0cp-17)''),
        oper tt ''xsq'' ''mul'' [(''x='', Ref ''x''), (''y='', Ref ''x'')] ''xsq'',
        oper tt ''den2'' ''sub'' [(''x='', Ref ''one''), (''y='', Ref ''xsq'')] ''den2'',
        oper tt ''den2e'' ''add'' [(''x='', Ref ''den2''), (''y='', Ref ''ae'')] ''den2e'',
        oper tt ''den'' ''sqrt'' [(''x='', Ref ''den2e'')] ''den'',
        oper tt ''ratio'' ''real_div'' [(''x='', Ref ''x''), (''y='', Ref ''den'')] ''ratio'',
        oper tt ''asv'' ''atan'' [(''x='', Ref ''ratio'')] ''asv'',
        oper tt ''out'' ''sub'' [(''x='', Ref ''hp''), (''y='', Ref ''asv'')] ''out''],
        result = ''out''\<rparr>, prog_weight_name = '''', prog_all_weight_names = [],
        prog_input_shape = shape, prog_output_shape = shape\<rparr>))"

definition add_program ::
  "int \<Rightarrow> int \<Rightarrow> MilProgram res" where
  "add_program C SP = (
     let shape = mk_shape 1 C 1 SP in
     bind_res (validate shape) (\<lambda>_.
     Inr \<lparr>code = \<lparr>params = [(tensor_type shape, ''x''), (tensor_type shape, ''y'')], stmts = [
        oper (tensor_type shape) ''z'' ''add'' [(''x = '', Ref ''x''), (''y = '', Ref ''y'')] ''add''],
        result = ''z''\<rparr>, prog_weight_name = '''', prog_all_weight_names = [],
        prog_input_shape = shape, prog_output_shape = shape\<rparr>))"

definition transpose_cssc_program ::
  "int \<Rightarrow> int \<Rightarrow> MilProgram res" where
  "transpose_cssc_program C SP = (
     let in_s = mk_shape 1 C 1 SP in
     let out_s = mk_shape 1 SP 1 C in
     bind_res (validate in_s) (\<lambda>_.
     bind_res (validate out_s) (\<lambda>_.
     Inr \<lparr>code = \<lparr>params = [(tensor_type in_s, ''x'')], stmts = [
        cst ''tensor<int32, [4]>'' ''perm'' (Lit ''tensor<int32, [4]>([0,3,2,1])''),
        oper (tensor_type out_s) ''y'' ''transpose'' [(''perm='', Ref ''perm''), (''x='', Ref ''x'')] ''tr''],
        result = ''y''\<rparr>, prog_weight_name = '''', prog_all_weight_names = [],
        prog_input_shape = in_s, prog_output_shape = out_s\<rparr>)))"

definition out_proj_add_program ::
  "int \<Rightarrow> int \<Rightarrow> int \<Rightarrow> string \<Rightarrow> MilProgram res" where
  "out_proj_add_program IC OC SP weight_file = (
     let in_s = mk_shape 1 IC 1 SP in
     let residual = mk_shape 1 OC 1 SP in
     let wshape = mk_shape OC IC 1 1 in
     bind_res (validate in_s) (\<lambda>_.
     bind_res (validate residual) (\<lambda>_.
     let wtype = ''tensor<fp16, ['' @ to_string OC @ '','' @ to_string IC @ '',1,1]>'' in
     let wval = file_ref weight_file kWeightDictOffset wshape in
     Inr \<lparr>code = \<lparr>params = [(tensor_type residual, ''residual''), (tensor_type in_s, ''x'')], stmts = [
        cst ''string'' ''pt'' (Lit (''string('' @ dq @ ''valid'' @ dq @ '')'')),
        cst ''tensor<int32, [2]>'' ''st'' (Lit ''tensor<int32, [2]>([1,1])''),
        cst ''tensor<int32, [4]>'' ''pd'' (Lit ''tensor<int32, [4]>([0,0,0,0])''),
        cst ''tensor<int32, [2]>'' ''dl'' (Lit ''tensor<int32, [2]>([1,1])''),
        cst ''int32'' ''gr'' (Lit ''int32(1)''),
        cst wtype ''W'' wval,
        oper (tensor_type residual) ''proj'' ''conv'' [(''dilations='', Ref ''dl''), (''groups='', Ref ''gr''), (''pad='', Ref ''pd''),
           (''pad_type='', Ref ''pt''), (''strides='', Ref ''st''), (''weight='', Ref ''W''), (''x='', Ref ''x'')] ''proj'',
        oper (tensor_type residual) ''out'' ''add'' [(''x='', Ref ''proj''), (''y='', Ref ''residual'')] ''out''],
        result = ''out''\<rparr>, prog_weight_name = weight_file, prog_all_weight_names = [],
        prog_input_shape = in_s, prog_output_shape = residual\<rparr>)))"

definition mul_program ::
  "int \<Rightarrow> int \<Rightarrow> MilProgram res" where
  "mul_program C SP = (
     let shape = mk_shape 1 C 1 SP in
     bind_res (validate shape) (\<lambda>_.
     Inr \<lparr>code = \<lparr>params = [(tensor_type shape, ''x''), (tensor_type shape, ''y'')], stmts = [
        oper (tensor_type shape) ''z'' ''mul'' [(''x='', Ref ''x''), (''y='', Ref ''y'')] ''mul''],
        result = ''z''\<rparr>, prog_weight_name = '''', prog_all_weight_names = [],
        prog_input_shape = shape, prog_output_shape = shape\<rparr>))"

definition sub_program ::
  "int \<Rightarrow> int \<Rightarrow> MilProgram res" where
  "sub_program C SP = (
     let shape = mk_shape 1 C 1 SP in
     bind_res (validate shape) (\<lambda>_.
     Inr \<lparr>code = \<lparr>params = [(tensor_type shape, ''x''), (tensor_type shape, ''y'')], stmts = [
        oper (tensor_type shape) ''z'' ''sub'' [(''x='', Ref ''x''), (''y='', Ref ''y'')] ''sub''],
        result = ''z''\<rparr>, prog_weight_name = '''', prog_all_weight_names = [],
        prog_input_shape = shape, prog_output_shape = shape\<rparr>))"

definition real_div_program ::
  "int \<Rightarrow> int \<Rightarrow> MilProgram res" where
  "real_div_program C SP = (
     let shape = mk_shape 1 C 1 SP in
     bind_res (validate shape) (\<lambda>_.
     Inr \<lparr>code = \<lparr>params = [(tensor_type shape, ''x''), (tensor_type shape, ''y'')], stmts = [
        oper (tensor_type shape) ''z'' ''real_div'' [(''x='', Ref ''x''), (''y='', Ref ''y'')] ''real_div''],
        result = ''z''\<rparr>, prog_weight_name = '''', prog_all_weight_names = [],
        prog_input_shape = shape, prog_output_shape = shape\<rparr>))"

definition sqrt_program ::
  "int \<Rightarrow> int \<Rightarrow> MilProgram res" where
  "sqrt_program C SP = (
     let shape = mk_shape 1 C 1 SP in
     bind_res (validate shape) (\<lambda>_.
     Inr \<lparr>code = \<lparr>params = [(tensor_type shape, ''x'')], stmts = [
        oper (tensor_type shape) ''y'' ''sqrt'' [(''x='', Ref ''x'')] ''sqrt''],
        result = ''y''\<rparr>, prog_weight_name = '''', prog_all_weight_names = [],
        prog_input_shape = shape, prog_output_shape = shape\<rparr>))"

definition log_program ::
  "int \<Rightarrow> int \<Rightarrow> MilProgram res" where
  "log_program C SP = (
     let shape = mk_shape 1 C 1 SP in
     bind_res (validate shape) (\<lambda>_.
     Inr \<lparr>code = \<lparr>params = [(tensor_type shape, ''x'')], stmts = [
        cst ''fp16'' ''lg_eps'' (Lit ''fp16(0x1.0cp-17)''),
        oper (tensor_type shape) ''y'' ''log'' [(''epsilon='', Ref ''lg_eps''), (''x='', Ref ''x'')] ''log''],
        result = ''y''\<rparr>, prog_weight_name = '''', prog_all_weight_names = [],
        prog_input_shape = shape, prog_output_shape = shape\<rparr>))"

definition rsqrt_program ::
  "int \<Rightarrow> int \<Rightarrow> MilProgram res" where
  "rsqrt_program C SP = (
     let shape = mk_shape 1 C 1 SP in
     bind_res (validate shape) (\<lambda>_.
     Inr \<lparr>code = \<lparr>params = [(tensor_type shape, ''x'')], stmts = [
        cst ''fp16'' ''rs_eps'' (Lit ''fp16(0x1.0cp-17)''),
        oper (tensor_type shape) ''y'' ''rsqrt'' [(''epsilon='', Ref ''rs_eps''), (''x='', Ref ''x'')] ''rsqrt''],
        result = ''y''\<rparr>, prog_weight_name = '''', prog_all_weight_names = [],
        prog_input_shape = shape, prog_output_shape = shape\<rparr>))"

definition silu_program ::
  "int \<Rightarrow> int \<Rightarrow> MilProgram res" where
  "silu_program C SP = (
     let shape = mk_shape 1 C 1 SP in
     bind_res (validate shape) (\<lambda>_.
     let tt = tensor_type shape in
     Inr \<lparr>code = \<lparr>params = [(tensor_type shape, ''x'')], stmts = [
        oper tt ''sig'' ''sigmoid'' [(''x='', Ref ''x'')] ''sig'',
        oper tt ''y'' ''mul'' [(''x='', Ref ''x''), (''y='', Ref ''sig'')] ''silu''],
        result = ''y''\<rparr>, prog_weight_name = '''', prog_all_weight_names = [],
        prog_input_shape = shape, prog_output_shape = shape\<rparr>))"

definition layernorm_program ::
  "int \<Rightarrow> int \<Rightarrow> string \<Rightarrow> string \<Rightarrow> string \<Rightarrow> MilProgram res" where
  "layernorm_program C SP gamma_file beta_file eps_lit = (
     let shape = mk_shape 1 C 1 SP in
     bind_res (validate shape) (\<lambda>_.
     let tt = tensor_type shape in
     let tss = ''tensor<fp16, [1,1,1,'' @ to_string SP @ '']>'' in
     let tc = ''tensor<fp16, [1,'' @ to_string C @ '',1,'' @ to_string SP @ '']>'' in
     let tw = ''tensor<fp16, [1,'' @ to_string C @ '',1,1]>'' in
     Inr \<lparr>code = \<lparr>params = [(tt, ''x'')], stmts = [
        cst ''tensor<int32, [1]>'' ''ln_ax'' (Lit ''tensor<int32, [1]>([1])''),
        cst ''bool'' ''ln_kd'' (Lit ''bool(true)''),
        oper tss ''ln_mean'' ''reduce_mean'' [(''x='', Ref ''x''), (''axes='', Ref ''ln_ax''), (''keep_dims='', Ref ''ln_kd'')] ''ln_mean'',
        oper tc ''ln_cent'' ''sub'' [(''x='', Ref ''x''), (''y='', Ref ''ln_mean'')] ''ln_cent'',
        oper tc ''ln_sq'' ''mul'' [(''x='', Ref ''ln_cent''), (''y='', Ref ''ln_cent'')] ''ln_sq'',
        oper tss ''ln_var'' ''reduce_mean'' [(''x='', Ref ''ln_sq''), (''axes='', Ref ''ln_ax''), (''keep_dims='', Ref ''ln_kd'')] ''ln_var'',
        cst ''fp16'' ''ln_eps'' (Lit (''fp16('' @ eps_lit @ '')'')),
        oper tss ''ln_veps'' ''add'' [(''x='', Ref ''ln_var''), (''y='', Ref ''ln_eps'')] ''ln_veps'',
        cst ''fp16'' ''ln_nhalf'' (Lit ''fp16(-0.5)''),
        oper tss ''ln_rstd'' ''pow'' [(''x='', Ref ''ln_veps''), (''y='', Ref ''ln_nhalf'')] ''ln_rstd'',
        oper tc ''ln_norm'' ''mul'' [(''x='', Ref ''ln_cent''), (''y='', Ref ''ln_rstd'')] ''ln_norm'',
        cst tw ''ln_g'' (blob_ref tw gamma_file),
        oper tc ''ln_scaled'' ''mul'' [(''x='', Ref ''ln_norm''), (''y='', Ref ''ln_g'')] ''ln_scaled'',
        cst tw ''ln_beta'' (blob_ref tw beta_file),
        oper tc ''out'' ''add'' [(''x='', Ref ''ln_scaled''), (''y='', Ref ''ln_beta'')] ''out''],
        result = ''out''\<rparr>, prog_weight_name = gamma_file, prog_all_weight_names = [],
        prog_input_shape = shape, prog_output_shape = shape\<rparr>))"

definition select_program ::
  "int \<Rightarrow> int \<Rightarrow> MilProgram res" where
  "select_program C SP = (
     let shape = mk_shape 1 C 1 SP in
     bind_res (validate shape) (\<lambda>_.
     let tt = tensor_type shape in
     let tb = ''tensor<bool, [1, '' @ to_string C @ '', 1, '' @ to_string SP @ '']>'' in
     Inr \<lparr>code = \<lparr>params = [(tt, ''c''), (tt, ''x''), (tt, ''y'')], stmts = [
        oper tb ''cb'' ''cast'' [(''x='', Ref ''c''), (''dtype='', Text (''string('' @ dq @ ''bool'' @ dq @ '')''))] ''sel_cb'',
        oper tt ''z'' ''select'' [(''cond='', Ref ''cb''), (''a='', Ref ''x''), (''b='', Ref ''y'')] ''sel_out''],
        result = ''z''\<rparr>, prog_weight_name = '''', prog_all_weight_names = [],
        prog_input_shape = shape, prog_output_shape = shape\<rparr>))"

end
