(* ===== verification/MilFragments.thy ===== *)
theory MilFragments
  imports MilText
begin

text \<open>
  The fragment emitters of \<open>MilBuilder\<close> (src/core/mil_builder.cpp): each validates its shapes in
  source order and returns the statements it appends to a fused program. Names follow the
  source's convention \<open>prefix = out_var + "_"\<close>. Floating point stays outside the model: the
  rendering of \<open>1.0f / C\<close> (\<open>inv_lit\<close>) and of the layernorm epsilon (\<open>eps_lit\<close>), and in the
  piecewise-linear emitter the \<open>float\<close> operations and stream formatting (\<open>float_env\<close>), are
  arguments. \<open>int\<close> arithmetic that could overflow is guarded.

  \<open>frag_wf\<close> is what a fragment guarantees when its inputs are in scope and its output name is
  fresh; the collection \<open>frag_rules\<close> holds one such rule per emitter.
\<close>

section \<open>Emitters\<close>

definition matmul_fragment ::
  "int \<Rightarrow> int \<Rightarrow> int \<Rightarrow> string \<Rightarrow> string \<Rightarrow> string \<Rightarrow> MilFragment res" where
  "matmul_fragment IC OC SP in_var out_var weight_file = (
     let in_s = mk_shape 1 IC 1 SP in
     let out_s = mk_shape 1 OC 1 SP in
     bind_res (validate in_s) (\<lambda>_.
     bind_res (validate out_s) (\<lambda>_.
     let p = out_var @ ''_'' in
     let wtype = ''tensor<fp16, ['' @ to_string OC @ '','' @ to_string IC @ '',1,1]>'' in
     let wshape = mk_shape OC IC 1 1 in
     Inr \<lparr>frag_body = [
        cst ''string'' (p @ ''pt'') (Lit (''string('' @ dq @ ''valid'' @ dq @ '')'')),
        cst ''tensor<int32, [2]>'' (p @ ''st'') (Lit ''tensor<int32, [2]>([1,1])''),
        cst ''tensor<int32, [4]>'' (p @ ''pd'') (Lit ''tensor<int32, [4]>([0,0,0,0])''),
        cst ''tensor<int32, [2]>'' (p @ ''dl'') (Lit ''tensor<int32, [2]>([1,1])''),
        cst ''int32'' (p @ ''gr'') (Lit ''int32(1)''),
        cst wtype (p @ ''W'') (file_ref weight_file kWeightDictOffset wshape),
        oper (tensor_type out_s) out_var ''conv'' [(''dilations='', Ref (p @ ''dl'')), (''groups='', Ref (p @ ''gr'')), (''pad='', Ref (p @ ''pd'')),
           (''pad_type='', Ref (p @ ''pt'')), (''strides='', Ref (p @ ''st'')), (''weight='', Ref (p @ ''W'')), (''x='', Ref in_var)] (p @ ''conv'')],
      frag_input = in_var, frag_output = out_var, frag_side_input = '''', frag_weight_file = weight_file,
      frag_output_shape = out_s\<rparr>)))"

definition rmsnorm_fragment ::
  "int \<Rightarrow> int \<Rightarrow> string \<Rightarrow> string \<Rightarrow> string \<Rightarrow> (int \<Rightarrow> string) \<Rightarrow> MilFragment res" where
  "rmsnorm_fragment C SP in_var out_var scale_file inv_lit = (
     let shape = mk_shape 1 C 1 SP in
     bind_res (validate shape) (\<lambda>_.
     let p = out_var @ ''_'' in
     let tt = tensor_type shape in
     let tss = ''tensor<fp16, [1,1,1,'' @ to_string SP @ '']>'' in
     let wref = blob_ref (''tensor<fp16, [1,'' @ to_string C @ '',1,1]>'') scale_file in
     Inr \<lparr>frag_body = [
        oper tt (p @ ''sq'') ''mul'' [(''x='', Ref in_var), (''y='', Ref in_var)] (p @ ''sq''),
        cst ''tensor<int32, [1]>'' (p @ ''ax'') (Lit ''tensor<int32, [1]>([1])''),
        cst ''bool'' (p @ ''kd'') (Lit ''bool(true)''),
        oper tss (p @ ''ss'') ''reduce_sum'' [(''x='', Ref (p @ ''sq'')), (''axes='', Ref (p @ ''ax'')), (''keep_dims='', Ref (p @ ''kd''))] (p @ ''ss''),
        cst ''fp16'' (p @ ''invd'') (Lit (''fp16('' @ (inv_lit C) @ '')'')),
        oper tss (p @ ''ms'') ''mul'' [(''x='', Ref (p @ ''ss'')), (''y='', Ref (p @ ''invd''))] (p @ ''ms''),
        cst ''fp16'' (p @ ''eps'') (Lit ''fp16(9.765625e-4)''),
        oper tss (p @ ''mse'') ''add'' [(''x='', Ref (p @ ''ms'')), (''y='', Ref (p @ ''eps''))] (p @ ''mse''),
        cst ''fp16'' (p @ ''nh'') (Lit ''fp16(-0.5)''),
        oper tss (p @ ''rr'') ''pow'' [(''x='', Ref (p @ ''mse'')), (''y='', Ref (p @ ''nh''))] (p @ ''rr''),
        oper tt (p @ ''xr'') ''mul'' [(''x='', Ref in_var), (''y='', Ref (p @ ''rr''))] (p @ ''xr''),
        cst (''tensor<fp16, [1,'' @ to_string C @ '',1,1]>'') (p @ ''w'') wref,
        oper tt out_var ''mul'' [(''x='', Ref (p @ ''xr'')), (''y='', Ref (p @ ''w''))] (p @ ''out'')],
      frag_input = in_var, frag_output = out_var, frag_side_input = '''', frag_weight_file = scale_file,
      frag_output_shape = shape\<rparr>))"

definition layernorm_fragment ::
  "int \<Rightarrow> int \<Rightarrow> string \<Rightarrow> string \<Rightarrow> string \<Rightarrow> string \<Rightarrow> string \<Rightarrow> MilFragment res" where
  "layernorm_fragment C SP in_var out_var gamma_file beta_file eps_lit = (
     let shape = mk_shape 1 C 1 SP in
     bind_res (validate shape) (\<lambda>_.
     let p = out_var @ ''_'' in
     let tt = tensor_type shape in
     let tss = ''tensor<fp16, [1,1,1,'' @ to_string SP @ '']>'' in
     let tc = ''tensor<fp16, [1,'' @ to_string C @ '',1,'' @ to_string SP @ '']>'' in
     let tw = ''tensor<fp16, [1,'' @ to_string C @ '',1,1]>'' in
     Inr \<lparr>frag_body = [
        cst ''tensor<int32, [1]>'' (p @ ''ax'') (Lit ''tensor<int32, [1]>([1])''),
        cst ''bool'' (p @ ''kd'') (Lit ''bool(true)''),
        oper tss (p @ ''mean'') ''reduce_mean'' [(''x='', Ref in_var), (''axes='', Ref (p @ ''ax'')), (''keep_dims='', Ref (p @ ''kd''))] (p @ ''mean''),
        oper tc (p @ ''cent'') ''sub'' [(''x='', Ref in_var), (''y='', Ref (p @ ''mean''))] (p @ ''cent''),
        oper tc (p @ ''sq'') ''mul'' [(''x='', Ref (p @ ''cent'')), (''y='', Ref (p @ ''cent''))] (p @ ''sq''),
        oper tss (p @ ''var'') ''reduce_mean'' [(''x='', Ref (p @ ''sq'')), (''axes='', Ref (p @ ''ax'')), (''keep_dims='', Ref (p @ ''kd''))] (p @ ''var''),
        cst ''fp16'' (p @ ''eps'') (Lit (''fp16('' @ eps_lit @ '')'')),
        oper tss (p @ ''veps'') ''add'' [(''x='', Ref (p @ ''var'')), (''y='', Ref (p @ ''eps''))] (p @ ''veps''),
        cst ''fp16'' (p @ ''nh'') (Lit ''fp16(-0.5)''),
        oper tss (p @ ''rstd'') ''pow'' [(''x='', Ref (p @ ''veps'')), (''y='', Ref (p @ ''nh''))] (p @ ''rstd''),
        oper tc (p @ ''norm'') ''mul'' [(''x='', Ref (p @ ''cent'')), (''y='', Ref (p @ ''rstd''))] (p @ ''norm''),
        cst tw (p @ ''g'') (blob_ref tw gamma_file),
        oper tc (p @ ''sc'') ''mul'' [(''x='', Ref (p @ ''norm'')), (''y='', Ref (p @ ''g''))] (p @ ''sc''),
        cst tw (p @ ''beta'') (blob_ref tw beta_file),
        oper tc out_var ''add'' [(''x='', Ref (p @ ''sc'')), (''y='', Ref (p @ ''beta''))] (p @ ''out'')],
      frag_input = in_var, frag_output = out_var, frag_side_input = '''', frag_weight_file = gamma_file,
      frag_output_shape = shape\<rparr>))"

definition gelu_fragment ::
  "int \<Rightarrow> int \<Rightarrow> string \<Rightarrow> string \<Rightarrow> MilFragment res" where
  "gelu_fragment C SP in_var out_var = (
     let shape = mk_shape 1 C 1 SP in
     bind_res (validate shape) (\<lambda>_.
     let p = out_var @ ''_'' in
     let tt = tensor_type shape in
     Inr \<lparr>frag_body = [
        oper tt (p @ ''x2'') ''mul'' [(''x='', Ref in_var), (''y='', Ref in_var)] (p @ ''x2''),
        oper tt (p @ ''x3'') ''mul'' [(''x='', Ref (p @ ''x2'')), (''y='', Ref in_var)] (p @ ''x3''),
        cst ''fp16'' (p @ ''c1'') (Lit ''fp16(0.044715)''),
        oper tt (p @ ''cx3'') ''mul'' [(''x='', Ref (p @ ''x3'')), (''y='', Ref (p @ ''c1''))] (p @ ''cx3''),
        oper tt (p @ ''inn'') ''add'' [(''x='', Ref in_var), (''y='', Ref (p @ ''cx3''))] (p @ ''inn''),
        cst ''fp16'' (p @ ''c2'') (Lit ''fp16(0.7979)''),
        oper tt (p @ ''sc'') ''mul'' [(''x='', Ref (p @ ''inn'')), (''y='', Ref (p @ ''c2''))] (p @ ''sc''),
        oper tt (p @ ''th'') ''tanh'' [(''x='', Ref (p @ ''sc''))] (p @ ''th''),
        cst ''fp16'' (p @ ''one'') (Lit ''fp16(1.0)''),
        oper tt (p @ ''onep'') ''add'' [(''x='', Ref (p @ ''th'')), (''y='', Ref (p @ ''one''))] (p @ ''onep''),
        cst ''fp16'' (p @ ''half'') (Lit ''fp16(0.5)''),
        oper tt (p @ ''hx'') ''mul'' [(''x='', Ref in_var), (''y='', Ref (p @ ''half''))] (p @ ''hx''),
        oper tt out_var ''mul'' [(''x='', Ref (p @ ''hx'')), (''y='', Ref (p @ ''onep''))] (p @ ''gelu'')],
      frag_input = in_var, frag_output = out_var, frag_side_input = '''', frag_weight_file = '''',
      frag_output_shape = shape\<rparr>))"

definition silu_fragment ::
  "int \<Rightarrow> int \<Rightarrow> string \<Rightarrow> string \<Rightarrow> MilFragment res" where
  "silu_fragment C SP in_var out_var = (
     let shape = mk_shape 1 C 1 SP in
     bind_res (validate shape) (\<lambda>_.
     let p = out_var @ ''_'' in
     let tt = tensor_type shape in
     Inr \<lparr>frag_body = [
        oper tt (p @ ''sig'') ''sigmoid'' [(''x='', Ref in_var)] (p @ ''sig''),
        oper tt out_var ''mul'' [(''x='', Ref in_var), (''y='', Ref (p @ ''sig''))] (p @ ''silu'')],
      frag_input = in_var, frag_output = out_var, frag_side_input = '''', frag_weight_file = '''',
      frag_output_shape = shape\<rparr>))"

definition softmax_fragment ::
  "int \<Rightarrow> int \<Rightarrow> string \<Rightarrow> string \<Rightarrow> MilFragment res" where
  "softmax_fragment C SP in_var out_var = (
     let shape = mk_shape 1 C 1 SP in
     bind_res (validate shape) (\<lambda>_.
     let p = out_var @ ''_'' in
     let tt = tensor_type shape in
     let ax_var = p @ ''sax'' in
     Inr \<lparr>frag_body = [
        cst ''int32'' ax_var (Lit ''int32(1)''),
        oper tt out_var ''softmax'' [(''axis='', Ref ax_var), (''x='', Ref in_var)] (p @ ''sm'')],
      frag_input = in_var, frag_output = out_var, frag_side_input = '''', frag_weight_file = '''',
      frag_output_shape = shape\<rparr>))"

definition avg_pool_fragment ::
  "int \<Rightarrow> int \<Rightarrow> string \<Rightarrow> string \<Rightarrow> MilFragment res" where
  "avg_pool_fragment C SP in_var out_var = (
     let shape = mk_shape 1 C 1 SP in
     bind_res (validate shape) (\<lambda>_.
     let p = out_var @ ''_'' in
     let tt = tensor_type shape in
     Inr \<lparr>frag_body = [
        oper tt out_var ''identity'' [(''x='', Ref in_var)] (p @ ''avg_pool_lowered'')],
      frag_input = in_var, frag_output = out_var, frag_side_input = '''', frag_weight_file = '''',
      frag_output_shape = shape\<rparr>))"

definition max_pool_fragment ::
  "int \<Rightarrow> int \<Rightarrow> string \<Rightarrow> string \<Rightarrow> MilFragment res" where
  "max_pool_fragment C SP in_var out_var = (
     let shape = mk_shape 1 C 1 SP in
     bind_res (validate shape) (\<lambda>_.
     let p = out_var @ ''_'' in
     let tt = tensor_type shape in
     Inr \<lparr>frag_body = [
        oper tt out_var ''identity'' [(''x='', Ref in_var)] (p @ ''max_pool_lowered'')],
      frag_input = in_var, frag_output = out_var, frag_side_input = '''', frag_weight_file = '''',
      frag_output_shape = shape\<rparr>))"

definition add_fragment ::
  "int \<Rightarrow> int \<Rightarrow> string \<Rightarrow> string \<Rightarrow> string \<Rightarrow> MilFragment res" where
  "add_fragment C SP in_var side_var out_var = (
     let shape = mk_shape 1 C 1 SP in
     bind_res (validate shape) (\<lambda>_.
     let p = out_var @ ''_'' in
     let tt = tensor_type shape in
     Inr \<lparr>frag_body = [
        oper tt out_var ''add'' [(''x='', Ref in_var), (''y='', Ref side_var)] (p @ ''add'')],
      frag_input = in_var, frag_output = out_var, frag_side_input = side_var, frag_weight_file = '''',
      frag_output_shape = shape\<rparr>))"

definition mul_fragment ::
  "int \<Rightarrow> int \<Rightarrow> string \<Rightarrow> string \<Rightarrow> string \<Rightarrow> MilFragment res" where
  "mul_fragment C SP in_var side_var out_var = (
     let shape = mk_shape 1 C 1 SP in
     bind_res (validate shape) (\<lambda>_.
     let p = out_var @ ''_'' in
     let tt = tensor_type shape in
     Inr \<lparr>frag_body = [
        oper tt out_var ''mul'' [(''x='', Ref in_var), (''y='', Ref side_var)] (p @ ''mul'')],
      frag_input = in_var, frag_output = out_var, frag_side_input = side_var, frag_weight_file = '''',
      frag_output_shape = shape\<rparr>))"

definition logical_and_fragment ::
  "int \<Rightarrow> int \<Rightarrow> string \<Rightarrow> string \<Rightarrow> string \<Rightarrow> MilFragment res" where
  "logical_and_fragment C SP in_var side_var out_var = (
     let shape = mk_shape 1 C 1 SP in
     bind_res (validate shape) (\<lambda>_.
     let p = out_var @ ''_'' in
     let tt = tensor_type shape in
     let tb = ''tensor<bool, [1, '' @ to_string C @ '', 1, '' @ to_string SP @ '']>'' in
     Inr \<lparr>frag_body = [
        oper tb (p @ ''xb'') ''cast'' [(''x='', Ref in_var), (''dtype='', Text (''string('' @ dq @ ''bool'' @ dq @ '')''))] (p @ ''xb''),
        oper tb (p @ ''yb'') ''cast'' [(''x='', Ref side_var), (''dtype='', Text (''string('' @ dq @ ''bool'' @ dq @ '')''))] (p @ ''yb''),
        oper tt (p @ ''xf'') ''cast'' [(''x='', Ref (p @ ''xb'')), (''dtype='', Text (''string('' @ dq @ ''fp16'' @ dq @ '')''))] (p @ ''xf''),
        oper tt (p @ ''yf'') ''cast'' [(''x='', Ref (p @ ''yb'')), (''dtype='', Text (''string('' @ dq @ ''fp16'' @ dq @ '')''))] (p @ ''yf''),
        oper tt out_var ''mul'' [(''x='', Ref (p @ ''xf'')), (''y='', Ref (p @ ''yf''))] (p @ ''and'')],
      frag_input = in_var, frag_output = out_var, frag_side_input = side_var, frag_weight_file = '''',
      frag_output_shape = shape\<rparr>))"

definition logical_or_fragment ::
  "int \<Rightarrow> int \<Rightarrow> string \<Rightarrow> string \<Rightarrow> string \<Rightarrow> MilFragment res" where
  "logical_or_fragment C SP in_var side_var out_var = (
     let shape = mk_shape 1 C 1 SP in
     bind_res (validate shape) (\<lambda>_.
     let p = out_var @ ''_'' in
     let tt = tensor_type shape in
     let tb = ''tensor<bool, [1, '' @ to_string C @ '', 1, '' @ to_string SP @ '']>'' in
     Inr \<lparr>frag_body = [
        oper tb (p @ ''xb'') ''cast'' [(''x='', Ref in_var), (''dtype='', Text (''string('' @ dq @ ''bool'' @ dq @ '')''))] (p @ ''xb''),
        oper tb (p @ ''yb'') ''cast'' [(''x='', Ref side_var), (''dtype='', Text (''string('' @ dq @ ''bool'' @ dq @ '')''))] (p @ ''yb''),
        oper tt (p @ ''xf'') ''cast'' [(''x='', Ref (p @ ''xb'')), (''dtype='', Text (''string('' @ dq @ ''fp16'' @ dq @ '')''))] (p @ ''xf''),
        oper tt (p @ ''yf'') ''cast'' [(''x='', Ref (p @ ''yb'')), (''dtype='', Text (''string('' @ dq @ ''fp16'' @ dq @ '')''))] (p @ ''yf''),
        oper tt out_var ''maximum'' [(''x='', Ref (p @ ''xf'')), (''y='', Ref (p @ ''yf''))] (p @ ''or'')],
      frag_input = in_var, frag_output = out_var, frag_side_input = side_var, frag_weight_file = '''',
      frag_output_shape = shape\<rparr>))"

definition logical_xor_fragment ::
  "int \<Rightarrow> int \<Rightarrow> string \<Rightarrow> string \<Rightarrow> string \<Rightarrow> MilFragment res" where
  "logical_xor_fragment C SP in_var side_var out_var = (
     let shape = mk_shape 1 C 1 SP in
     bind_res (validate shape) (\<lambda>_.
     let p = out_var @ ''_'' in
     let tt = tensor_type shape in
     let tb = ''tensor<bool, [1, '' @ to_string C @ '', 1, '' @ to_string SP @ '']>'' in
     Inr \<lparr>frag_body = [
        oper tb (p @ ''xb'') ''cast'' [(''x='', Ref in_var), (''dtype='', Text (''string('' @ dq @ ''bool'' @ dq @ '')''))] (p @ ''xb''),
        oper tb (p @ ''yb'') ''cast'' [(''x='', Ref side_var), (''dtype='', Text (''string('' @ dq @ ''bool'' @ dq @ '')''))] (p @ ''yb''),
        oper tt (p @ ''xf'') ''cast'' [(''x='', Ref (p @ ''xb'')), (''dtype='', Text (''string('' @ dq @ ''fp16'' @ dq @ '')''))] (p @ ''xf''),
        oper tt (p @ ''yf'') ''cast'' [(''x='', Ref (p @ ''yb'')), (''dtype='', Text (''string('' @ dq @ ''fp16'' @ dq @ '')''))] (p @ ''yf''),
        oper tb (p @ ''zb'') ''not_equal'' [(''x='', Ref (p @ ''xf'')), (''y='', Ref (p @ ''yf''))] (p @ ''zb''),
        oper tt out_var ''cast'' [(''x='', Ref (p @ ''zb'')), (''dtype='', Text (''string('' @ dq @ ''fp16'' @ dq @ '')''))] (p @ ''xor'')],
      frag_input = in_var, frag_output = out_var, frag_side_input = side_var, frag_weight_file = '''',
      frag_output_shape = shape\<rparr>))"

definition reduce_prod_fragment ::
  "int \<Rightarrow> int \<Rightarrow> string \<Rightarrow> string \<Rightarrow> MilFragment res" where
  "reduce_prod_fragment C SP in_var out_var = (
     let in_s = mk_shape 1 C 1 SP in
     let out_s = mk_shape 1 1 1 SP in
     bind_res (validate in_s) (\<lambda>_.
     bind_res (validate out_s) (\<lambda>_.
     let p = out_var @ ''_'' in
     let tin = tensor_type in_s in
     let tout = tensor_type out_s in
     Inr \<lparr>frag_body = [
        cst ''fp16'' (p @ ''eps'') (Lit ''fp16(0x1.0cp-17)''),
        oper tin (p @ ''x'') ''add'' [(''x='', Ref in_var), (''y='', Ref (p @ ''eps''))] (p @ ''x''),
        oper tin (p @ ''l'') ''log'' [(''x='', Ref (p @ ''x'')), (''epsilon='', Ref (p @ ''eps''))] (p @ ''l''),
        cst ''tensor<int32, [1]>'' (p @ ''ax'') (Lit ''tensor<int32, [1]>([1])''),
        cst ''bool'' (p @ ''kd'') (Lit ''bool(true)''),
        oper tout (p @ ''s'') ''reduce_sum'' [(''x='', Ref (p @ ''l'')), (''axes='', Ref (p @ ''ax'')), (''keep_dims='', Ref (p @ ''kd''))] (p @ ''s''),
        oper tout out_var ''exp'' [(''x='', Ref (p @ ''s''))] (p @ ''out'')],
      frag_input = in_var, frag_output = out_var, frag_side_input = '''', frag_weight_file = '''',
      frag_output_shape = out_s\<rparr>)))"

definition scatter_static_mask_fragment ::
  "int \<Rightarrow> int \<Rightarrow> string \<Rightarrow> string \<Rightarrow> string \<Rightarrow> string \<Rightarrow> MilFragment res" where
  "scatter_static_mask_fragment C SP base_var updates_var out_var mask_file = (
     let shape = mk_shape 1 C 1 SP in
     bind_res (validate shape) (\<lambda>_.
     let p = out_var @ ''_'' in
     let tt = tensor_type shape in
     let mref = blob_ref tt mask_file in
     Inr \<lparr>frag_body = [
        cst tt (p @ ''m'') mref,
        cst ''fp16'' (p @ ''one'') (Lit ''fp16(1.0)''),
        oper tt (p @ ''inv'') ''sub'' [(''x='', Ref (p @ ''one'')), (''y='', Ref (p @ ''m''))] (p @ ''inv''),
        oper tt (p @ ''xb'') ''mul'' [(''x='', Ref base_var), (''y='', Ref (p @ ''inv''))] (p @ ''xb''),
        oper tt (p @ ''uu'') ''mul'' [(''x='', Ref updates_var), (''y='', Ref (p @ ''m''))] (p @ ''uu''),
        oper tt out_var ''add'' [(''x='', Ref (p @ ''xb'')), (''y='', Ref (p @ ''uu''))] (p @ ''out'')],
      frag_input = base_var, frag_output = out_var, frag_side_input = updates_var, frag_weight_file = mask_file,
      frag_output_shape = shape\<rparr>))"

definition gather_static_mask_fragment ::
  "int \<Rightarrow> int \<Rightarrow> string \<Rightarrow> string \<Rightarrow> string \<Rightarrow> MilFragment res" where
  "gather_static_mask_fragment C SP in_var out_var mask_file = (
     let shape = mk_shape 1 C 1 SP in
     bind_res (validate shape) (\<lambda>_.
     let p = out_var @ ''_'' in
     let tt = tensor_type shape in
     let mref = blob_ref tt mask_file in
     Inr \<lparr>frag_body = [
        cst tt (p @ ''m'') mref,
        oper tt out_var ''mul'' [(''x='', Ref in_var), (''y='', Ref (p @ ''m''))] (p @ ''out'')],
      frag_input = in_var, frag_output = out_var, frag_side_input = '''', frag_weight_file = mask_file,
      frag_output_shape = shape\<rparr>))"

definition gather_dynamic_mask_fragment ::
  "int \<Rightarrow> int \<Rightarrow> string \<Rightarrow> string \<Rightarrow> string \<Rightarrow> MilFragment res" where
  "gather_dynamic_mask_fragment C SP in_var mask_var out_var = (
     let shape = mk_shape 1 C 1 SP in
     bind_res (validate shape) (\<lambda>_.
     let p = out_var @ ''_'' in
     let tt = tensor_type shape in
     Inr \<lparr>frag_body = [
        oper tt out_var ''mul'' [(''x='', Ref in_var), (''y='', Ref mask_var)] (p @ ''out'')],
      frag_input = in_var, frag_output = out_var, frag_side_input = mask_var, frag_weight_file = '''',
      frag_output_shape = shape\<rparr>))"

definition neg_fragment ::
  "int \<Rightarrow> int \<Rightarrow> string \<Rightarrow> string \<Rightarrow> MilFragment res" where
  "neg_fragment C SP in_var out_var = (
     let shape = mk_shape 1 C 1 SP in
     bind_res (validate shape) (\<lambda>_.
     let p = out_var @ ''_'' in
     let tt = tensor_type shape in
     Inr \<lparr>frag_body = [
        cst ''fp16'' (p @ ''n1'') (Lit ''fp16(-1.0)''),
        oper tt out_var ''mul'' [(''x='', Ref in_var), (''y='', Ref (p @ ''n1''))] (p @ ''out'')],
      frag_input = in_var, frag_output = out_var, frag_side_input = '''', frag_weight_file = '''',
      frag_output_shape = shape\<rparr>))"

definition mod_fragment ::
  "int \<Rightarrow> int \<Rightarrow> string \<Rightarrow> string \<Rightarrow> string \<Rightarrow> MilFragment res" where
  "mod_fragment C SP in_var side_var out_var = (
     let shape = mk_shape 1 C 1 SP in
     bind_res (validate shape) (\<lambda>_.
     let p = out_var @ ''_'' in
     let tt = tensor_type shape in
     Inr \<lparr>frag_body = [
        oper tt (p @ ''q'') ''floor_div'' [(''x='', Ref in_var), (''y='', Ref side_var)] (p @ ''q''),
        oper tt (p @ ''qy'') ''mul'' [(''x='', Ref (p @ ''q'')), (''y='', Ref side_var)] (p @ ''qy''),
        oper tt out_var ''sub'' [(''x='', Ref in_var), (''y='', Ref (p @ ''qy''))] (p @ ''out'')],
      frag_input = in_var, frag_output = out_var, frag_side_input = side_var, frag_weight_file = '''',
      frag_output_shape = shape\<rparr>))"

definition sinh_fragment ::
  "int \<Rightarrow> int \<Rightarrow> string \<Rightarrow> string \<Rightarrow> MilFragment res" where
  "sinh_fragment C SP in_var out_var = (
     let shape = mk_shape 1 C 1 SP in
     bind_res (validate shape) (\<lambda>_.
     let p = out_var @ ''_'' in
     let tt = tensor_type shape in
     Inr \<lparr>frag_body = [
        cst ''fp16'' (p @ ''n1'') (Lit ''fp16(-1.0)''),
        cst ''fp16'' (p @ ''h'') (Lit ''fp16(0.5)''),
        oper tt (p @ ''nx'') ''mul'' [(''x='', Ref in_var), (''y='', Ref (p @ ''n1''))] (p @ ''nx''),
        oper tt (p @ ''ex'') ''exp'' [(''x='', Ref in_var)] (p @ ''ex''),
        oper tt (p @ ''enx'') ''exp'' [(''x='', Ref (p @ ''nx''))] (p @ ''enx''),
        oper tt (p @ ''d'') ''sub'' [(''x='', Ref (p @ ''ex'')), (''y='', Ref (p @ ''enx''))] (p @ ''d''),
        oper tt out_var ''mul'' [(''x='', Ref (p @ ''d'')), (''y='', Ref (p @ ''h''))] (p @ ''out'')],
      frag_input = in_var, frag_output = out_var, frag_side_input = '''', frag_weight_file = '''',
      frag_output_shape = shape\<rparr>))"

definition cosh_fragment ::
  "int \<Rightarrow> int \<Rightarrow> string \<Rightarrow> string \<Rightarrow> MilFragment res" where
  "cosh_fragment C SP in_var out_var = (
     let shape = mk_shape 1 C 1 SP in
     bind_res (validate shape) (\<lambda>_.
     let p = out_var @ ''_'' in
     let tt = tensor_type shape in
     Inr \<lparr>frag_body = [
        cst ''fp16'' (p @ ''n1'') (Lit ''fp16(-1.0)''),
        cst ''fp16'' (p @ ''h'') (Lit ''fp16(0.5)''),
        oper tt (p @ ''nx'') ''mul'' [(''x='', Ref in_var), (''y='', Ref (p @ ''n1''))] (p @ ''nx''),
        oper tt (p @ ''ex'') ''exp'' [(''x='', Ref in_var)] (p @ ''ex''),
        oper tt (p @ ''enx'') ''exp'' [(''x='', Ref (p @ ''nx''))] (p @ ''enx''),
        oper tt (p @ ''s'') ''add'' [(''x='', Ref (p @ ''ex'')), (''y='', Ref (p @ ''enx''))] (p @ ''s''),
        oper tt out_var ''mul'' [(''x='', Ref (p @ ''s'')), (''y='', Ref (p @ ''h''))] (p @ ''out'')],
      frag_input = in_var, frag_output = out_var, frag_side_input = '''', frag_weight_file = '''',
      frag_output_shape = shape\<rparr>))"

definition tan_fragment ::
  "int \<Rightarrow> int \<Rightarrow> string \<Rightarrow> string \<Rightarrow> MilFragment res" where
  "tan_fragment C SP in_var out_var = (
     let shape = mk_shape 1 C 1 SP in
     bind_res (validate shape) (\<lambda>_.
     let p = out_var @ ''_'' in
     let tt = tensor_type shape in
     Inr \<lparr>frag_body = [
        cst ''fp16'' (p @ ''eps'') (Lit ''fp16(0x1.0cp-17)''),
        oper tt (p @ ''sx'') ''sin'' [(''x='', Ref in_var)] (p @ ''sx''),
        oper tt (p @ ''cx'') ''cos'' [(''x='', Ref in_var)] (p @ ''cx''),
        oper tt (p @ ''cxe'') ''add'' [(''x='', Ref (p @ ''cx'')), (''y='', Ref (p @ ''eps''))] (p @ ''cxe''),
        oper tt out_var ''real_div'' [(''x='', Ref (p @ ''sx'')), (''y='', Ref (p @ ''cxe''))] (p @ ''out'')],
      frag_input = in_var, frag_output = out_var, frag_side_input = '''', frag_weight_file = '''',
      frag_output_shape = shape\<rparr>))"

definition asin_fragment ::
  "int \<Rightarrow> int \<Rightarrow> string \<Rightarrow> string \<Rightarrow> MilFragment res" where
  "asin_fragment C SP in_var out_var = (
     let shape = mk_shape 1 C 1 SP in
     bind_res (validate shape) (\<lambda>_.
     let p = out_var @ ''_'' in
     let tt = tensor_type shape in
     Inr \<lparr>frag_body = [
        cst ''fp16'' (p @ ''one'') (Lit ''fp16(1.0)''),
        cst ''fp16'' (p @ ''eps'') (Lit ''fp16(0x1.0cp-17)''),
        oper tt (p @ ''xsq'') ''mul'' [(''x='', Ref in_var), (''y='', Ref in_var)] (p @ ''xsq''),
        oper tt (p @ ''d2'') ''sub'' [(''x='', Ref (p @ ''one'')), (''y='', Ref (p @ ''xsq''))] (p @ ''d2''),
        oper tt (p @ ''d2e'') ''add'' [(''x='', Ref (p @ ''d2'')), (''y='', Ref (p @ ''eps''))] (p @ ''d2e''),
        oper tt (p @ ''d'') ''sqrt'' [(''x='', Ref (p @ ''d2e''))] (p @ ''d''),
        oper tt (p @ ''r'') ''real_div'' [(''x='', Ref in_var), (''y='', Ref (p @ ''d''))] (p @ ''r''),
        oper tt out_var ''atan'' [(''x='', Ref (p @ ''r''))] (p @ ''out'')],
      frag_input = in_var, frag_output = out_var, frag_side_input = '''', frag_weight_file = '''',
      frag_output_shape = shape\<rparr>))"

definition acos_fragment ::
  "int \<Rightarrow> int \<Rightarrow> string \<Rightarrow> string \<Rightarrow> MilFragment res" where
  "acos_fragment C SP in_var out_var = (
     let shape = mk_shape 1 C 1 SP in
     bind_res (validate shape) (\<lambda>_.
     let p = out_var @ ''_'' in
     let tt = tensor_type shape in
     Inr \<lparr>frag_body = [
        cst ''fp16'' (p @ ''hp'') (Lit ''fp16(1.5703125)''),
        cst ''fp16'' (p @ ''one'') (Lit ''fp16(1.0)''),
        cst ''fp16'' (p @ ''eps'') (Lit ''fp16(0x1.0cp-17)''),
        oper tt (p @ ''xsq'') ''mul'' [(''x='', Ref in_var), (''y='', Ref in_var)] (p @ ''xsq''),
        oper tt (p @ ''d2'') ''sub'' [(''x='', Ref (p @ ''one'')), (''y='', Ref (p @ ''xsq''))] (p @ ''d2''),
        oper tt (p @ ''d2e'') ''add'' [(''x='', Ref (p @ ''d2'')), (''y='', Ref (p @ ''eps''))] (p @ ''d2e''),
        oper tt (p @ ''d'') ''sqrt'' [(''x='', Ref (p @ ''d2e''))] (p @ ''d''),
        oper tt (p @ ''r'') ''real_div'' [(''x='', Ref in_var), (''y='', Ref (p @ ''d''))] (p @ ''r''),
        oper tt (p @ ''asv'') ''atan'' [(''x='', Ref (p @ ''r''))] (p @ ''asv''),
        oper tt out_var ''sub'' [(''x='', Ref (p @ ''hp'')), (''y='', Ref (p @ ''asv''))] (p @ ''out'')],
      frag_input = in_var, frag_output = out_var, frag_side_input = '''', frag_weight_file = '''',
      frag_output_shape = shape\<rparr>))"

definition sub_fragment ::
  "int \<Rightarrow> int \<Rightarrow> string \<Rightarrow> string \<Rightarrow> string \<Rightarrow> MilFragment res" where
  "sub_fragment C SP in_var side_var out_var = (
     let shape = mk_shape 1 C 1 SP in
     bind_res (validate shape) (\<lambda>_.
     let p = out_var @ ''_'' in
     let tt = tensor_type shape in
     Inr \<lparr>frag_body = [
        oper tt out_var ''sub'' [(''x='', Ref in_var), (''y='', Ref side_var)] (p @ ''sub'')],
      frag_input = in_var, frag_output = out_var, frag_side_input = side_var, frag_weight_file = '''',
      frag_output_shape = shape\<rparr>))"

definition real_div_fragment ::
  "int \<Rightarrow> int \<Rightarrow> string \<Rightarrow> string \<Rightarrow> string \<Rightarrow> MilFragment res" where
  "real_div_fragment C SP in_var side_var out_var = (
     let shape = mk_shape 1 C 1 SP in
     bind_res (validate shape) (\<lambda>_.
     let p = out_var @ ''_'' in
     let tt = tensor_type shape in
     Inr \<lparr>frag_body = [
        oper tt out_var ''real_div'' [(''x='', Ref in_var), (''y='', Ref side_var)] (p @ ''rdiv'')],
      frag_input = in_var, frag_output = out_var, frag_side_input = side_var, frag_weight_file = '''',
      frag_output_shape = shape\<rparr>))"

definition sqrt_fragment ::
  "int \<Rightarrow> int \<Rightarrow> string \<Rightarrow> string \<Rightarrow> MilFragment res" where
  "sqrt_fragment C SP in_var out_var = (
     let shape = mk_shape 1 C 1 SP in
     bind_res (validate shape) (\<lambda>_.
     let p = out_var @ ''_'' in
     let tt = tensor_type shape in
     Inr \<lparr>frag_body = [
        oper tt out_var ''sqrt'' [(''x='', Ref in_var)] (p @ ''sqrt'')],
      frag_input = in_var, frag_output = out_var, frag_side_input = '''', frag_weight_file = '''',
      frag_output_shape = shape\<rparr>))"

definition log_fragment ::
  "int \<Rightarrow> int \<Rightarrow> string \<Rightarrow> string \<Rightarrow> MilFragment res" where
  "log_fragment C SP in_var out_var = (
     let shape = mk_shape 1 C 1 SP in
     bind_res (validate shape) (\<lambda>_.
     let p = out_var @ ''_'' in
     let tt = tensor_type shape in
     Inr \<lparr>frag_body = [
        cst ''fp16'' (p @ ''eps'') (Lit ''fp16(0x1.0cp-17)''),
        oper tt out_var ''log'' [(''epsilon='', Ref (p @ ''eps'')), (''x='', Ref in_var)] (p @ ''log'')],
      frag_input = in_var, frag_output = out_var, frag_side_input = '''', frag_weight_file = '''',
      frag_output_shape = shape\<rparr>))"

definition rsqrt_fragment ::
  "int \<Rightarrow> int \<Rightarrow> string \<Rightarrow> string \<Rightarrow> MilFragment res" where
  "rsqrt_fragment C SP in_var out_var = (
     let shape = mk_shape 1 C 1 SP in
     bind_res (validate shape) (\<lambda>_.
     let p = out_var @ ''_'' in
     let tt = tensor_type shape in
     Inr \<lparr>frag_body = [
        cst ''fp16'' (p @ ''eps'') (Lit ''fp16(0x1.0cp-17)''),
        oper tt out_var ''rsqrt'' [(''epsilon='', Ref (p @ ''eps'')), (''x='', Ref in_var)] (p @ ''rsqrt'')],
      frag_input = in_var, frag_output = out_var, frag_side_input = '''', frag_weight_file = '''',
      frag_output_shape = shape\<rparr>))"

definition concat_fragment ::
  "int \<Rightarrow> int \<Rightarrow> int \<Rightarrow> string \<Rightarrow> string \<Rightarrow> string \<Rightarrow> MilFragment res" where
  "concat_fragment in0_C in1_C SP in_var side_var out_var = (
     if \<not> int32_ok (in0_C + in1_C) then Inl (Undefined_behaviour ''signed overflow'') else
     let out_s = mk_shape 1 (in0_C + in1_C) 1 SP in
     bind_res (validate out_s) (\<lambda>_.
     let p = out_var @ ''_'' in
     let tout = tensor_type out_s in
     Inr \<lparr>frag_body = [
        cst ''int32'' (p @ ''ax'') (Lit ''int32(1)''),
        cst ''bool'' (p @ ''id'') (Lit ''bool(false)''),
        oper tout out_var ''concat'' [(''axis='', Ref (p @ ''ax'')), (''interleave='', Ref (p @ ''id'')), (''values='', Refs [in_var, side_var])] (p @ ''cat'')],
      frag_input = in_var, frag_output = out_var, frag_side_input = side_var, frag_weight_file = '''',
      frag_output_shape = out_s\<rparr>))"

definition slice_by_index_fragment ::
  "int \<Rightarrow> int \<Rightarrow> int \<Rightarrow> int \<Rightarrow> string \<Rightarrow> string \<Rightarrow> MilFragment res" where
  "slice_by_index_fragment in_C in_SP out_C out_SP in_var out_var = (
     let out_s = mk_shape 1 out_C 1 out_SP in
     bind_res (validate out_s) (\<lambda>_.
     if out_C > in_C \<or> out_SP > in_SP then Inl (Invalid_argument ''slice_by_index_fragment: output shape must be <= input shape'') else
     let p = out_var @ ''_'' in
     let tout = tensor_type out_s in
     Inr \<lparr>frag_body = [
        cst ''tensor<int32, [4]>'' (p @ ''bg'') (Lit ''tensor<int32, [4]>([0,0,0,0])''),
        cst ''tensor<int32, [4]>'' (p @ ''ed'') (Lit (''tensor<int32, [4]>([1,'' @ to_string out_C @ '',1,'' @ to_string out_SP @ ''])'')),
        cst ''tensor<int32, [4]>'' (p @ ''st'') (Lit ''tensor<int32, [4]>([1,1,1,1])''),
        oper tout out_var ''slice_by_index'' [(''begin='', Ref (p @ ''bg'')), (''end='', Ref (p @ ''ed'')), (''strides='', Ref (p @ ''st'')),
           (''x='', Ref in_var)] (p @ ''sbi'')],
      frag_input = in_var, frag_output = out_var, frag_side_input = '''', frag_weight_file = '''',
      frag_output_shape = out_s\<rparr>))"

definition reduce_sum_fragment ::
  "int \<Rightarrow> int \<Rightarrow> string \<Rightarrow> string \<Rightarrow> MilFragment res" where
  "reduce_sum_fragment in_C SP in_var out_var = (
     let out_s = mk_shape 1 1 1 SP in
     bind_res (validate out_s) (\<lambda>_.
     let p = out_var @ ''_'' in
     let tout = tensor_type out_s in
     Inr \<lparr>frag_body = [
        cst ''tensor<int32, [1]>'' (p @ ''ax'') (Lit ''tensor<int32, [1]>([1])''),
        cst ''bool'' (p @ ''kd'') (Lit ''bool(true)''),
        oper tout out_var ''reduce_sum'' [(''x='', Ref in_var), (''axes='', Ref (p @ ''ax'')), (''keep_dims='', Ref (p @ ''kd''))] (p @ ''rs'')],
      frag_input = in_var, frag_output = out_var, frag_side_input = '''', frag_weight_file = '''',
      frag_output_shape = out_s\<rparr>))"

definition reduce_mean_fragment ::
  "int \<Rightarrow> int \<Rightarrow> string \<Rightarrow> string \<Rightarrow> MilFragment res" where
  "reduce_mean_fragment in_C SP in_var out_var = (
     let out_s = mk_shape 1 1 1 SP in
     bind_res (validate out_s) (\<lambda>_.
     let p = out_var @ ''_'' in
     let tout = tensor_type out_s in
     Inr \<lparr>frag_body = [
        cst ''tensor<int32, [1]>'' (p @ ''ax'') (Lit ''tensor<int32, [1]>([1])''),
        cst ''bool'' (p @ ''kd'') (Lit ''bool(true)''),
        oper tout out_var ''reduce_mean'' [(''x='', Ref in_var), (''axes='', Ref (p @ ''ax'')), (''keep_dims='', Ref (p @ ''kd''))] (p @ ''rm'')],
      frag_input = in_var, frag_output = out_var, frag_side_input = '''', frag_weight_file = '''',
      frag_output_shape = out_s\<rparr>))"

definition reduce_max_fragment ::
  "int \<Rightarrow> int \<Rightarrow> string \<Rightarrow> string \<Rightarrow> MilFragment res" where
  "reduce_max_fragment in_C SP in_var out_var = (
     let out_s = mk_shape 1 1 1 SP in
     bind_res (validate out_s) (\<lambda>_.
     let p = out_var @ ''_'' in
     let tout = tensor_type out_s in
     Inr \<lparr>frag_body = [
        cst ''tensor<int32, [1]>'' (p @ ''ax'') (Lit ''tensor<int32, [1]>([1])''),
        cst ''bool'' (p @ ''kd'') (Lit ''bool(true)''),
        oper tout out_var ''reduce_max'' [(''x='', Ref in_var), (''axes='', Ref (p @ ''ax'')), (''keep_dims='', Ref (p @ ''kd''))] (p @ ''rmax'')],
      frag_input = in_var, frag_output = out_var, frag_side_input = '''', frag_weight_file = '''',
      frag_output_shape = out_s\<rparr>))"

definition select_fragment ::
  "int \<Rightarrow> int \<Rightarrow> string \<Rightarrow> string \<Rightarrow> string \<Rightarrow> string \<Rightarrow> MilFragment res" where
  "select_fragment C SP cond_var x_var y_var out_var = (
     let shape = mk_shape 1 C 1 SP in
     bind_res (validate shape) (\<lambda>_.
     let p = out_var @ ''_'' in
     let tt = tensor_type shape in
     let tb = ''tensor<bool, [1, '' @ to_string C @ '', 1, '' @ to_string SP @ '']>'' in
     Inr \<lparr>frag_body = [
        oper tb (p @ ''cb'') ''cast'' [(''x='', Ref cond_var), (''dtype='', Text (''string('' @ dq @ ''bool'' @ dq @ '')''))] (p @ ''cb''),
        oper tt out_var ''select'' [(''cond='', Ref (p @ ''cb'')), (''a='', Ref x_var), (''b='', Ref y_var)] (p @ ''sel'')],
      frag_input = cond_var, frag_output = out_var, frag_side_input = x_var, frag_weight_file = '''',
      frag_output_shape = shape\<rparr>))"

definition transpose_fragment ::
  "int \<Rightarrow> int \<Rightarrow> string \<Rightarrow> string \<Rightarrow> MilFragment res" where
  "transpose_fragment C SP in_var out_var = (
     let in_s = mk_shape 1 C 1 SP in
     let out_s = mk_shape 1 SP 1 C in
     bind_res (validate in_s) (\<lambda>_.
     bind_res (validate out_s) (\<lambda>_.
     let p = out_var @ ''_'' in
     let tout = tensor_type out_s in
     Inr \<lparr>frag_body = [
        cst ''tensor<int32, [4]>'' (p @ ''perm'') (Lit ''tensor<int32, [4]>([0,3,2,1])''),
        oper tout out_var ''transpose'' [(''perm='', Ref (p @ ''perm'')), (''x='', Ref in_var)] (p @ ''tr'')],
      frag_input = in_var, frag_output = out_var, frag_side_input = '''', frag_weight_file = '''',
      frag_output_shape = out_s\<rparr>)))"

definition reshape_fragment ::
  "int \<Rightarrow> int \<Rightarrow> int \<Rightarrow> int \<Rightarrow> string \<Rightarrow> string \<Rightarrow> MilFragment res" where
  "reshape_fragment in_C in_SP out_C out_SP in_var out_var = (
     let in_s = mk_shape 1 in_C 1 in_SP in
     let out_s = mk_shape 1 out_C 1 out_SP in
     bind_res (validate in_s) (\<lambda>_.
     bind_res (validate out_s) (\<lambda>_.
     if numel in_s \<noteq> numel out_s then Inl (Invalid_argument ''reshape_fragment: input and output must have identical element counts'') else
     let p = out_var @ ''_'' in
     let tout = tensor_type out_s in
     Inr \<lparr>frag_body = [
        cst ''tensor<int32, [4]>'' (p @ ''shape'') (Lit (''tensor<int32, [4]>([1,'' @ to_string out_C @ '',1,'' @ to_string out_SP @ ''])'')),
        oper tout out_var ''reshape'' [(''shape='', Ref (p @ ''shape'')), (''x='', Ref in_var)] (p @ ''rs'')],
      frag_input = in_var, frag_output = out_var, frag_side_input = '''', frag_weight_file = '''',
      frag_output_shape = out_s\<rparr>)))"

definition relu_fragment ::
  "int \<Rightarrow> int \<Rightarrow> string \<Rightarrow> string \<Rightarrow> MilFragment res" where
  "relu_fragment C SP in_var out_var = (
     let shape = mk_shape 1 C 1 SP in
     bind_res (validate shape) (\<lambda>_.
     let p = out_var @ ''_'' in
     let tt = tensor_type shape in
     Inr \<lparr>frag_body = [
        oper tt out_var ''relu'' [(''x='', Ref in_var)] (p @ ''relu'')],
      frag_input = in_var, frag_output = out_var, frag_side_input = '''', frag_weight_file = '''',
      frag_output_shape = shape\<rparr>))"

definition tanh_fragment ::
  "int \<Rightarrow> int \<Rightarrow> string \<Rightarrow> string \<Rightarrow> MilFragment res" where
  "tanh_fragment C SP in_var out_var = (
     let shape = mk_shape 1 C 1 SP in
     bind_res (validate shape) (\<lambda>_.
     let p = out_var @ ''_'' in
     let tt = tensor_type shape in
     Inr \<lparr>frag_body = [
        oper tt out_var ''tanh'' [(''x='', Ref in_var)] (p @ ''tanh'')],
      frag_input = in_var, frag_output = out_var, frag_side_input = '''', frag_weight_file = '''',
      frag_output_shape = shape\<rparr>))"

definition sigmoid_fragment ::
  "int \<Rightarrow> int \<Rightarrow> string \<Rightarrow> string \<Rightarrow> MilFragment res" where
  "sigmoid_fragment C SP in_var out_var = (
     let shape = mk_shape 1 C 1 SP in
     bind_res (validate shape) (\<lambda>_.
     let p = out_var @ ''_'' in
     let tt = tensor_type shape in
     Inr \<lparr>frag_body = [
        oper tt out_var ''sigmoid'' [(''x='', Ref in_var)] (p @ ''sig'')],
      frag_input = in_var, frag_output = out_var, frag_side_input = '''', frag_weight_file = '''',
      frag_output_shape = shape\<rparr>))"

definition hardswish_fragment ::
  "int \<Rightarrow> int \<Rightarrow> string \<Rightarrow> string \<Rightarrow> MilFragment res" where
  "hardswish_fragment C SP in_var out_var = (
     let shape = mk_shape 1 C 1 SP in
     bind_res (validate shape) (\<lambda>_.
     let p = out_var @ ''_'' in
     let tt = tensor_type shape in
     Inr \<lparr>frag_body = [
        Const ''fp16'' (p @ ''c3'') ''  '' (Lit ''fp16(3.0)'') ''  '',
        Const ''fp16'' (p @ ''c6'') ''  '' (Lit ''fp16(6.0)'') ''  '',
        cst ''fp16'' (p @ ''inv6'') (Lit ''fp16(0.16667)''),
        Oper tt (p @ ''sh'') '' '' ''add'' [(''x='', Ref in_var), (''y='', Ref (p @ ''c3''))] (p @ ''sh''),
        Oper tt (p @ ''r1'') '' '' ''relu'' [(''x='', Ref (p @ ''sh''))] (p @ ''r1''),
        oper tt (p @ ''sh2'') ''add'' [(''x='', Ref in_var), (''y='', Ref (p @ ''c3''))] (p @ ''sh2''),
        Oper tt (p @ ''d6'') '' '' ''sub'' [(''x='', Ref (p @ ''sh2'')), (''y='', Ref (p @ ''c6''))] (p @ ''d6''),
        Oper tt (p @ ''r2'') '' '' ''relu'' [(''x='', Ref (p @ ''d6''))] (p @ ''r2''),
        Oper tt (p @ ''cl'') '' '' ''sub'' [(''x='', Ref (p @ ''r1'')), (''y='', Ref (p @ ''r2''))] (p @ ''cl''),
        Oper tt (p @ ''sc'') '' '' ''mul'' [(''x='', Ref (p @ ''cl'')), (''y='', Ref (p @ ''inv6''))] (p @ ''sc''),
        oper tt out_var ''mul'' [(''x='', Ref in_var), (''y='', Ref (p @ ''sc''))] (p @ ''hsw'')],
      frag_input = in_var, frag_output = out_var, frag_side_input = '''', frag_weight_file = '''',
      frag_output_shape = shape\<rparr>))"

definition leaky_relu_fragment ::
  "int \<Rightarrow> int \<Rightarrow> string \<Rightarrow> string \<Rightarrow> MilFragment res" where
  "leaky_relu_fragment C SP in_var out_var = (
     let shape = mk_shape 1 C 1 SP in
     bind_res (validate shape) (\<lambda>_.
     let p = out_var @ ''_'' in
     let tt = tensor_type shape in
     Inr \<lparr>frag_body = [
        cst ''fp16'' (p @ ''alpha'') (Lit ''fp16(0.01)''),
        oper tt out_var ''leaky_relu'' [(''alpha='', Ref (p @ ''alpha'')), (''x='', Ref in_var)] (p @ ''lrelu'')],
      frag_input = in_var, frag_output = out_var, frag_side_input = '''', frag_weight_file = '''',
      frag_output_shape = shape\<rparr>))"

definition elu_fragment ::
  "int \<Rightarrow> int \<Rightarrow> string \<Rightarrow> string \<Rightarrow> MilFragment res" where
  "elu_fragment C SP in_var out_var = (
     let shape = mk_shape 1 C 1 SP in
     bind_res (validate shape) (\<lambda>_.
     let p = out_var @ ''_'' in
     let tt = tensor_type shape in
     let tb = ''tensor<bool, [1, '' @ to_string C @ '', 1, '' @ to_string SP @ '']>'' in
     Inr \<lparr>frag_body = [
        cst ''fp16'' (p @ ''zero'') (Lit ''fp16(0.0)''),
        Const ''fp16'' (p @ ''one'') '' '' (Lit ''fp16(1.0)'') '' '',
        oper tb (p @ ''mask'') ''greater'' [(''x='', Ref in_var), (''y='', Ref (p @ ''zero''))] (p @ ''mask''),
        Oper tt (p @ ''ex'') ''  '' ''exp'' [(''x='', Ref in_var)] (p @ ''ex''),
        Oper tt (p @ ''em1'') '' '' ''sub'' [(''x='', Ref (p @ ''ex'')), (''y='', Ref (p @ ''one''))] (p @ ''em1''),
        oper tt out_var ''select'' [(''cond='', Ref (p @ ''mask'')), (''a='', Ref in_var), (''b='', Ref (p @ ''em1''))] (p @ ''elu'')],
      frag_input = in_var, frag_output = out_var, frag_side_input = '''', frag_weight_file = '''',
      frag_output_shape = shape\<rparr>))"

definition pixel_shuffle_fragment ::
  "int \<Rightarrow> int \<Rightarrow> int \<Rightarrow> string \<Rightarrow> string \<Rightarrow> MilFragment res" where
  "pixel_shuffle_fragment out_C in_SP r in_var out_var = (
     if r \<le> 0 then Inl (Invalid_argument ''pixel_shuffle_fragment: upscale_factor must be > 0'') else
     if \<not> int32_ok (out_C * r) then Inl (Undefined_behaviour ''signed overflow'') else
     let in_C = out_C * r in
     if \<not> int32_ok (in_SP * r) then Inl (Undefined_behaviour ''signed overflow'') else
     let out_SP = in_SP * r in
     let in_shape = mk_shape 1 in_C 1 in_SP in
     let out_shape = mk_shape 1 out_C 1 out_SP in
     bind_res (validate in_shape) (\<lambda>_.
     bind_res (validate out_shape) (\<lambda>_.
     let p = out_var @ ''_'' in
     let tin = tensor_type in_shape in
     let tout = tensor_type out_shape in
     Inr \<lparr>frag_body = [
        cst ''tensor<int32, [4]>'' (p @ ''sh1'') (Lit (''tensor<int32, [4]>([1,'' @ to_string out_C @ '','' @ to_string r @ '','' @ to_string in_SP @ ''])'')),
        oper (''tensor<fp16, [1, '' @ to_string out_C @ '', '' @ to_string r @ '', '' @ to_string in_SP @ '']>'') (p @ ''r1'') ''reshape'' [(''shape='', Ref (p @ ''sh1'')), (''x='', Ref in_var)] (p @ ''r1''),
        cst ''tensor<int32, [4]>'' (p @ ''pm'') (Lit ''tensor<int32, [4]>([0,1,3,2])''),
        oper (''tensor<fp16, [1, '' @ to_string out_C @ '', '' @ to_string in_SP @ '', '' @ to_string r @ '']>'') (p @ ''tr'') ''transpose'' [(''perm='', Ref (p @ ''pm'')), (''x='', Ref (p @ ''r1''))] (p @ ''tr''),
        cst ''tensor<int32, [4]>'' (p @ ''sh2'') (Lit (''tensor<int32, [4]>([1,'' @ to_string out_C @ '',1,'' @ to_string out_SP @ ''])'')),
        oper tout out_var ''reshape'' [(''shape='', Ref (p @ ''sh2'')), (''x='', Ref (p @ ''tr''))] (p @ ''ps'')],
      frag_input = in_var, frag_output = out_var, frag_side_input = '''', frag_weight_file = '''',
      frag_output_shape = out_shape\<rparr>)))"

section \<open>Well-formed fragments\<close>

named_theorems frag_rules \<open>well-formedness of the emitted fragments\<close>

lemma validate_bind_Inr: "bind_res (validate s) (\<lambda>_. r) = Inr x \<longleftrightarrow> shape_ok s \<and> r = Inr x"
  by (auto simp: bind_res_Inr)

lemma guard_Inr: "(if c then Inl e else r) = Inr x \<longleftrightarrow> \<not> c \<and> r = Inr x"
  by simp

lemmas emit_simps = Let_def validate_bind_Inr guard_Inr sum.inject

definition fresh_for :: "string \<Rightarrow> string set \<Rightarrow> bool" where
  "fresh_for out S \<longleftrightarrow> out \<notin> S \<and> (\<forall>x. out @ ''_'' @ x \<notin> S)"

definition own :: "string \<Rightarrow> string set" where
  "own out = insert out (range (\<lambda>x. out @ ''_'' @ x))"

definition compact_type :: "TensorShape \<Rightarrow> string" where
  "compact_type s = ''tensor<fp16, [1,'' @ to_string (channels s) @ '',1,'' @ to_string (seq s) @ '']>''"

definition frag_wf :: "string set \<Rightarrow> MilFragment \<Rightarrow> bool" where
  "frag_wf S fr \<longleftrightarrow> scoped S (frag_body fr) \<and> defs (frag_body fr) \<subseteq> own (frag_output fr)
     \<and> distinct (map stmt_label (frag_body fr)) \<and> set (map stmt_label (frag_body fr)) \<subseteq> own (frag_output fr)
     \<and> frag_body fr \<noteq> [] \<and> stmt_def (last (frag_body fr)) = frag_output fr
     \<and> stmt_type (last (frag_body fr)) \<in> {tensor_type (frag_output_shape fr), compact_type (frag_output_shape fr)}
     \<and> shape_ok (frag_output_shape fr)"

lemma own_simps [simp]: "out \<in> own out" "out @ CHR ''_'' # x \<in> own out"
  by (auto simp: own_def)

lemma freshD: "fresh_for out S \<Longrightarrow> out \<notin> S" "fresh_for out S \<Longrightarrow> out @ CHR ''_'' # x \<notin> S"
  by (auto simp: fresh_for_def)

lemma matmul_fragment_wf [frag_rules]:
  assumes "matmul_fragment IC OC SP in_var out_var weight_file = Inr fr" "in_var \<in> S" "fresh_for out_var S"
  shows "frag_wf S fr \<and> frag_output fr = out_var"
  using assms(1) unfolding matmul_fragment_def emit_simps
  by (elim exE conjE, hypsubst) (use assms(2) freshD [OF assms(3)] in \<open>simp add: frag_wf_def compact_type_def\<close>)

lemma rmsnorm_fragment_wf [frag_rules]:
  assumes "rmsnorm_fragment C SP in_var out_var scale_file inv_lit = Inr fr" "in_var \<in> S" "fresh_for out_var S"
  shows "frag_wf S fr \<and> frag_output fr = out_var"
  using assms(1) unfolding rmsnorm_fragment_def emit_simps
  by (elim exE conjE, hypsubst) (use assms(2) freshD [OF assms(3)] in \<open>simp add: frag_wf_def compact_type_def\<close>)

lemma layernorm_fragment_wf [frag_rules]:
  assumes "layernorm_fragment C SP in_var out_var gamma_file beta_file eps_lit = Inr fr" "in_var \<in> S" "fresh_for out_var S"
  shows "frag_wf S fr \<and> frag_output fr = out_var"
  using assms(1) unfolding layernorm_fragment_def emit_simps
  by (elim exE conjE, hypsubst) (use assms(2) freshD [OF assms(3)] in \<open>simp add: frag_wf_def compact_type_def\<close>)

lemma gelu_fragment_wf [frag_rules]:
  assumes "gelu_fragment C SP in_var out_var = Inr fr" "in_var \<in> S" "fresh_for out_var S"
  shows "frag_wf S fr \<and> frag_output fr = out_var"
  using assms(1) unfolding gelu_fragment_def emit_simps
  by (elim exE conjE, hypsubst) (use assms(2) freshD [OF assms(3)] in \<open>simp add: frag_wf_def compact_type_def\<close>)

lemma silu_fragment_wf [frag_rules]:
  assumes "silu_fragment C SP in_var out_var = Inr fr" "in_var \<in> S" "fresh_for out_var S"
  shows "frag_wf S fr \<and> frag_output fr = out_var"
  using assms(1) unfolding silu_fragment_def emit_simps
  by (elim exE conjE, hypsubst) (use assms(2) freshD [OF assms(3)] in \<open>simp add: frag_wf_def compact_type_def\<close>)

lemma softmax_fragment_wf [frag_rules]:
  assumes "softmax_fragment C SP in_var out_var = Inr fr" "in_var \<in> S" "fresh_for out_var S"
  shows "frag_wf S fr \<and> frag_output fr = out_var"
  using assms(1) unfolding softmax_fragment_def emit_simps
  by (elim exE conjE, hypsubst) (use assms(2) freshD [OF assms(3)] in \<open>simp add: frag_wf_def compact_type_def\<close>)

lemma avg_pool_fragment_wf [frag_rules]:
  assumes "avg_pool_fragment C SP in_var out_var = Inr fr" "in_var \<in> S" "fresh_for out_var S"
  shows "frag_wf S fr \<and> frag_output fr = out_var"
  using assms(1) unfolding avg_pool_fragment_def emit_simps
  by (elim exE conjE, hypsubst) (use assms(2) freshD [OF assms(3)] in \<open>simp add: frag_wf_def compact_type_def\<close>)

lemma max_pool_fragment_wf [frag_rules]:
  assumes "max_pool_fragment C SP in_var out_var = Inr fr" "in_var \<in> S" "fresh_for out_var S"
  shows "frag_wf S fr \<and> frag_output fr = out_var"
  using assms(1) unfolding max_pool_fragment_def emit_simps
  by (elim exE conjE, hypsubst) (use assms(2) freshD [OF assms(3)] in \<open>simp add: frag_wf_def compact_type_def\<close>)

lemma add_fragment_wf [frag_rules]:
  assumes "add_fragment C SP in_var side_var out_var = Inr fr" "in_var \<in> S" "side_var \<in> S" "fresh_for out_var S"
  shows "frag_wf S fr \<and> frag_output fr = out_var"
  using assms(1) unfolding add_fragment_def emit_simps
  by (elim exE conjE, hypsubst) (use assms(2-3) freshD [OF assms(4)] in \<open>simp add: frag_wf_def compact_type_def\<close>)

lemma mul_fragment_wf [frag_rules]:
  assumes "mul_fragment C SP in_var side_var out_var = Inr fr" "in_var \<in> S" "side_var \<in> S" "fresh_for out_var S"
  shows "frag_wf S fr \<and> frag_output fr = out_var"
  using assms(1) unfolding mul_fragment_def emit_simps
  by (elim exE conjE, hypsubst) (use assms(2-3) freshD [OF assms(4)] in \<open>simp add: frag_wf_def compact_type_def\<close>)

lemma logical_and_fragment_wf [frag_rules]:
  assumes "logical_and_fragment C SP in_var side_var out_var = Inr fr" "in_var \<in> S" "side_var \<in> S" "fresh_for out_var S"
  shows "frag_wf S fr \<and> frag_output fr = out_var"
  using assms(1) unfolding logical_and_fragment_def emit_simps
  by (elim exE conjE, hypsubst) (use assms(2-3) freshD [OF assms(4)] in \<open>simp add: frag_wf_def compact_type_def\<close>)

lemma logical_or_fragment_wf [frag_rules]:
  assumes "logical_or_fragment C SP in_var side_var out_var = Inr fr" "in_var \<in> S" "side_var \<in> S" "fresh_for out_var S"
  shows "frag_wf S fr \<and> frag_output fr = out_var"
  using assms(1) unfolding logical_or_fragment_def emit_simps
  by (elim exE conjE, hypsubst) (use assms(2-3) freshD [OF assms(4)] in \<open>simp add: frag_wf_def compact_type_def\<close>)

lemma logical_xor_fragment_wf [frag_rules]:
  assumes "logical_xor_fragment C SP in_var side_var out_var = Inr fr" "in_var \<in> S" "side_var \<in> S" "fresh_for out_var S"
  shows "frag_wf S fr \<and> frag_output fr = out_var"
  using assms(1) unfolding logical_xor_fragment_def emit_simps
  by (elim exE conjE, hypsubst) (use assms(2-3) freshD [OF assms(4)] in \<open>simp add: frag_wf_def compact_type_def\<close>)

lemma reduce_prod_fragment_wf [frag_rules]:
  assumes "reduce_prod_fragment C SP in_var out_var = Inr fr" "in_var \<in> S" "fresh_for out_var S"
  shows "frag_wf S fr \<and> frag_output fr = out_var"
  using assms(1) unfolding reduce_prod_fragment_def emit_simps
  by (elim exE conjE, hypsubst) (use assms(2) freshD [OF assms(3)] in \<open>simp add: frag_wf_def compact_type_def\<close>)

lemma scatter_static_mask_fragment_wf [frag_rules]:
  assumes "scatter_static_mask_fragment C SP base_var updates_var out_var mask_file = Inr fr" "base_var \<in> S" "updates_var \<in> S" "fresh_for out_var S"
  shows "frag_wf S fr \<and> frag_output fr = out_var"
  using assms(1) unfolding scatter_static_mask_fragment_def emit_simps
  by (elim exE conjE, hypsubst) (use assms(2-3) freshD [OF assms(4)] in \<open>simp add: frag_wf_def compact_type_def\<close>)

lemma gather_static_mask_fragment_wf [frag_rules]:
  assumes "gather_static_mask_fragment C SP in_var out_var mask_file = Inr fr" "in_var \<in> S" "fresh_for out_var S"
  shows "frag_wf S fr \<and> frag_output fr = out_var"
  using assms(1) unfolding gather_static_mask_fragment_def emit_simps
  by (elim exE conjE, hypsubst) (use assms(2) freshD [OF assms(3)] in \<open>simp add: frag_wf_def compact_type_def\<close>)

lemma gather_dynamic_mask_fragment_wf [frag_rules]:
  assumes "gather_dynamic_mask_fragment C SP in_var mask_var out_var = Inr fr" "in_var \<in> S" "mask_var \<in> S" "fresh_for out_var S"
  shows "frag_wf S fr \<and> frag_output fr = out_var"
  using assms(1) unfolding gather_dynamic_mask_fragment_def emit_simps
  by (elim exE conjE, hypsubst) (use assms(2-3) freshD [OF assms(4)] in \<open>simp add: frag_wf_def compact_type_def\<close>)

lemma neg_fragment_wf [frag_rules]:
  assumes "neg_fragment C SP in_var out_var = Inr fr" "in_var \<in> S" "fresh_for out_var S"
  shows "frag_wf S fr \<and> frag_output fr = out_var"
  using assms(1) unfolding neg_fragment_def emit_simps
  by (elim exE conjE, hypsubst) (use assms(2) freshD [OF assms(3)] in \<open>simp add: frag_wf_def compact_type_def\<close>)

lemma mod_fragment_wf [frag_rules]:
  assumes "mod_fragment C SP in_var side_var out_var = Inr fr" "in_var \<in> S" "side_var \<in> S" "fresh_for out_var S"
  shows "frag_wf S fr \<and> frag_output fr = out_var"
  using assms(1) unfolding mod_fragment_def emit_simps
  by (elim exE conjE, hypsubst) (use assms(2-3) freshD [OF assms(4)] in \<open>simp add: frag_wf_def compact_type_def\<close>)

lemma sinh_fragment_wf [frag_rules]:
  assumes "sinh_fragment C SP in_var out_var = Inr fr" "in_var \<in> S" "fresh_for out_var S"
  shows "frag_wf S fr \<and> frag_output fr = out_var"
  using assms(1) unfolding sinh_fragment_def emit_simps
  by (elim exE conjE, hypsubst) (use assms(2) freshD [OF assms(3)] in \<open>simp add: frag_wf_def compact_type_def\<close>)

lemma cosh_fragment_wf [frag_rules]:
  assumes "cosh_fragment C SP in_var out_var = Inr fr" "in_var \<in> S" "fresh_for out_var S"
  shows "frag_wf S fr \<and> frag_output fr = out_var"
  using assms(1) unfolding cosh_fragment_def emit_simps
  by (elim exE conjE, hypsubst) (use assms(2) freshD [OF assms(3)] in \<open>simp add: frag_wf_def compact_type_def\<close>)

lemma tan_fragment_wf [frag_rules]:
  assumes "tan_fragment C SP in_var out_var = Inr fr" "in_var \<in> S" "fresh_for out_var S"
  shows "frag_wf S fr \<and> frag_output fr = out_var"
  using assms(1) unfolding tan_fragment_def emit_simps
  by (elim exE conjE, hypsubst) (use assms(2) freshD [OF assms(3)] in \<open>simp add: frag_wf_def compact_type_def\<close>)

lemma asin_fragment_wf [frag_rules]:
  assumes "asin_fragment C SP in_var out_var = Inr fr" "in_var \<in> S" "fresh_for out_var S"
  shows "frag_wf S fr \<and> frag_output fr = out_var"
  using assms(1) unfolding asin_fragment_def emit_simps
  by (elim exE conjE, hypsubst) (use assms(2) freshD [OF assms(3)] in \<open>simp add: frag_wf_def compact_type_def\<close>)

lemma acos_fragment_wf [frag_rules]:
  assumes "acos_fragment C SP in_var out_var = Inr fr" "in_var \<in> S" "fresh_for out_var S"
  shows "frag_wf S fr \<and> frag_output fr = out_var"
  using assms(1) unfolding acos_fragment_def emit_simps
  by (elim exE conjE, hypsubst) (use assms(2) freshD [OF assms(3)] in \<open>simp add: frag_wf_def compact_type_def\<close>)

lemma sub_fragment_wf [frag_rules]:
  assumes "sub_fragment C SP in_var side_var out_var = Inr fr" "in_var \<in> S" "side_var \<in> S" "fresh_for out_var S"
  shows "frag_wf S fr \<and> frag_output fr = out_var"
  using assms(1) unfolding sub_fragment_def emit_simps
  by (elim exE conjE, hypsubst) (use assms(2-3) freshD [OF assms(4)] in \<open>simp add: frag_wf_def compact_type_def\<close>)

lemma real_div_fragment_wf [frag_rules]:
  assumes "real_div_fragment C SP in_var side_var out_var = Inr fr" "in_var \<in> S" "side_var \<in> S" "fresh_for out_var S"
  shows "frag_wf S fr \<and> frag_output fr = out_var"
  using assms(1) unfolding real_div_fragment_def emit_simps
  by (elim exE conjE, hypsubst) (use assms(2-3) freshD [OF assms(4)] in \<open>simp add: frag_wf_def compact_type_def\<close>)

lemma sqrt_fragment_wf [frag_rules]:
  assumes "sqrt_fragment C SP in_var out_var = Inr fr" "in_var \<in> S" "fresh_for out_var S"
  shows "frag_wf S fr \<and> frag_output fr = out_var"
  using assms(1) unfolding sqrt_fragment_def emit_simps
  by (elim exE conjE, hypsubst) (use assms(2) freshD [OF assms(3)] in \<open>simp add: frag_wf_def compact_type_def\<close>)

lemma log_fragment_wf [frag_rules]:
  assumes "log_fragment C SP in_var out_var = Inr fr" "in_var \<in> S" "fresh_for out_var S"
  shows "frag_wf S fr \<and> frag_output fr = out_var"
  using assms(1) unfolding log_fragment_def emit_simps
  by (elim exE conjE, hypsubst) (use assms(2) freshD [OF assms(3)] in \<open>simp add: frag_wf_def compact_type_def\<close>)

lemma rsqrt_fragment_wf [frag_rules]:
  assumes "rsqrt_fragment C SP in_var out_var = Inr fr" "in_var \<in> S" "fresh_for out_var S"
  shows "frag_wf S fr \<and> frag_output fr = out_var"
  using assms(1) unfolding rsqrt_fragment_def emit_simps
  by (elim exE conjE, hypsubst) (use assms(2) freshD [OF assms(3)] in \<open>simp add: frag_wf_def compact_type_def\<close>)

lemma concat_fragment_wf [frag_rules]:
  assumes "concat_fragment in0_C in1_C SP in_var side_var out_var = Inr fr" "in_var \<in> S" "side_var \<in> S" "fresh_for out_var S"
  shows "frag_wf S fr \<and> frag_output fr = out_var"
  using assms(1) unfolding concat_fragment_def emit_simps
  by (elim exE conjE, hypsubst) (use assms(2-3) freshD [OF assms(4)] in \<open>simp add: frag_wf_def compact_type_def\<close>)

lemma slice_by_index_fragment_wf [frag_rules]:
  assumes "slice_by_index_fragment in_C in_SP out_C out_SP in_var out_var = Inr fr" "in_var \<in> S" "fresh_for out_var S"
  shows "frag_wf S fr \<and> frag_output fr = out_var"
  using assms(1) unfolding slice_by_index_fragment_def emit_simps
  by (elim exE conjE, hypsubst) (use assms(2) freshD [OF assms(3)] in \<open>simp add: frag_wf_def compact_type_def\<close>)

lemma reduce_sum_fragment_wf [frag_rules]:
  assumes "reduce_sum_fragment in_C SP in_var out_var = Inr fr" "in_var \<in> S" "fresh_for out_var S"
  shows "frag_wf S fr \<and> frag_output fr = out_var"
  using assms(1) unfolding reduce_sum_fragment_def emit_simps
  by (elim exE conjE, hypsubst) (use assms(2) freshD [OF assms(3)] in \<open>simp add: frag_wf_def compact_type_def\<close>)

lemma reduce_mean_fragment_wf [frag_rules]:
  assumes "reduce_mean_fragment in_C SP in_var out_var = Inr fr" "in_var \<in> S" "fresh_for out_var S"
  shows "frag_wf S fr \<and> frag_output fr = out_var"
  using assms(1) unfolding reduce_mean_fragment_def emit_simps
  by (elim exE conjE, hypsubst) (use assms(2) freshD [OF assms(3)] in \<open>simp add: frag_wf_def compact_type_def\<close>)

lemma reduce_max_fragment_wf [frag_rules]:
  assumes "reduce_max_fragment in_C SP in_var out_var = Inr fr" "in_var \<in> S" "fresh_for out_var S"
  shows "frag_wf S fr \<and> frag_output fr = out_var"
  using assms(1) unfolding reduce_max_fragment_def emit_simps
  by (elim exE conjE, hypsubst) (use assms(2) freshD [OF assms(3)] in \<open>simp add: frag_wf_def compact_type_def\<close>)

lemma select_fragment_wf [frag_rules]:
  assumes "select_fragment C SP cond_var x_var y_var out_var = Inr fr" "cond_var \<in> S" "x_var \<in> S" "y_var \<in> S" "fresh_for out_var S"
  shows "frag_wf S fr \<and> frag_output fr = out_var"
  using assms(1) unfolding select_fragment_def emit_simps
  by (elim exE conjE, hypsubst) (use assms(2-4) freshD [OF assms(5)] in \<open>simp add: frag_wf_def compact_type_def\<close>)

lemma transpose_fragment_wf [frag_rules]:
  assumes "transpose_fragment C SP in_var out_var = Inr fr" "in_var \<in> S" "fresh_for out_var S"
  shows "frag_wf S fr \<and> frag_output fr = out_var"
  using assms(1) unfolding transpose_fragment_def emit_simps
  by (elim exE conjE, hypsubst) (use assms(2) freshD [OF assms(3)] in \<open>simp add: frag_wf_def compact_type_def\<close>)

lemma reshape_fragment_wf [frag_rules]:
  assumes "reshape_fragment in_C in_SP out_C out_SP in_var out_var = Inr fr" "in_var \<in> S" "fresh_for out_var S"
  shows "frag_wf S fr \<and> frag_output fr = out_var"
  using assms(1) unfolding reshape_fragment_def emit_simps
  by (elim exE conjE, hypsubst) (use assms(2) freshD [OF assms(3)] in \<open>simp add: frag_wf_def compact_type_def\<close>)

lemma relu_fragment_wf [frag_rules]:
  assumes "relu_fragment C SP in_var out_var = Inr fr" "in_var \<in> S" "fresh_for out_var S"
  shows "frag_wf S fr \<and> frag_output fr = out_var"
  using assms(1) unfolding relu_fragment_def emit_simps
  by (elim exE conjE, hypsubst) (use assms(2) freshD [OF assms(3)] in \<open>simp add: frag_wf_def compact_type_def\<close>)

lemma tanh_fragment_wf [frag_rules]:
  assumes "tanh_fragment C SP in_var out_var = Inr fr" "in_var \<in> S" "fresh_for out_var S"
  shows "frag_wf S fr \<and> frag_output fr = out_var"
  using assms(1) unfolding tanh_fragment_def emit_simps
  by (elim exE conjE, hypsubst) (use assms(2) freshD [OF assms(3)] in \<open>simp add: frag_wf_def compact_type_def\<close>)

lemma sigmoid_fragment_wf [frag_rules]:
  assumes "sigmoid_fragment C SP in_var out_var = Inr fr" "in_var \<in> S" "fresh_for out_var S"
  shows "frag_wf S fr \<and> frag_output fr = out_var"
  using assms(1) unfolding sigmoid_fragment_def emit_simps
  by (elim exE conjE, hypsubst) (use assms(2) freshD [OF assms(3)] in \<open>simp add: frag_wf_def compact_type_def\<close>)

lemma hardswish_fragment_wf [frag_rules]:
  assumes "hardswish_fragment C SP in_var out_var = Inr fr" "in_var \<in> S" "fresh_for out_var S"
  shows "frag_wf S fr \<and> frag_output fr = out_var"
  using assms(1) unfolding hardswish_fragment_def emit_simps
  by (elim exE conjE, hypsubst) (use assms(2) freshD [OF assms(3)] in \<open>simp add: frag_wf_def compact_type_def\<close>)

lemma leaky_relu_fragment_wf [frag_rules]:
  assumes "leaky_relu_fragment C SP in_var out_var = Inr fr" "in_var \<in> S" "fresh_for out_var S"
  shows "frag_wf S fr \<and> frag_output fr = out_var"
  using assms(1) unfolding leaky_relu_fragment_def emit_simps
  by (elim exE conjE, hypsubst) (use assms(2) freshD [OF assms(3)] in \<open>simp add: frag_wf_def compact_type_def\<close>)

lemma elu_fragment_wf [frag_rules]:
  assumes "elu_fragment C SP in_var out_var = Inr fr" "in_var \<in> S" "fresh_for out_var S"
  shows "frag_wf S fr \<and> frag_output fr = out_var"
  using assms(1) unfolding elu_fragment_def emit_simps
  by (elim exE conjE, hypsubst) (use assms(2) freshD [OF assms(3)] in \<open>simp add: frag_wf_def compact_type_def\<close>)

lemma pixel_shuffle_fragment_wf [frag_rules]:
  assumes "pixel_shuffle_fragment out_C in_SP r in_var out_var = Inr fr" "in_var \<in> S" "fresh_for out_var S"
  shows "frag_wf S fr \<and> frag_output fr = out_var"
  using assms(1) unfolding pixel_shuffle_fragment_def emit_simps
  by (elim exE conjE, hypsubst) (use assms(2) freshD [OF assms(3)] in \<open>simp add: frag_wf_def compact_type_def\<close>)

section \<open>The piecewise-linear emitter\<close>

text \<open>\<open>float\<close> values as bit patterns, with the operations and renderings the emitter uses:
  \<open>f_tiny v\<close> is \<open>std::abs(v) < 5.96e-8f\<close>, \<open>f_fmt6\<close> a stream with precision 6, \<open>f_fixed7\<close> a
  fixed-notation stream with precision 7.\<close>

record float_env =
  f_add :: "u32 \<Rightarrow> u32 \<Rightarrow> u32"
  f_sub :: "u32 \<Rightarrow> u32 \<Rightarrow> u32"
  f_mul :: "u32 \<Rightarrow> u32 \<Rightarrow> u32"
  f_div :: "u32 \<Rightarrow> u32 \<Rightarrow> u32"
  f_of_int :: "int \<Rightarrow> u32"
  f_tiny :: "u32 \<Rightarrow> bool"
  f_fmt6 :: "u32 \<Rightarrow> string"
  f_fixed7 :: "u32 \<Rightarrow> string"

definition find_char :: "char \<Rightarrow> string \<Rightarrow> nat" where
  "find_char c s = length (takeWhile (\<lambda>x. x \<noteq> c) s)"

definition find_last_not_of :: "char \<Rightarrow> string \<Rightarrow> nat" where
  "find_last_not_of c s = length s - 1 - length (takeWhile (\<lambda>x. x = c) (rev s))"

definition fp16_lit :: "float_env \<Rightarrow> u32 \<Rightarrow> string" where
  "fp16_lit F v =
     (if f_tiny F v then ''0.0''
      else let s = f_fmt6 F v in
        if CHR ''e'' \<in> set s \<or> CHR ''E'' \<in> set s then
          let s = f_fixed7 F v in
          if CHR ''.'' \<in> set s then
            let dot = find_char CHR ''.'' s;
                lst = find_last_not_of CHR ''0'' s;
                lst = (if lst = dot then lst + 1 else lst)
            in take (lst + 1) s
          else s
        else if CHR ''.'' \<notin> set s then s @ ''.0''
        else s)"

definition idx :: "string \<Rightarrow> string \<Rightarrow> nat \<Rightarrow> string" where
  "idx p tag i = p @ tag @ nat_to_string i"

text \<open>The coefficients \<open>a[i]\<close>, \<open>b[i]\<close> and the upper boundary of segment \<open>i\<close>.\<close>

definition pwl_slope :: "float_env \<Rightarrow> u32 list \<Rightarrow> u32 \<Rightarrow> nat \<Rightarrow> u32" where
  "pwl_slope F samples dx_inv i = f_mul F (f_sub F (samples ! (i + 1)) (samples ! i)) dx_inv"

definition pwl_intercept :: "float_env \<Rightarrow> u32 list \<Rightarrow> u32 \<Rightarrow> u32 \<Rightarrow> u32 \<Rightarrow> nat \<Rightarrow> u32" where
  "pwl_intercept F samples x_min dx dx_inv i =
     f_sub F (samples ! i) (f_mul F (pwl_slope F samples dx_inv i)
       (f_add F x_min (f_mul F (f_of_int F (int i)) dx)))"

definition fp16_const :: "string \<Rightarrow> string \<Rightarrow> mil_stmt" where
  "fp16_const name l = cst ''fp16'' name (Lit (''fp16('' @ l @ '')''))"

definition pwl_segment :: "string \<Rightarrow> string \<Rightarrow> string \<Rightarrow> string \<Rightarrow> (nat \<Rightarrow> string) \<Rightarrow> (nat \<Rightarrow> string)
    \<Rightarrow> (nat \<Rightarrow> string) \<Rightarrow> nat \<Rightarrow> string \<Rightarrow> mil_stmt list" where
  "pwl_segment p tt tb in_var a b upper i cur =
     [fp16_const (idx p ''a'' i) (a i),
      fp16_const (idx p ''b'' i) (b i),
      oper tt (idx p ''t'' i) ''mul'' [(''x='', Ref in_var), (''y='', Ref (idx p ''a'' i))] (idx p ''t'' i),
      oper tt (idx p ''y'' i) ''add'' [(''x='', Ref (idx p ''t'' i)), (''y='', Ref (idx p ''b'' i))] (idx p ''y'' i),
      fp16_const (idx p ''th'' i) (upper i),
      oper tb (idx p ''mk'' i) ''less'' [(''x='', Ref in_var), (''y='', Ref (idx p ''th'' i))] (idx p ''mk'' i),
      oper tt (idx p ''cr'' i) ''select'' [(''cond='', Ref (idx p ''mk'' i)), (''a='', Ref (idx p ''y'' i)),
        (''b='', Ref cur)] (idx p ''cr'' i)]"

text \<open>The loop over segments \<open>k - 1\<close> down to 0, with the variable it starts from.\<close>

fun pwl_loop :: "string \<Rightarrow> string \<Rightarrow> string \<Rightarrow> string \<Rightarrow> (nat \<Rightarrow> string) \<Rightarrow> (nat \<Rightarrow> string)
    \<Rightarrow> (nat \<Rightarrow> string) \<Rightarrow> nat \<Rightarrow> string \<Rightarrow> mil_stmt list \<times> string" where
  "pwl_loop p tt tb in_var a b upper 0 cur = ([], cur)"
| "pwl_loop p tt tb in_var a b upper (Suc i) cur =
     (let (sts, cur') = pwl_loop p tt tb in_var a b upper i (idx p ''cr'' i)
      in (pwl_segment p tt tb in_var a b upper i cur @ sts, cur'))"

text \<open>The statements for the last segment \<open>k\<close>, the loop and the final assignment.\<close>

definition pwl_body :: "string \<Rightarrow> string \<Rightarrow> string \<Rightarrow> string \<Rightarrow> string \<Rightarrow> (nat \<Rightarrow> string) \<Rightarrow> (nat \<Rightarrow> string)
    \<Rightarrow> (nat \<Rightarrow> string) \<Rightarrow> nat \<Rightarrow> mil_stmt list" where
  "pwl_body p tt tb in_var out_var a b upper k =
     (let cur = idx p ''cr'' k;
          first = [fp16_const (idx p ''a'' k) (a k),
                   fp16_const (idx p ''b'' k) (b k),
                   oper tt (idx p ''t'' k) ''mul'' [(''x='', Ref in_var), (''y='', Ref (idx p ''a'' k))] (idx p ''t'' k),
                   oper tt cur ''add'' [(''x='', Ref (idx p ''t'' k)), (''y='', Ref (idx p ''b'' k))] cur];
          (segs, fin) = pwl_loop p tt tb in_var a b upper k cur
      in first @ segs
         @ (if fin \<noteq> out_var then [oper tt out_var ''identity'' [(''x='', Ref fin)] (p @ ''pwl'')] else []))"

text \<open>\<open>samples\<close> and \<open>n_samples\<close> are one list.\<close>

definition pwl_activation_fragment ::
  "float_env \<Rightarrow> int \<Rightarrow> int \<Rightarrow> u32 \<Rightarrow> u32 \<Rightarrow> u32 list \<Rightarrow> string \<Rightarrow> string \<Rightarrow> MilFragment res" where
  "pwl_activation_fragment F C SP x_min x_max samples in_var out_var = (
     if length samples < 2 then Inl (Invalid_argument ''pwl_activation_fragment: need at least 2 sample points'') else
     let shape = mk_shape 1 C 1 SP in
     bind_res (validate shape) (\<lambda>_.
     let N = length samples - 1;
         dx = f_div F (f_sub F x_max x_min) (f_of_int F (int N));
         dx_inv = f_div F (f_of_int F 1) dx;
         p = out_var @ ''_'';
         tt = tensor_type shape;
         tb = ''tensor<bool, [1, '' @ to_string C @ '', 1, '' @ to_string SP @ '']>'';
         a = (\<lambda>i. fp16_lit F (pwl_slope F samples dx_inv i));
         b = (\<lambda>i. fp16_lit F (pwl_intercept F samples x_min dx dx_inv i));
         upper = (\<lambda>i. fp16_lit F (f_add F x_min (f_mul F (f_of_int F (int i + 1)) dx)));
         k = N - 1
     in Inr \<lparr>frag_body = pwl_body p tt tb in_var out_var a b upper k,
      frag_input = in_var, frag_output = out_var, frag_side_input = '''', frag_weight_file = '''',
      frag_output_shape = shape\<rparr>))"

definition pwl_tags :: "string set" where
  "pwl_tags = {''a'', ''b'', ''t'', ''y'', ''th'', ''mk'', ''cr''}"

lemma tags_no_digits: "tag \<in> pwl_tags \<Longrightarrow> c \<in> set tag \<Longrightarrow> \<not> is_digit c"
  by (auto simp: pwl_tags_def is_digit_def)

lemma takeWhile_tag: "tag \<in> pwl_tags \<Longrightarrow> takeWhile (\<lambda>c. \<not> is_digit c) (tag @ nat_to_string i) = tag"
proof -
  assume tag: "tag \<in> pwl_tags"
  obtain d ds where d: "nat_to_string i = d # ds" by (cases "nat_to_string i") (simp_all add: nat_to_string_def)
  have "is_digit d" using nat_to_string_digits [of d i] d by simp
  then show ?thesis using tags_no_digits [OF tag] d by (simp add: takeWhile_append2)
qed

lemma idx_inj: "tag \<in> pwl_tags \<Longrightarrow> tag' \<in> pwl_tags \<Longrightarrow> idx p tag i = idx p tag' j \<longleftrightarrow> tag = tag' \<and> i = j"
proof -
  assume t: "tag \<in> pwl_tags" "tag' \<in> pwl_tags"
  have "tag @ nat_to_string i = tag' @ nat_to_string j \<Longrightarrow> tag = tag'"
    using takeWhile_tag [OF t(1), of i] takeWhile_tag [OF t(2), of j] by metis
  then show ?thesis by (auto simp: idx_def)
qed

lemma tag_mem [simp]: "''a'' \<in> pwl_tags" "''b'' \<in> pwl_tags" "''t'' \<in> pwl_tags" "''y'' \<in> pwl_tags" "''th'' \<in> pwl_tags"
  "''mk'' \<in> pwl_tags" "''cr'' \<in> pwl_tags"
  by (simp_all add: pwl_tags_def)

definition below :: "string \<Rightarrow> nat \<Rightarrow> string set" where
  "below p k = {idx p tag j | tag j. tag \<in> pwl_tags \<and> j < k}"

lemma idx_below [simp]: "tag \<in> pwl_tags \<Longrightarrow> idx p tag j \<in> below p k \<longleftrightarrow> j < k"
  by (auto simp: below_def idx_inj)

lemma below_mono: "below p i \<subseteq> below p (Suc i)"
  unfolding below_def by (auto intro: less_SucI)

lemma fp16_const_simps [simp]: "stmt_def (fp16_const n l) = n" "stmt_label (fp16_const n l) = n"
  "stmt_uses (fp16_const n l) = []"
  by (simp_all add: fp16_const_def)

lemma segment_ok:
  assumes "in_var \<in> S" "cur \<in> S" "\<And>tag. tag \<in> pwl_tags \<Longrightarrow> idx p tag i \<notin> S"
  shows "scoped S (pwl_segment p tt tb in_var a b upper i cur)"
    "defs (pwl_segment p tt tb in_var a b upper i cur) = {idx p tag i | tag. tag \<in> pwl_tags}"
proof -
  show "scoped S (pwl_segment p tt tb in_var a b upper i cur)"
    using assms by (simp add: pwl_segment_def idx_inj)
  show "defs (pwl_segment p tt tb in_var a b upper i cur) = {idx p tag i | tag. tag \<in> pwl_tags}"
    by (auto simp: pwl_segment_def pwl_tags_def)
qed

lemma pwl_loop_ok:
  assumes "pwl_loop p tt tb in_var a b upper k cur = (sts, fin)" "in_var \<in> S" "cur \<in> S" "below p k \<inter> S = {}"
  shows "scoped S sts \<and> defs sts \<subseteq> below p k \<and> fin \<in> insert cur (defs sts)
    \<and> map stmt_label sts = map stmt_def sts"
  using assms
proof (induction k arbitrary: cur sts S)
  case (Suc i)
  let ?seg = "pwl_segment p tt tb in_var a b upper i cur"
  obtain sts' where sts': "pwl_loop p tt tb in_var a b upper i (idx p ''cr'' i) = (sts', fin)" "sts = ?seg @ sts'"
    using Suc.prems(1) by (auto split: prod.splits)
  have new: "idx p tag i \<notin> S" if "tag \<in> pwl_tags" for tag
    using Suc.prems(4) idx_below [OF that, of p i "Suc i"] by auto
  note seg = segment_ok [OF Suc.prems(2,3) new, where tt = tt and tb = tb and a = a and b = b and upper = upper]
  have mono: "below p i \<subseteq> below p (Suc i)" "{idx p tag i | tag. tag \<in> pwl_tags} \<subseteq> below p (Suc i)"
    unfolding below_def by (auto intro: less_SucI)
  have segd: "defs ?seg = {idx p tag i | tag. tag \<in> pwl_tags}" by (rule seg(2))
  have "below p i \<inter> {idx p tag i | tag. tag \<in> pwl_tags} = {}" by auto
  then have disj: "below p i \<inter> (S \<union> defs ?seg) = {}"
    using Suc.prems(4) mono(1) unfolding segd by blast
  have cr: "idx p ''cr'' i \<in> defs ?seg" unfolding segd by auto
  have IH: "scoped (S \<union> defs ?seg) sts' \<and> defs sts' \<subseteq> below p i \<and> fin \<in> insert (idx p ''cr'' i) (defs sts')
      \<and> map stmt_label sts' = map stmt_def sts'"
    by (rule Suc.IH [OF sts'(1) UnI1 [OF Suc.prems(2)] UnI2 [OF cr] disj])
  have "defs ?seg \<union> defs sts' \<subseteq> below p (Suc i)" using IH mono unfolding segd by blast
  moreover have "fin \<in> defs ?seg \<union> defs sts'" using IH cr by auto
  moreover have "scoped S ?seg" by (rule seg(1))
  moreover have "map stmt_label ?seg = map stmt_def ?seg" by (simp add: pwl_segment_def)
  ultimately show ?case
    using IH unfolding sts'(2) by (simp add: scoped_append)
qed simp

lemma idx_own: "idx (out @ ''_'') tag i \<in> own out" "idx (out @ ''_'') tag i \<noteq> out"
  by (auto simp: idx_def own_def)

lemma pwl_label: "tag \<in> pwl_tags \<Longrightarrow> idx p tag i \<noteq> p @ ''pwl''"
  by (auto simp: idx_def pwl_tags_def)

lemma below_own: "below (out @ ''_'') k \<subseteq> own out - {out, out @ ''_'' @ ''pwl''}"
proof
  fix x assume "x \<in> below (out @ ''_'') k"
  then obtain tag j where "x = idx (out @ ''_'') tag j" "tag \<in> pwl_tags" by (auto simp: below_def)
  then show "x \<in> own out - {out, out @ ''_'' @ ''pwl''}"
    using idx_own [of out tag j] pwl_label [of tag "out @ ''_''" j] by auto
qed

lemma pwl_body_ok:
  assumes "in_var \<in> S" "fresh_for out S"
    and sts_def: "sts = pwl_body (out @ ''_'') tt tb in_var out a b upper k"
  shows "scoped S sts \<and> defs sts \<subseteq> own out \<and> distinct (map stmt_label sts) \<and> set (map stmt_label sts) \<subseteq> own out
    \<and> sts \<noteq> [] \<and> stmt_def (last sts) = out \<and> stmt_type (last sts) = tt"
proof -
  let ?p = "out @ ''_''"
  let ?cur = "idx ?p ''cr'' k"
  define first where "first = [fp16_const (idx ?p ''a'' k) (a k), fp16_const (idx ?p ''b'' k) (b k),
     oper tt (idx ?p ''t'' k) ''mul'' [(''x='', Ref in_var), (''y='', Ref (idx ?p ''a'' k))] (idx ?p ''t'' k),
     oper tt ?cur ''add'' [(''x='', Ref (idx ?p ''t'' k)), (''y='', Ref (idx ?p ''b'' k))] ?cur]"
  obtain segs fin where loop: "pwl_loop ?p tt tb in_var a b upper k ?cur = (segs, fin)" by (metis surj_pair)
  have fresh: "idx ?p tag j \<notin> S" for tag j using assms(2) by (simp add: fresh_for_def idx_def)
  have first: "scoped S first" "defs first \<subseteq> below ?p (Suc k)" "map stmt_label first = map stmt_def first"
    "below ?p k \<inter> defs first = {}" "?cur \<in> defs first"
    using assms(1) fresh by (auto simp: first_def idx_inj)
  have "below ?p k \<inter> S = {}" using fresh by (auto simp: below_def)
  with pwl_loop_ok [OF loop, of "S \<union> defs first"] first assms(1)
  have segs: "scoped (S \<union> defs first) segs" "defs segs \<subseteq> below ?p k" "fin \<in> insert ?cur (defs segs)"
    "map stmt_label segs = map stmt_def segs" by auto
  have names: "defs (first @ segs) \<subseteq> below ?p (Suc k)"
    using first(2) segs(2) below_mono [of ?p k] by auto
  have fin: "fin \<in> defs (first @ segs)" using segs(3) first(5) by auto
  have "fin \<noteq> out" using fin names below_own [of out "Suc k"] by auto
  then have sts: "sts = (first @ segs) @ [oper tt out ''identity'' [(''x='', Ref fin)] (?p @ ''pwl'')]"
    by (simp add: sts_def pwl_body_def loop first_def Let_def)
  have sc: "scoped S (first @ segs)" using first(1) segs(1) by (simp add: scoped_append)
  have out: "out \<notin> S \<union> defs (first @ segs)"
    using assms(2) names below_own [of out "Suc k"] by (auto simp: fresh_for_def)
  have lab: "map stmt_label (first @ segs) = map stmt_def (first @ segs)" using first(3) segs(4) by simp
  have "scoped S sts" unfolding sts scoped_append [of S "first @ segs"] using sc fin out by auto
  moreover have "distinct (map stmt_label sts)"
    using scoped_distinct [OF sc] names below_own [of out "Suc k"]
    unfolding sts map_append [of stmt_label "first @ segs"] lab by (auto simp: defs_def)
  moreover have "set (map stmt_label sts) \<subseteq> own out" "defs sts \<subseteq> own out"
    using names below_own [of out "Suc k"] unfolding sts map_append [of stmt_label "first @ segs"] lab
    by (auto simp: defs_def)
  ultimately show ?thesis using sts by simp
qed

lemma pwl_activation_fragment_wf [frag_rules]:
  assumes "pwl_activation_fragment F C SP x_min x_max samples in_var out_var = Inr fr" "in_var \<in> S" "fresh_for out_var S"
  shows "frag_wf S fr \<and> frag_output fr = out_var"
  using assms(1) unfolding pwl_activation_fragment_def emit_simps
  by (elim exE conjE, hypsubst) (use pwl_body_ok [OF assms(2,3) refl] in \<open>simp add: frag_wf_def\<close>)

end
