(* ===== verification/MilFused.thy ===== *)
theory MilFused
  imports MilFragments
begin

text \<open>
  \<open>MilBuilder::build_fused\<close> (src/core/mil_builder.cpp): a complete program from its inputs and a
  sequence of fragments. \<open>std::sort\<close> may order inputs with one name either way; \<open>sort_key\<close> keeps
  their order, and for distinct names the result is the same. \<open>chain_wf\<close> is what the fragments
  must satisfy one after the other, and \<open>build_fused_ok\<close> that the program is then well formed.
\<close>

fun collect_weight_names :: "string list \<Rightarrow> MilFragment list \<Rightarrow> string list" where
  "collect_weight_names wnames [] = wnames"
| "collect_weight_names wnames (frag # frags) =
     collect_weight_names
       (if frag_weight_file frag \<noteq> '''' \<and> frag_weight_file frag \<notin> set wnames
        then wnames @ [frag_weight_file frag] else wnames) frags"

definition build_fused :: "FusedInput list \<Rightarrow> MilFragment list \<Rightarrow> MilProgram res" where
  "build_fused inputs fragments =
     (if inputs = [] then Inl (Invalid_argument ''build_fused: inputs must not be empty'')
      else if fragments = [] then Inl (Invalid_argument ''build_fused: fragments must not be empty'')
      else let srt = sort_key var_name inputs;
               wnames = collect_weight_names [] fragments
           in Inr \<lparr>code = \<lparr>params = map (\<lambda>i. (tensor_type (fused_shape i), var_name i)) srt,
                           stmts = concat (map frag_body fragments),
                           result = frag_output (last fragments)\<rparr>,
                   prog_weight_name = (if wnames = [] then '''' else wnames ! 0),
                   prog_all_weight_names = wnames,
                   prog_input_shape = fused_shape (srt ! 0),
                   prog_output_shape = frag_output_shape (last fragments)\<rparr>)"

definition build_fused_single :: "string \<Rightarrow> TensorShape \<Rightarrow> MilFragment list \<Rightarrow> MilProgram res" where
  "build_fused_single input_name input_shape fragments =
     build_fused [\<lparr>var_name = input_name, fused_shape = input_shape\<rparr>] fragments"

section \<open>Well-formed chains\<close>

fun chain_wf :: "string set \<Rightarrow> MilFragment list \<Rightarrow> bool" where
  "chain_wf S [] = True"
| "chain_wf S (fr # frs) \<longleftrightarrow> frag_wf S fr \<and> chain_wf (S \<union> defs (frag_body fr)) frs"

definition separate :: "MilFragment list \<Rightarrow> bool" where
  "separate frs \<longleftrightarrow> sorted_wrt (\<lambda>a b. own (frag_output a) \<inter> own (frag_output b) = {}) frs"

lemma frag_wf_output: "frag_wf S fr \<Longrightarrow> frag_output fr \<in> defs (frag_body fr)"
  by (metis frag_wf_def defs_def imageI last_in_set)

lemma chain_wf_scoped: "chain_wf S frs \<Longrightarrow> scoped S (concat (map frag_body frs))"
  by (induction S frs rule: chain_wf.induct) (auto simp: scoped_append frag_wf_def)

lemma chain_wf_member: "chain_wf S frs \<Longrightarrow> fr \<in> set frs \<Longrightarrow> \<exists>S'. frag_wf S' fr"
  by (induction S frs rule: chain_wf.induct) auto

lemma chain_labels:
  "chain_wf S frs \<Longrightarrow> set (map stmt_label (concat (map frag_body frs))) \<subseteq> (\<Union>fr \<in> set frs. own (frag_output fr))"
  by (induction S frs rule: chain_wf.induct) (auto simp: frag_wf_def)

lemma chain_labels_distinct:
  "chain_wf S frs \<Longrightarrow> separate frs \<Longrightarrow> distinct (map stmt_label (concat (map frag_body frs)))"
proof (induction S frs rule: chain_wf.induct)
  case (2 S fr frs)
  have "set (map stmt_label (frag_body fr)) \<subseteq> own (frag_output fr)" "distinct (map stmt_label (frag_body fr))"
    using 2(2) by (auto simp: frag_wf_def)
  moreover have "own (frag_output fr) \<inter> (\<Union>fr \<in> set frs. own (frag_output fr)) = {}"
    using 2(3) by (auto simp: separate_def)
  moreover have "distinct (map stmt_label (concat (map frag_body frs)))"
    using 2 by (auto simp: separate_def)
  moreover have "set (map stmt_label (concat (map frag_body frs))) \<subseteq> (\<Union>fr \<in> set frs. own (frag_output fr))"
    using chain_labels 2(2) by (metis chain_wf.simps(2))
  ultimately show ?case by (simp del: set_map) blast
qed simp

lemma collect_weight_names_set:
  "set (collect_weight_names wn frs) = set wn \<union> (frag_weight_file ` set frs - {''''})"
  by (induction wn frs rule: collect_weight_names.induct) auto

lemma collect_weight_names_distinct: "distinct wn \<Longrightarrow> distinct (collect_weight_names wn frs)"
  by (induction wn frs rule: collect_weight_names.induct) auto

lemma build_fused_Inr:
  "inputs \<noteq> [] \<Longrightarrow> frs \<noteq> [] \<Longrightarrow> \<exists>p. build_fused inputs frs = Inr p
     \<and> code p = \<lparr>params = map (\<lambda>i. (tensor_type (fused_shape i), var_name i)) (sort_key var_name inputs),
         stmts = concat (map frag_body frs), result = frag_output (last frs)\<rparr>
     \<and> prog_all_weight_names p = collect_weight_names [] frs
     \<and> prog_output_shape p = frag_output_shape (last frs)"
  by (simp add: build_fused_def Let_def)

lemma build_fused_code_ok:
  assumes ne: "frs \<noteq> []" and inp: "distinct (map var_name inputs)"
    and chain: "chain_wf (var_name ` set inputs) frs" and sep: "separate frs"
  shows "code_ok \<lparr>params = map (\<lambda>i. (tensor_type (fused_shape i), var_name i)) (sort_key var_name inputs),
         stmts = concat (map frag_body frs), result = frag_output (last frs)\<rparr>"
proof -
  have names: "map snd (map (\<lambda>i. (tensor_type (fused_shape i), var_name i)) (sort_key var_name inputs))
      = map var_name (sort_key var_name inputs)" by simp
  have "mset (map var_name (sort_key var_name inputs)) = mset (map var_name inputs)" by simp
  then have "distinct (map var_name (sort_key var_name inputs))" using inp by (metis mset_eq_imp_distinct_iff)
  moreover have "snd ` set (map (\<lambda>i. (tensor_type (fused_shape i), var_name i)) (sort_key var_name inputs))
      = var_name ` set inputs" by force
  moreover have "frag_output (last frs) \<in> defs (concat (map frag_body frs))"
  proof -
    obtain S' where "frag_wf S' (last frs)" using chain_wf_member [OF chain last_in_set [OF ne]] by blast
    from frag_wf_output [OF this] show ?thesis using last_in_set [OF ne] by (auto simp: defs_def)
  qed
  ultimately show ?thesis
    using chain_wf_scoped [OF chain] chain_labels_distinct [OF chain sep] by (simp add: code_ok_def o_def)
qed

end
