(* ===== verification/WeightBlob.thy ===== *)
theory WeightBlob
  imports MilText Half
begin

text \<open>
  Weight blobs (the top of src/core/mil_builder.cpp): \<open>xxhash64\<close>, the 128-byte blob header and the three constructors of
  \<open>WeightBlob\<close>. Floats are bit patterns, memory is a byte list with little-endian elements.
  Dimensions are natural numbers: the callers pass validated, positive ones.
\<close>

unbundle bit_operations_syntax

section \<open>xxhash64\<close>

definition P1 :: size_t where "P1 = 11400714785074694791"
definition P2 :: size_t where "P2 = 14029467366897019727"
definition P3 :: size_t where "P3 = 1609587929392839161"
definition P4 :: size_t where "P4 = 9650029242287828579"
definition P5 :: size_t where "P5 = 2870177450012600261"

definition rotl :: "size_t \<Rightarrow> nat \<Rightarrow> size_t" where
  "rotl x r = push_bit r x OR drop_bit (64 - r) x"

definition lane :: "nat \<Rightarrow> byte list \<Rightarrow> size_t" where
  "lane k bs = of_nat (le_nat (take k bs))"

definition xx_round :: "size_t \<Rightarrow> size_t \<Rightarrow> size_t" where
  "xx_round v l = rotl (v + l * P2) 31 * P1"

text \<open>The \<open>do\<close> loop over 32-byte stripes, with the bytes it leaves.\<close>

fun xx_stripes :: "size_t \<times> size_t \<times> size_t \<times> size_t \<Rightarrow> byte list
    \<Rightarrow> (size_t \<times> size_t \<times> size_t \<times> size_t) \<times> byte list" where
  "xx_stripes (v1, v2, v3, v4) p =
     (let v1 = xx_round v1 (lane 8 p);
          v2 = xx_round v2 (lane 8 (drop 8 p));
          v3 = xx_round v3 (lane 8 (drop 16 p));
          v4 = xx_round v4 (lane 8 (drop 24 p));
          p' = drop 32 p
      in if length p' \<ge> 32 then xx_stripes (v1, v2, v3, v4) p' else ((v1, v2, v3, v4), p'))"

declare xx_stripes.simps [simp del]

definition xx_merge :: "size_t \<Rightarrow> size_t \<Rightarrow> size_t" where
  "xx_merge h v = (h XOR (rotl (v * P2) 31 * P1)) * P1 + P4"

definition xx_head :: "byte list \<Rightarrow> size_t \<Rightarrow> size_t \<times> byte list" where
  "xx_head data seed =
     (if length data \<ge> 32 then
        let ((v1, v2, v3, v4), p) = xx_stripes (seed + P1 + P2, seed + P2, seed, seed - P1) data;
            h = rotl v1 1 + rotl v2 7 + rotl v3 12 + rotl v4 18;
            h = xx_merge h v1; h = xx_merge h v2; h = xx_merge h v3; h = xx_merge h v4
        in (h, p)
      else (seed + P5, data))"

fun xx_words :: "size_t \<Rightarrow> byte list \<Rightarrow> size_t \<times> byte list" where
  "xx_words h p =
     (if length p \<ge> 8 then
        let h = h XOR (rotl (lane 8 p * P2) 31 * P1);
            h = rotl h 27 * P1 + P4
        in xx_words h (drop 8 p)
      else (h, p))"

declare xx_words.simps [simp del]

definition xx_half_word :: "size_t \<times> byte list \<Rightarrow> size_t \<times> byte list" where
  "xx_half_word hp =
     (let (h, p) = hp in
      if length p \<ge> 4 then
        let h = h XOR (lane 4 p * P1); h = rotl h 23 * P2 + P3 in (h, drop 4 p)
      else (h, p))"

fun xx_bytes :: "size_t \<Rightarrow> byte list \<Rightarrow> size_t" where
  "xx_bytes h [] = h"
| "xx_bytes h (b # p) = xx_bytes (rotl (h XOR (ucast b * P5)) 11 * P1) p"

definition xx_avalanche :: "size_t \<Rightarrow> size_t" where
  "xx_avalanche h =
     (let h = h XOR drop_bit 33 h; h = h * P2;
          h = h XOR drop_bit 29 h; h = h * P3
      in h XOR drop_bit 32 h)"

definition xxhash64 :: "byte list \<Rightarrow> size_t \<Rightarrow> size_t" where
  "xxhash64 data seed =
     (let (h, p) = xx_head data seed;
          h = h + of_nat (length data);
          (h, p) = xx_half_word (xx_words h p)
      in xx_avalanche (xx_bytes h p))"

section \<open>Blobs\<close>

record WeightBlob =
  blob_data :: "byte list"
  blob_hash :: size_t

definition make_blob :: "nat \<Rightarrow> WeightBlob" where
  "make_blob weight_bytes =
     (let d = replicate (kDataOffset + weight_bytes) 0;
          d = d[0 := 0x01];
          d = d[4 := 0x02];
          d = put_bytes 64 (le_bytes 4 0xDEADBEEF) d;
          d = d[64 + 4 := 0x01];
          fp16_size = to_u32 weight_bytes;
          d = put_bytes 72 (le_bytes 4 fp16_size) d;
          d = put_bytes 80 (le_bytes 4 128) d
      in \<lparr>blob_data = d, blob_hash = 0\<rparr>)"

definition compute_hash :: "WeightBlob \<Rightarrow> WeightBlob" where
  "compute_hash b =
     (if length (blob_data b) \<le> kDataOffset then b\<lparr>blob_hash := 0\<rparr>
      else b\<lparr>blob_hash := xxhash64 (drop kDataOffset (blob_data b)) 0\<rparr>)"

definition from_fp16 :: "byte list \<Rightarrow> nat \<Rightarrow> WeightBlob res" where
  "from_fp16 src weight_bytes =
     (if length src < weight_bytes then Inl (Undefined_behaviour ''memcpy out of bounds'')
      else let b = make_blob weight_bytes
           in Inr (compute_hash (b\<lparr>blob_data := put_bytes kDataOffset (take weight_bytes src) (blob_data b)\<rparr>)))"

text \<open>The two nested loops that write \<open>d[c * rows + r]\<close>.\<close>

definition transpose_loop :: "(nat \<Rightarrow> 'a) \<Rightarrow> nat \<Rightarrow> nat \<Rightarrow> 'a list \<Rightarrow> 'a list" where
  "transpose_loop s rows cols d =
     foldl (\<lambda>d r. foldl (\<lambda>d c. d[c * rows + r := s (r * cols + c)]) d [0..<cols]) d [0..<rows]"

definition from_fp16_transposed :: "byte list \<Rightarrow> nat \<Rightarrow> nat \<Rightarrow> WeightBlob res" where
  "from_fp16_transposed src rows cols =
     (let count = rows * cols; b = make_blob (count * 2); s = halves src in
      if length s < count then Inl (Undefined_behaviour ''read out of bounds'')
      else let d = transpose_loop (\<lambda>i. s ! i) rows cols (halves (drop kDataOffset (blob_data b)))
           in Inr (compute_hash (b\<lparr>blob_data := put_bytes kDataOffset (half_bytes d) (blob_data b)\<rparr>)))"

definition from_fp32 :: "u32 list \<Rightarrow> nat \<Rightarrow> nat \<Rightarrow> bool \<Rightarrow> WeightBlob res" where
  "from_fp32 src rows cols transposed =
     (let count = rows * cols; b = make_blob (count * 2); dst = halves (drop kDataOffset (blob_data b)) in
      if length src < count then Inl (Undefined_behaviour ''read out of bounds'')
      else let d = (if transposed then transpose_loop (\<lambda>i. fp32_to_fp16 (src ! i)) rows cols dst
                    else foldl (\<lambda>d i. d[i := fp32_to_fp16 (src ! i)]) dst [0..<count])
           in Inr (compute_hash (b\<lparr>blob_data := put_bytes kDataOffset (half_bytes d) (blob_data b)\<rparr>)))"

section \<open>Layout\<close>

definition blob_header :: "nat \<Rightarrow> byte list" where
  "blob_header n = 1 # replicate 3 0 @ 2 # replicate 59 0 @ le_bytes 4 0xDEADBEEF @ 1 # replicate 3 0
     @ le_bytes 4 (to_u32 n) @ replicate 4 0 @ le_bytes 4 128 @ replicate 44 0"

lemma length_blob_header [simp]: "length (blob_header n) = 128"
  by (simp add: blob_header_def)

lemma update_mid: "i = length xs \<Longrightarrow> (xs @ y # zs)[i := v] = xs @ v # zs"
  by (simp add: list_update_append)

lemma make_blob_data: "blob_data (make_blob n) = blob_header n @ replicate n 0"
proof -
  define tail :: "byte list" where "tail = replicate n 0"
  define z :: "nat \<Rightarrow> byte list" where "z k = replicate k 0" for k
  have len [simp]: "length (z k) = k" for k by (simp add: z_def)
  have z_add: "z a @ z b @ xs = z (a + b) @ xs" and z_1: "0 # xs = z 1 @ xs" for a b xs
    by (simp_all add: z_def replicate_add)
  have d0: "replicate (kDataOffset + n) 0 = [] @ 0 # z 3 @ 0 # z 59 @ z 4 @ 0 # z 3 @ z 4 @ z 4 @ z 4 @ z 44 @ tail"
    unfolding tail_def z_1 by (simp add: z_add, simp add: z_def kDataOffset_def replicate_add)
  have d1: "([] @ 0 # z 3 @ 0 # z 59 @ z 4 @ 0 # z 3 @ z 4 @ z 4 @ z 4 @ z 44 @ tail)[0 := 1, 4 := 2]
    = (1 # z 3 @ 2 # z 59) @ z 4 @ 0 # z 3 @ z 4 @ z 4 @ z 4 @ z 44 @ tail"
    using update_mid [of 4 "1 # z 3" 0 _ 2] by simp
  have d2: "put_bytes 64 (le_bytes 4 0xDEADBEEF) ((1 # z 3 @ 2 # z 59) @ z 4 @ 0 # z 3 @ z 4 @ z 4 @ z 4 @ z 44 @ tail)
    = ((1 # z 3 @ 2 # z 59) @ le_bytes 4 0xDEADBEEF) @ 0 # z 3 @ z 4 @ z 4 @ z 4 @ z 44 @ tail"
    by (subst put_bytes_mid) simp_all
  have d2b: "(((1 # z 3 @ 2 # z 59) @ le_bytes 4 0xDEADBEEF) @ 0 # z 3 @ z 4 @ z 4 @ z 4 @ z 44 @ tail)[64 + 4 := 1]
    = ((1 # z 3 @ 2 # z 59) @ le_bytes 4 0xDEADBEEF @ 1 # z 3) @ z 4 @ z 4 @ z 4 @ z 44 @ tail"
    by (subst update_mid) simp_all
  have d3: "put_bytes 72 (le_bytes 4 (to_u32 n)) \<dots>
    = ((1 # z 3 @ 2 # z 59) @ le_bytes 4 0xDEADBEEF @ (1 # z 3) @ le_bytes 4 (to_u32 n) @ z 4) @ z 4 @ z 44 @ tail"
    by (subst put_bytes_mid) simp_all
  have d4: "put_bytes 80 (le_bytes 4 128) \<dots>
    = ((1 # z 3 @ 2 # z 59) @ le_bytes 4 0xDEADBEEF @ (1 # z 3) @ le_bytes 4 (to_u32 n) @ z 4) @ le_bytes 4 128 @ z 44 @ tail"
    by (subst put_bytes_mid) simp_all
  show ?thesis
    unfolding make_blob_def Let_def d0 d1 d2 d2b d3 d4
    by (simp add: blob_header_def tail_def z_def)
qed

lemma compute_hash_data [simp]: "blob_data (compute_hash b) = blob_data b"
  by (simp add: compute_hash_def)

lemma compute_hash_eq:
  "blob_hash (compute_hash b) =
     (if length (blob_data b) \<le> 128 then 0 else xxhash64 (drop 128 (blob_data b)) 0)"
  by (simp add: compute_hash_def kDataOffset_def)

lemma put_data: "length src = n \<Longrightarrow> put_bytes kDataOffset src (blob_data (make_blob n)) = blob_header n @ src"
  by (simp add: put_bytes_def make_blob_data kDataOffset_def)

lemma from_fp16_data:
  assumes "from_fp16 src n = Inr b"
  shows "n \<le> length src" "blob_data b = blob_header n @ take n src"
    "blob_hash b = (if n = 0 then 0 else xxhash64 (take n src) 0)"
  using assms by (auto simp: from_fp16_def put_data compute_hash_eq Let_def split: if_splits)

lemma from_fp16_ok: "is_ok (from_fp16 src n) \<longleftrightarrow> n \<le> length src"
  by (simp add: from_fp16_def Let_def)

section \<open>Transposition\<close>

lemma foldl_update_other:
  "i \<notin> f ` set xs \<Longrightarrow> foldl (\<lambda>d x. d[f x := v x]) d xs ! i = d ! i"
  by (induction xs arbitrary: d) auto

lemma length_foldl_update [simp]: "length (foldl (\<lambda>d x. d[f x := v x]) d xs) = length d"
  by (induction xs arbitrary: d) auto

lemma foldl_update:
  "x \<in> set xs \<Longrightarrow> distinct xs \<Longrightarrow> inj_on f (set xs) \<Longrightarrow> f x < length d
     \<Longrightarrow> foldl (\<lambda>d x. d[f x := v x]) d xs ! f x = v x"
proof (induction xs arbitrary: d)
  case (Cons y ys)
  show ?case
  proof (cases "x = y")
    case True
    then have "f x \<notin> f ` set ys" using Cons.prems by (auto simp: inj_on_def)
    then show ?thesis using True Cons.prems by (simp add: foldl_update_other)
  next
    case False
    then show ?thesis using Cons by (auto simp: inj_on_def)
  qed
qed simp

lemma transpose_flat:
  "transpose_loop s rows cols d =
     foldl (\<lambda>d x. d[snd x * rows + fst x := s (fst x * cols + snd x)]) d (List.product [0..<rows] [0..<cols])"
proof -
  have "foldl (\<lambda>d r. foldl (\<lambda>d c. d[c * rows + r := s (r * cols + c)]) d cs) d rs
    = foldl (\<lambda>d x. d[snd x * rows + fst x := s (fst x * cols + snd x)]) d (List.product rs cs)" for cs rs
    by (induction rs arbitrary: d) (simp_all add: foldl_map)
  then show ?thesis by (simp add: transpose_loop_def)
qed

lemma grid_inj: "inj_on (\<lambda>x. snd x * rows + fst x) (set (List.product [0..<rows] [0..<cols]))"
proof -
  have dm: "(c * rows + r) mod rows = r" "(c * rows + r) div rows = c" if "r < rows" for r c :: nat
    using that by auto
  show ?thesis
  proof (rule inj_onI)
    fix x y assume "x \<in> set (List.product [0..<rows] [0..<cols])" "y \<in> set (List.product [0..<rows] [0..<cols])"
      and eq: "snd x * rows + fst x = snd y * rows + fst y"
    then have r: "fst x < rows" "fst y < rows" by auto
    have "fst x = fst y" using arg_cong [OF eq, of "\<lambda>k. k mod rows"] by (simp only: dm(1) [OF r(1)] dm(1) [OF r(2)])
    moreover have "snd x = snd y"
      using arg_cong [OF eq, of "\<lambda>k. k div rows"] by (simp only: dm(2) [OF r(1)] dm(2) [OF r(2)])
    ultimately show "x = y" by (rule prod_eqI)
  qed
qed

lemma grid_bound: "r < rows \<Longrightarrow> c < cols \<Longrightarrow> c * rows + r < rows * (cols :: nat)"
proof -
  assume "r < rows" "c < cols"
  then have "c * rows + r < Suc c * rows" by simp
  also have "\<dots> \<le> cols * rows" using \<open>c < cols\<close> by (intro mult_le_mono1) simp
  finally show ?thesis by (simp add: mult.commute)
qed

lemma length_transpose_loop [simp]: "length (transpose_loop s rows cols d) = length d"
  by (simp add: transpose_flat)

lemma nth_transpose_loop:
  assumes "r < rows" "c < cols" "length d = rows * cols"
  shows "transpose_loop s rows cols d ! (c * rows + r) = s (r * cols + c)"
proof -
  have "(r, c) \<in> set (List.product [0..<rows] [0..<cols])" using assms by simp
  from foldl_update [OF this distinct_product [OF distinct_upt distinct_upt] grid_inj,
      where v = "\<lambda>x. s (fst x * cols + snd x)" and d = d]
  show ?thesis using grid_bound [OF assms(1,2)] assms(3)
    by (simp add: transpose_flat)
qed

lemma from_fp16_transposed_data:
  assumes "from_fp16_transposed src rows cols = Inr b"
  shows "rows * cols \<le> length (halves src)"
    "\<exists>d. blob_data b = blob_header (rows * cols * 2) @ half_bytes d \<and> length d = rows * cols
      \<and> (\<forall>r < rows. \<forall>c < cols. d ! (c * rows + r) = halves src ! (r * cols + c))"
proof -
  let ?d = "transpose_loop (\<lambda>i. halves src ! i) rows cols (halves (drop kDataOffset (blob_data (make_blob (rows * cols * 2)))))"
  show "rows * cols \<le> length (halves src)"
    using assms by (simp add: from_fp16_transposed_def Let_def split: if_splits)
  have z: "halves (drop kDataOffset (blob_data (make_blob (rows * cols * 2)))) = replicate (rows * cols) 0"
    using halves_zero [of "rows * cols"] by (simp add: make_blob_data kDataOffset_def mult.commute)
  have "blob_data b = blob_header (rows * cols * 2) @ half_bytes ?d"
    using assms z by (auto simp: from_fp16_transposed_def Let_def put_data split: if_splits)
  then show "\<exists>d. blob_data b = blob_header (rows * cols * 2) @ half_bytes d \<and> length d = rows * cols
      \<and> (\<forall>r < rows. \<forall>c < cols. d ! (c * rows + r) = halves src ! (r * cols + c))"
    using z by (intro exI [of _ ?d]) (simp add: nth_transpose_loop)
qed

lemma from_fp16_transposed_ok: "is_ok (from_fp16_transposed src rows cols) \<longleftrightarrow> rows * cols \<le> length src div 2"
  by (simp add: from_fp16_transposed_def Let_def length_halves)

section \<open>Known answers of the hash\<close>

lemmas xx_eval = xxhash64_def xx_head_def xx_words.simps xx_half_word_def xx_avalanche_def P5_def P1_def P2_def P3_def P4_def rotl_def lane_def xx_round_def xx_merge_def

lemma xx_stripes_last: "length p < 64 \<Longrightarrow> xx_stripes (v1, v2, v3, v4) p =
    ((xx_round v1 (lane 8 p), xx_round v2 (lane 8 (drop 8 p)), xx_round v3 (lane 8 (drop 16 p)),
      xx_round v4 (lane 8 (drop 24 p))), drop 32 p)"
proof -
  assume "length p < 64"
  then have "\<not> length (drop 32 p) \<ge> 32" by simp
  then show ?thesis unfolding xx_stripes.simps [of v1 v2 v3 v4 p] Let_def by (simp only: if_False)
qed

text \<open>\<open>Nobody inspects the spammish repetition\<close>\<close>

definition sample :: "byte list" where
  "sample = [78, 111, 98, 111, 100, 121, 32, 105, 110, 115, 112, 101, 99, 116, 115, 32, 116, 104, 101, 32, 115, 112, 97, 109, 109, 105, 115, 104, 32, 114, 101, 112, 101, 116, 105, 116, 105, 111, 110]"

lemma sample_stripes: "xx_stripes (0 + P1 + P2, 0 + P2, 0, 0 - P1) sample = ((3973390001945083467, 1959113162029503183, 14799629111262711754, 2024056041550129738), [101, 116, 105, 116, 105, 111, 110])"
  by (simp add: sample_def xx_stripes_last lane_def xx_round_def P1_def P2_def rotl_def)

lemma sample_head: "xx_head sample 0 = (9579768019787294901, [101, 116, 105, 116, 105, 111, 110])"
proof -
  have "length sample \<ge> 32" by (simp add: sample_def)
  then show ?thesis unfolding xx_head_def sample_stripes by (simp add: xx_merge_def P1_def P2_def P4_def rotl_def)
qed

lemma sample_hash: "xxhash64 sample 0 = 0xFBCEA83C8A378BF1"
proof -
  have "length sample = 39" by (simp add: sample_def)
  then show ?thesis unfolding xxhash64_def sample_head by (simp add: xx_eval)
qed

text \<open>
  \<open>xxhash64\<close> gives the digests published for XXH64 with seed 0: the empty input, one byte,
  three bytes, and a 39-byte input that goes through the stripe loop, the accumulator merge, the
  four-byte step and the byte loop.
\<close>

theorem xxhash64_vectors:
  "xxhash64 [] 0 = 0xEF46DB3751D8E999 \<and> xxhash64 [97] 0 = 0xD24EC4F1A98C6E5B
     \<and> xxhash64 [97, 98, 99] 0 = 0x44BC2CF5AD770999 \<and> xxhash64 sample 0 = 0xFBCEA83C8A378BF1"
proof (intro conjI)
  show "xxhash64 sample 0 = 0xFBCEA83C8A378BF1" by (rule sample_hash)
qed (simp_all add: xx_eval)

section \<open>Blobs round trip\<close>

text \<open>
  C18. A blob built from \<open>n\<close> weight bytes has 128 header bytes with the chunk magic at 64, the byte
  count at 72 and the data offset at 80, then exactly those bytes, and its hash is that of the
  data section.
\<close>

theorem weight_blob_layout:
  assumes "from_fp16 src n = Inr b" "n < 2 ^ 32"
  shows "length (blob_data b) = 128 + n \<and> drop 128 (blob_data b) = take n src
    \<and> take 4 (drop 64 (blob_data b)) = le_bytes 4 0xDEADBEEF
    \<and> le_nat (take 4 (drop 72 (blob_data b))) = n
    \<and> le_nat (take 4 (drop 80 (blob_data b))) = kDataOffset
    \<and> blob_hash b = (if n = 0 then 0 else xxhash64 (drop 128 (blob_data b)) 0)"
proof -
  note d = from_fp16_data [OF assms(1)]
  define z :: "nat \<Rightarrow> byte list" where "z k = replicate k 0" for k
  have [simp]: "length (z k) = k" for k by (simp add: z_def)
  define A where "A = 1 # z 3 @ 2 # z 59"
  define B where "B = A @ le_bytes 4 0xDEADBEEF @ 1 # z 3"
  define C where "C = B @ le_bytes 4 (to_u32 n) @ z 4"
  have len: "length A = 64" "length B = 72" "length C = 80" by (simp_all add: A_def B_def C_def)
  have C: "blob_data b = C @ le_bytes 4 128 @ z 44 @ take n src"
    using d(2) by (simp add: A_def B_def C_def blob_header_def z_def)
  then have B: "blob_data b = B @ le_bytes 4 (to_u32 n) @ z 4 @ le_bytes 4 128 @ z 44 @ take n src"
    by (simp add: C_def)
  then have A: "blob_data b = A @ le_bytes 4 0xDEADBEEF @ drop 68 (blob_data b)"
    by (simp add: B_def len)
  have "take 4 (drop 64 (blob_data b)) = le_bytes 4 0xDEADBEEF" by (subst A) (simp add: len)
  moreover have "le_nat (take 4 (drop 72 (blob_data b))) = n"
    using assms(2) by (subst B) (simp add: len le_nat_le_bytes)
  moreover have "le_nat (take 4 (drop 80 (blob_data b))) = kDataOffset"
    by (subst C) (simp add: len le_nat_le_bytes kDataOffset_def)
  ultimately show ?thesis using d by simp
qed

theorem weight_blob_layout_witness:
  "\<exists>b. from_fp16 [0x00, 0x3C, 0x00, 0xC0] 4 = Inr b \<and> length (blob_data b) = 132
     \<and> le_nat (take 4 (drop 72 (blob_data b))) = 4"
proof -
  have "is_ok (from_fp16 [0x00, 0x3C, 0x00, 0xC0] 4)" by (simp add: from_fp16_ok)
  then obtain b where b: "from_fp16 [0x00, 0x3C, 0x00, 0xC0] 4 = Inr b" by (auto simp: res_simps)
  from weight_blob_layout [OF b] b show ?thesis by auto
qed

text \<open>
  C19. Transposing a \<open>rows\<close> by \<open>cols\<close> matrix of halves into a blob succeeds whenever the source
  is large enough; element \<open>(r, c)\<close> of the source is element \<open>(c, r)\<close> of the data section, and
  transposing the data section back restores the source.
\<close>

theorem transposed_blob:
  assumes "length src = 2 * (rows * cols)"
  shows "\<exists>b b'. from_fp16_transposed src rows cols = Inr b \<and> length (blob_data b) = 128 + length src
    \<and> (\<forall>r < rows. \<forall>c < cols. halves (drop 128 (blob_data b)) ! (c * rows + r) = halves src ! (r * cols + c))
    \<and> from_fp16_transposed (drop 128 (blob_data b)) cols rows = Inr b' \<and> drop 128 (blob_data b') = src"
proof -
  have "is_ok (from_fp16_transposed src rows cols)" using assms by (simp add: from_fp16_transposed_ok)
  then obtain b where b: "from_fp16_transposed src rows cols = Inr b" by (auto simp: res_simps)
  from from_fp16_transposed_data(2) [OF this] obtain d where
    d: "blob_data b = blob_header (rows * cols * 2) @ half_bytes d" "length d = rows * cols"
      "\<forall>r < rows. \<forall>c < cols. d ! (c * rows + r) = halves src ! (r * cols + c)" by blast
  then have dat: "drop 128 (blob_data b) = half_bytes d" by simp
  have "is_ok (from_fp16_transposed (half_bytes d) cols rows)"
    using d(2) by (simp add: from_fp16_transposed_ok mult.commute)
  then obtain b' where b': "from_fp16_transposed (half_bytes d) cols rows = Inr b'" by (auto simp: res_simps)
  from from_fp16_transposed_data(2) [OF this] obtain d' where
    d': "blob_data b' = blob_header (cols * rows * 2) @ half_bytes d'" "length d' = cols * rows"
      "\<forall>r < cols. \<forall>c < rows. d' ! (c * cols + r) = d ! (r * rows + c)"
    by (auto simp: halves_half_bytes)
  have "d' = halves src"
  proof (rule nth_equalityI)
    show "length d' = length (halves src)" using d'(2) assms by (simp add: length_halves mult.commute)
    fix i assume "i < length d'"
    then have i: "i < rows * cols" using d'(2) by (simp add: mult.commute)
    then have "0 < cols" by (cases cols) auto
    then have "i div cols < rows" "i mod cols < cols" "i = i div cols * cols + i mod cols"
      using i by (simp_all add: less_mult_imp_div_less)
    then show "d' ! i = halves src ! i" using d(3) d'(3) by metis
  qed
  then have "drop 128 (blob_data b') = src" using d'(1) assms by (simp add: half_bytes_halves)
  then show ?thesis using b b' d dat assms by (simp add: halves_half_bytes)
qed

theorem transposed_blob_witness:
  "\<exists>b. from_fp16_transposed [1, 0, 2, 0, 3, 0, 4, 0, 5, 0, 6, 0] 2 3 = Inr b \<and> length (blob_data b) = 140"
  using transposed_blob [of "[1, 0, 2, 0, 3, 0, 4, 0, 5, 0, 6, 0]" 2 3] by auto

end
