(* ===== verification/MilBackend.thy ===== *)
theory MilBackend
  imports GraphValidator FusionRules MilFused WeightBlob
begin


text \<open>
  \<open>MilBackend\<close> (src/graph/mil_backend.cpp): the translation of one fusion group into a MIL
  program with its weight files. The runtime's \<open>ane_compile\<close> is a parameter. \<open>mil_env\<close> holds
  the floating-point operations and renderings the emitters need. An access to \<open>inputs[k]\<close>
  outside the vector is undefined behaviour, and so is a copy that leaves a vector. A weight
  vector of a piecewise-linear node is shorter than \<open>2 ^ 31\<close> bytes, as the \<open>int\<close> cast of its
  size assumes.

  \<open>emittable\<close> is what the emitters ask of a node beyond the validator's checks.
\<close>

record mil_env =
  floats :: float_env
  inv_lit :: "int \<Rightarrow> string"
  eps_lit :: string

definition tensor_var :: "TensorId \<Rightarrow> string" where
  "tensor_var i = ''t'' @ nat_to_string i"

definition side_var :: "GraphNode \<Rightarrow> nat \<Rightarrow> string res" where
  "side_var n k = (if k < length (n_inputs n) then Inr (tensor_var (n_inputs n ! k))
     else Inl (Undefined_behaviour ''node.inputs out of range''))"

definition beta_file_name :: "string \<Rightarrow> string" where
  "beta_file_name f = (if length f > 4 then take (length f - 4) f @ ''b.bin'' else f)"

text \<open>The switch up to \<open>REDUCE_MAX\<close>; \<open>None\<close> when its label comes later.\<close>

definition node_to_fragment_head ::
  "mil_env \<Rightarrow> GraphNode \<Rightarrow> TensorShape \<Rightarrow> TensorShape \<Rightarrow> string \<Rightarrow> string \<Rightarrow> MilFragment res option" where
  "node_to_fragment_head E n in_shape out_shape in_var out_var =
     (let binary = (\<lambda>emit. Some (bind_res (side_var n 1) (\<lambda>side.
            emit (channels out_shape) (seq out_shape) in_var side out_var)));
          unary = (\<lambda>emit. Some (emit (channels out_shape) (seq out_shape) in_var out_var));
          reduce = (\<lambda>emit. Some (emit (channels in_shape) (seq in_shape) in_var out_var))
      in case n_op n of
        LIBANE_OP_MATMUL \<Rightarrow> Some (matmul_fragment (channels in_shape) (channels out_shape) (seq out_shape)
          in_var out_var (n_weight_file n))
      | LIBANE_OP_RMSNORM \<Rightarrow> Some (rmsnorm_fragment (channels in_shape) (seq in_shape)
          in_var out_var (n_weight_file n) (inv_lit E))
      | LIBANE_OP_LAYERNORM \<Rightarrow> Some (layernorm_fragment (channels in_shape) (seq in_shape)
          in_var out_var (n_weight_file n) (beta_file_name (n_weight_file n)) (eps_lit E))
      | LIBANE_OP_LAYER_NORM \<Rightarrow> Some (layernorm_fragment (channels in_shape) (seq in_shape)
          in_var out_var (n_weight_file n) (beta_file_name (n_weight_file n)) (eps_lit E))
      | LIBANE_OP_GELU \<Rightarrow> unary gelu_fragment
      | LIBANE_OP_SILU \<Rightarrow> unary silu_fragment
      | LIBANE_OP_SOFTMAX \<Rightarrow> unary softmax_fragment
      | LIBANE_OP_AVG_POOL \<Rightarrow> unary avg_pool_fragment
      | LIBANE_OP_MAX_POOL \<Rightarrow> unary max_pool_fragment
      | LIBANE_OP_TRANSPOSE \<Rightarrow> reduce transpose_fragment
      | LIBANE_OP_RESHAPE \<Rightarrow> Some (reshape_fragment (channels in_shape) (seq in_shape)
          (channels out_shape) (seq out_shape) in_var out_var)
      | LIBANE_OP_ADD \<Rightarrow> binary add_fragment
      | LIBANE_OP_MUL \<Rightarrow> binary mul_fragment
      | LIBANE_OP_SUB \<Rightarrow> binary sub_fragment
      | LIBANE_OP_REAL_DIV \<Rightarrow> binary real_div_fragment
      | LIBANE_OP_LOGICAL_AND \<Rightarrow> binary logical_and_fragment
      | LIBANE_OP_LOGICAL_OR \<Rightarrow> binary logical_or_fragment
      | LIBANE_OP_LOGICAL_XOR \<Rightarrow> binary logical_xor_fragment
      | LIBANE_OP_REDUCE_PROD \<Rightarrow> reduce reduce_prod_fragment
      | LIBANE_OP_REDUCE_SUM \<Rightarrow> reduce reduce_sum_fragment
      | LIBANE_OP_REDUCE_MEAN \<Rightarrow> reduce reduce_mean_fragment
      | LIBANE_OP_REDUCE_MAX \<Rightarrow> reduce reduce_max_fragment
      | _ \<Rightarrow> None)"

text \<open>\<open>float\<close> elements of the weight bytes.\<close>

fun words32 :: "byte list \<Rightarrow> u32 list" where
  "words32 (a # b # c # d # bs) = of_nat (le_nat [a, b, c, d]) # words32 bs"
| "words32 _ = []"

definition pwl_node_fragment :: "mil_env \<Rightarrow> GraphNode \<Rightarrow> TensorShape \<Rightarrow> string \<Rightarrow> string \<Rightarrow> MilFragment res" where
  "pwl_node_fragment E n out_shape in_var out_var =
     (let fv = words32 (n_weights n) in
      if length (n_weights n) mod 4 \<noteq> 0 \<or> length fv < 2
      then Inl (Undefined_behaviour ''weights vector out of range'')
      else pwl_activation_fragment (floats E) (channels out_shape) (seq out_shape)
             (fv ! 0) (fv ! 1) (drop 2 fv) in_var out_var)"

text \<open>The rest of the switch, with its \<open>default\<close>.\<close>

definition node_to_fragment_tail ::
  "mil_env \<Rightarrow> GraphNode \<Rightarrow> TensorShape \<Rightarrow> TensorShape \<Rightarrow> string \<Rightarrow> string \<Rightarrow> MilFragment res" where
  "node_to_fragment_tail E n in_shape out_shape in_var out_var =
     (let C = channels out_shape; SP = seq out_shape;
          unary = (\<lambda>emit. emit C SP in_var out_var);
          scatter = bind_res (side_var n 1) (\<lambda>side.
            scatter_static_mask_fragment C SP in_var side out_var (n_weight_file n))
      in case n_op n of
        LIBANE_OP_SCATTER \<Rightarrow> scatter
      | LIBANE_OP_SCATTER_ND \<Rightarrow> scatter
      | LIBANE_OP_SCATTER_ALONG_AXIS \<Rightarrow> scatter
      | LIBANE_OP_GATHER \<Rightarrow>
          (if length (n_inputs n) = 1 then gather_static_mask_fragment C SP in_var out_var (n_weight_file n)
           else bind_res (side_var n 1) (\<lambda>side. gather_dynamic_mask_fragment C SP in_var side out_var))
      | LIBANE_OP_NEG \<Rightarrow> unary neg_fragment
      | LIBANE_OP_MOD \<Rightarrow> bind_res (side_var n 1) (\<lambda>side. mod_fragment C SP in_var side out_var)
      | LIBANE_OP_SINH \<Rightarrow> unary sinh_fragment
      | LIBANE_OP_COSH \<Rightarrow> unary cosh_fragment
      | LIBANE_OP_TAN \<Rightarrow> unary tan_fragment
      | LIBANE_OP_ASIN \<Rightarrow> unary asin_fragment
      | LIBANE_OP_ACOS \<Rightarrow> unary acos_fragment
      | LIBANE_OP_SELECT \<Rightarrow> bind_res (side_var n 1) (\<lambda>x. bind_res (side_var n 2) (\<lambda>y.
          select_fragment C SP in_var x y out_var))
      | LIBANE_OP_CONCAT \<Rightarrow> bind_res (side_var n 1) (\<lambda>side.
          concat_fragment (channels in_shape) C SP in_var side out_var)
      | LIBANE_OP_SLICE_BY_INDEX \<Rightarrow>
          slice_by_index_fragment (channels in_shape) (seq in_shape) C SP in_var out_var
      | LIBANE_OP_SQRT \<Rightarrow> unary sqrt_fragment
      | LIBANE_OP_LOG \<Rightarrow> unary log_fragment
      | LIBANE_OP_RSQRT \<Rightarrow> unary rsqrt_fragment
      | LIBANE_OP_RELU \<Rightarrow> unary relu_fragment
      | LIBANE_OP_TANH \<Rightarrow> unary tanh_fragment
      | LIBANE_OP_SIGMOID \<Rightarrow> unary sigmoid_fragment
      | LIBANE_OP_HARDSWISH \<Rightarrow> unary hardswish_fragment
      | LIBANE_OP_LEAKY_RELU \<Rightarrow> unary leaky_relu_fragment
      | LIBANE_OP_ELU \<Rightarrow> unary elu_fragment
      | LIBANE_OP_PIXEL_SHUFFLE \<Rightarrow>
          (let r = (if length (n_weights n) = 4 then le_int32 (n_weights n) else 0)
           in pixel_shuffle_fragment C (seq in_shape) r in_var out_var)
      | LIBANE_OP_PWL_ACTIVATION \<Rightarrow> pwl_node_fragment E n out_shape in_var out_var
      | _ \<Rightarrow> Inl (Runtime_error (''MilBackend::node_to_fragment: unsupported op '' @ to_string (op_code (n_op n)))))"

definition node_to_fragment ::
  "mil_env \<Rightarrow> AneGraph \<Rightarrow> GraphNode \<Rightarrow> string \<Rightarrow> string \<Rightarrow> MilFragment res" where
  "node_to_fragment E g n in_var out_var =
     bind_res (tensor g (if n_inputs n = [] then kInvalidTensorId else n_inputs n ! 0)) (\<lambda>it.
     bind_res (tensor g (n_output n)) (\<lambda>ot.
       case node_to_fragment_head E n (t_shape it) (t_shape ot) in_var out_var of
         Some r \<Rightarrow> r
       | None \<Rightarrow> node_to_fragment_tail E n (t_shape it) (t_shape ot) in_var out_var))"

section \<open>Weight files\<close>

type_synonym weight_entry = "string \<times> byte list"

definition node_weights :: "AneGraph \<Rightarrow> GraphNode \<Rightarrow> weight_entry list res" where
  "node_weights g n =
     (let ws = n_weights n; f = n_weight_file n in
      if f = '''' \<or> ws = [] then Inr []
      else if n_op n = LIBANE_OP_LAYERNORM \<or> n_op n = LIBANE_OP_LAYER_NORM then
        let half = length ws div 2
        in bind_res (from_fp16 ws half) (\<lambda>gamma.
           bind_res (from_fp16 (drop half ws) half) (\<lambda>beta.
             Inr [(f, blob_data gamma), (beta_file_name f, blob_data beta)]))
      else if n_op n = LIBANE_OP_MATMUL then
        if n_inputs n = [] then Inl (Undefined_behaviour ''node.inputs out of range'')
        else bind_res (tensor g (n_inputs n ! 0)) (\<lambda>it. bind_res (tensor g (n_output n)) (\<lambda>ot.
          bind_res (from_fp16_transposed ws (nat (channels (t_shape it))) (nat (channels (t_shape ot)))) (\<lambda>blob.
            Inr [(f, blob_data blob)])))
      else bind_res (from_fp16 ws (length ws)) (\<lambda>blob. Inr [(f, blob_data blob)]))"

section \<open>Groups\<close>

text \<open>The loop over the group's nodes, from the current \<open>chain_var\<close>.\<close>

fun group_fragments :: "mil_env \<Rightarrow> AneGraph \<Rightarrow> string \<Rightarrow> NodeId list
    \<Rightarrow> (MilFragment list \<times> weight_entry list) res" where
  "group_fragments E g chain_var [] = Inr ([], [])"
| "group_fragments E g chain_var (nid # nids) =
     bind_res (node g nid) (\<lambda>n.
       let out_var = tensor_var (n_output n) in
       bind_res (node_to_fragment E g n chain_var out_var) (\<lambda>fr.
       bind_res (node_weights g n) (\<lambda>ws.
       bind_res (group_fragments E g out_var nids) (\<lambda>(frs, wss). Inr (fr # frs, ws @ wss)))))"

definition fused_input :: "AneGraph \<Rightarrow> TensorId \<Rightarrow> FusedInput res" where
  "fused_input g x = bind_res (tensor g x) (\<lambda>t. Inr \<lparr>var_name = tensor_var x, fused_shape = t_shape t\<rparr>)"

definition mil_group_program ::
  "mil_env \<Rightarrow> AneGraph \<Rightarrow> FusionGroup \<Rightarrow> (MilProgram \<times> weight_entry list) res" where
  "mil_group_program E g gr =
     (if gr_inputs gr = [] then Inl (Undefined_behaviour ''group.inputs[0]'')
      else bind_res (map_res (fused_input g) (gr_inputs gr)) (\<lambda>ins.
        bind_res (group_fragments E g (tensor_var (gr_inputs gr ! 0)) (node_ids gr)) (\<lambda>(frs, ws).
        bind_res (build_fused ins frs) (\<lambda>p. Inr (p, ws)))))"

definition mil_owns :: "AneGraph \<Rightarrow> FusionGroup \<Rightarrow> bool" where
  "mil_owns g gr = True"

definition mil_compile_group ::
  "mil_env \<Rightarrow> (string \<Rightarrow> weight_entry list \<Rightarrow> string \<Rightarrow> 'prog option) \<Rightarrow> AneGraph \<Rightarrow> FusionGroup \<Rightarrow> string
     \<Rightarrow> 'prog option res" where
  "mil_compile_group E ane_compile g gr debug_name =
     bind_res (mil_group_program E g gr) (\<lambda>(p, ws). Inr (ane_compile (prog_text p) ws debug_name))"

section \<open>Well-formed fragments\<close>


lemma tensor_InrD: "tensor g i = Inr t \<Longrightarrow> t = tensors g ! i"
  by (simp add: tensor_def split: if_splits)

lemma side_var_Inr [simp]: "side_var n k = Inr v \<longleftrightarrow> k < length (n_inputs n) \<and> v = tensor_var (n_inputs n ! k)"
  by (auto simp: side_var_def)

lemma pwl_node_fragment_wf [frag_rules]:
  assumes "pwl_node_fragment E n y in_var out_var = Inr fr" "in_var \<in> S" "fresh_for out_var S"
  shows "frag_wf S fr \<and> frag_output fr = out_var"
  using assms pwl_activation_fragment_wf [OF _ assms(2,3)]
  by (auto simp: pwl_node_fragment_def Let_def split: if_splits)

lemma head_fragment_wf:
  assumes "node_to_fragment_head E n x y in_var out_var = Some (Inr fr)" "in_var \<in> S" "fresh_for out_var S"
    and "\<And>k. k < length (n_inputs n) \<Longrightarrow> 0 < k \<Longrightarrow> tensor_var (n_inputs n ! k) \<in> S"
  shows "frag_wf S fr \<and> frag_output fr = out_var"
  using assms
  by (cases "n_op n")
    (simp_all add: node_to_fragment_head_def Let_def bind_res_Inr frag_rules, (elim conjE, simp add: frag_rules)+)

lemma tail_fragment_wf:
  assumes "node_to_fragment_tail E n x y in_var out_var = Inr fr" "in_var \<in> S" "fresh_for out_var S"
    and "\<And>k. k < length (n_inputs n) \<Longrightarrow> 0 < k \<Longrightarrow> tensor_var (n_inputs n ! k) \<in> S"
  shows "frag_wf S fr \<and> frag_output fr = out_var"
  using assms
  by (cases "n_op n")
    (simp_all add: node_to_fragment_tail_def Let_def bind_res_Inr frag_rules split: if_splits, (elim conjE, simp add: frag_rules)+)

section \<open>When an emitter succeeds\<close>


lemmas fragment_defs = matmul_fragment_def rmsnorm_fragment_def layernorm_fragment_def gelu_fragment_def
  silu_fragment_def softmax_fragment_def avg_pool_fragment_def max_pool_fragment_def
  add_fragment_def mul_fragment_def logical_and_fragment_def logical_or_fragment_def
  logical_xor_fragment_def reduce_prod_fragment_def scatter_static_mask_fragment_def gather_static_mask_fragment_def
  gather_dynamic_mask_fragment_def neg_fragment_def mod_fragment_def sinh_fragment_def
  cosh_fragment_def tan_fragment_def asin_fragment_def acos_fragment_def
  sub_fragment_def real_div_fragment_def sqrt_fragment_def log_fragment_def
  rsqrt_fragment_def concat_fragment_def slice_by_index_fragment_def reduce_sum_fragment_def
  reduce_mean_fragment_def reduce_max_fragment_def select_fragment_def transpose_fragment_def
  reshape_fragment_def relu_fragment_def tanh_fragment_def sigmoid_fragment_def
  hardswish_fragment_def leaky_relu_fragment_def elu_fragment_def pixel_shuffle_fragment_def
  pwl_activation_fragment_def

lemma is_ok_validate [simp]: "is_ok (bind_res (validate s) (\<lambda>_. r)) \<longleftrightarrow> shape_ok s \<and> is_ok r"
  by (auto simp: res_simps)

lemma is_ok_guard [simp]: "is_ok (if c then Inl e else r) \<longleftrightarrow> \<not> c \<and> is_ok r"
  by simp

lemma is_ok_side [simp]: "k < length (n_inputs n) \<Longrightarrow> side_var n k = Inr (tensor_var (n_inputs n ! k))"
  by simp

lemma shape_ok_mk: "shape_ok s \<Longrightarrow> shape_ok (mk_shape 1 (channels s) 1 (seq s))"
  by (simp add: shape_ok_def)

lemma shape_ok_mk2: "shape_ok s \<Longrightarrow> shape_ok t \<Longrightarrow> shape_ok (mk_shape 1 (channels s) 1 (seq t))"
  by (simp add: shape_ok_def)

lemma shape_ok_one: "shape_ok s \<Longrightarrow> shape_ok (mk_shape 1 1 1 (seq s))"
  by (simp add: shape_ok_def)

definition emittable :: "libane_op_t \<Rightarrow> TensorShape \<Rightarrow> TensorShape \<Rightarrow> byte list \<Rightarrow> bool" where
  "emittable op x y ws \<longleftrightarrow>
     (if op = LIBANE_OP_CAST then False
      else if op = LIBANE_OP_TRANSPOSE then shape_ok (mk_shape 1 (seq x) 1 (channels x))
      else if op = LIBANE_OP_CONCAT then channels x + channels y \<le> 16384
      else if op = LIBANE_OP_PIXEL_SHUFFLE then
        channels y * le_int32 ws \<le> 16384 \<and> seq x * le_int32 ws \<le> 65536
      else True)"

lemma length_words32: "length (words32 bs) = length bs div 4"
  by (induction bs rule: words32.induct) auto

lemma pixel_shuffle_fragment_ok:
  assumes "shape_ok x" "shape_ok y" "0 < r"
  shows "is_ok (pixel_shuffle_fragment (channels y) (seq x) r i out) \<longleftrightarrow>
    channels y * r \<le> 16384 \<and> seq x * r \<le> 65536"
proof -
  define A B where "A = channels y * r" and "B = seq x * r"
  have "0 < A" "0 < B" "16 dvd B" using assms by (simp_all add: shape_ok_def A_def B_def)
  then show ?thesis
    unfolding pixel_shuffle_fragment_def Let_def A_def [symmetric] B_def [symmetric]
    using assms by (auto simp: int32_ok_def shape_ok_def)
qed

lemma pwl_node_ok:
  "shape_ok y \<Longrightarrow> 16 \<le> length (n_weights n) \<Longrightarrow> 4 dvd length (n_weights n) \<Longrightarrow> is_ok (pwl_node_fragment E n y i out)"
  using div_le_mono [of 16 "length (n_weights n)" 4]
  by (simp add: pwl_node_fragment_def pwl_activation_fragment_def Let_def length_words32 shape_ok_mk)

lemma numel_eq:
  assumes "shape_ok x" "shape_ok y" "channels x * seq x = channels y * seq y"
  shows "numel (mk_shape 1 (channels x) 1 (seq x)) = numel (mk_shape 1 (channels y) 1 (seq y))"
  unfolding word_uint_eq_iff using assms by (simp add: uint_numel shape_ok_mk)

lemma head_or_tail_ok:
  assumes req: "op_requires (n_op n) xs y (n_weights n)" "length xs = length (n_inputs n)"
    and x: "xs \<noteq> []" "shape_ok (xs ! 0)" and y: "shape_ok y"
  shows "(case node_to_fragment_head E n (xs ! 0) y i out of
      Some r \<Rightarrow> is_ok r | None \<Rightarrow> is_ok (node_to_fragment_tail E n (xs ! 0) y i out))
    \<longleftrightarrow> emittable (n_op n) (xs ! 0) y (n_weights n)"
proof -
  note mk = shape_ok_mk [OF x(2)] shape_ok_mk [OF y] shape_ok_mk2 [OF x(2) y] shape_ok_one [OF x(2)]
  have cat: "shape_ok (mk_shape 1 (channels (xs ! 0) + channels y) 1 (seq y)) \<longleftrightarrow> channels (xs ! 0) + channels y \<le> 16384"
    "int32_ok (channels (xs ! 0) + channels y)" using x(2) y by (auto simp: shape_ok_def int32_ok_def)
  show ?thesis
    using req x y mk cat pixel_shuffle_fragment_ok [OF x(2) y] numel_eq [OF x(2) y]
    unfolding op_requires_def emittable_def node_to_fragment_head_def node_to_fragment_tail_def
    by (cases "n_op n")
      (simp_all add: Let_def fragment_defs unary_ops_def arith_ops_def binary_ops_def pwl_node_ok del: pixel_shuffle_fragment_def, auto)
qed


section \<open>Variable names\<close>

lemma tensor_var_inj [simp]: "tensor_var a = tensor_var b \<longleftrightarrow> a = b"
  by (simp add: tensor_var_def)

lemma tensor_var_no_underscore: "CHR ''_'' \<notin> set (tensor_var a)"
  using nat_to_string_digits [of "CHR ''_''" a] by (auto simp: tensor_var_def is_digit_def)

lemma tensor_var_prefix: "tensor_var a @ CHR ''_'' # x = tensor_var b @ CHR ''_'' # y \<longleftrightarrow> a = b \<and> x = y"
proof
  assume eq: "tensor_var a @ CHR ''_'' # x = tensor_var b @ CHR ''_'' # y"
  have "takeWhile (\<lambda>c. c \<noteq> CHR ''_'') (tensor_var k @ CHR ''_'' # z) = tensor_var k" for k z
    using tensor_var_no_underscore [of k] by (subst takeWhile_append2) auto
  then have "tensor_var a = tensor_var b" using eq by metis
  then show "a = b \<and> x = y" using eq by simp
qed simp

lemma tensor_var_neq: "tensor_var a \<noteq> tensor_var b @ CHR ''_'' # x"
  using tensor_var_no_underscore [of a] by (metis in_set_conv_decomp)

lemma own_tensor_var: "a \<noteq> b \<Longrightarrow> own (tensor_var a) \<inter> own (tensor_var b) = {}"
  using tensor_var_neq tensor_var_neq [symmetric] by (auto simp: own_def tensor_var_prefix)

lemma fresh_own: "a \<noteq> b \<Longrightarrow> fresh_for (tensor_var a) (own (tensor_var b))"
  using own_tensor_var [of a b] by (auto simp: fresh_for_def disjoint_iff)

lemma fresh_Un: "fresh_for v (S \<union> T) \<longleftrightarrow> fresh_for v S \<and> fresh_for v T"
  by (auto simp: fresh_for_def)

lemma fresh_mono: "fresh_for v S \<Longrightarrow> T \<subseteq> S \<Longrightarrow> fresh_for v T"
  by (auto simp: fresh_for_def)

lemma fresh_vars: "a \<notin> X \<Longrightarrow> fresh_for (tensor_var a) (tensor_var ` X)"
  using tensor_var_neq tensor_var_neq [symmetric] by (auto simp: fresh_for_def)

section \<open>Files and declared shapes\<close>

definition file_names :: "GraphNode \<Rightarrow> string set" where
  "file_names n =
     (if n_op n \<in> {LIBANE_OP_LAYERNORM, LIBANE_OP_LAYER_NORM} then {n_weight_file n, beta_file_name (n_weight_file n)}
      else if n_op n \<in> {LIBANE_OP_MATMUL, LIBANE_OP_RMSNORM, LIBANE_OP_SCATTER, LIBANE_OP_SCATTER_ND,
          LIBANE_OP_SCATTER_ALONG_AXIS} \<or> n_op n = LIBANE_OP_GATHER \<and> length (n_inputs n) = 1
      then {n_weight_file n} else {})"

definition declared_shape :: "libane_op_t \<Rightarrow> TensorShape \<Rightarrow> TensorShape \<Rightarrow> byte list \<Rightarrow> TensorShape" where
  "declared_shape op x y ws =
     (if op \<in> {LIBANE_OP_RMSNORM, LIBANE_OP_LAYERNORM, LIBANE_OP_LAYER_NORM} then x
      else if op = LIBANE_OP_TRANSPOSE then mk_shape 1 (seq x) 1 (channels x)
      else if op = LIBANE_OP_CONCAT then mk_shape 1 (channels x + channels y) 1 (seq y)
      else if op \<in> {LIBANE_OP_REDUCE_PROD, LIBANE_OP_REDUCE_SUM, LIBANE_OP_REDUCE_MEAN, LIBANE_OP_REDUCE_MAX}
        then mk_shape 1 1 1 (seq x)
      else if op = LIBANE_OP_PIXEL_SHUFFLE then mk_shape 1 (channels y) 1 (seq x * le_int32 ws)
      else y)"

lemma segment_files: "files (pwl_segment p tt tb v a b u i c) = []"
  by (simp add: pwl_segment_def fp16_const_def)

lemma pwl_loop_files: "pwl_loop p tt tb v a b u k c = (sts, fin) \<Longrightarrow> files sts = []"
  by (induction k arbitrary: c sts) (auto simp: segment_files split: prod.splits)

lemma pwl_body_files: "files (pwl_body p tt tb v out a b u k) = []"
  using pwl_loop_files [of p tt tb v a b u k]
  by (auto simp: pwl_body_def Let_def fp16_const_def split: prod.splits)

lemma shape_eta: "shape_ok s \<Longrightarrow> mk_shape 1 (channels s) 1 (seq s) = s"
  by (metis shape_ok_dims)

lemma head_spec:
  assumes "node_to_fragment_head E n x y i out = Some (Inr fr)" "shape_ok x" "shape_ok y"
  shows "set (files (frag_body fr)) = file_names n \<and> frag_output_shape fr = declared_shape (n_op n) x y (n_weights n)"
  using assms shape_eta [of x] shape_eta [of y]
  by (cases "n_op n")
    (auto simp: node_to_fragment_head_def fragment_defs emit_simps bind_res_Inr file_names_def declared_shape_def
      file_ref_def blob_ref_def)

lemma tail_spec:
  assumes "node_to_fragment_tail E n x y i out = Inr fr" "shape_ok x" "shape_ok y"
    "n_op n = LIBANE_OP_PIXEL_SHUFFLE \<Longrightarrow> length (n_weights n) = 4"
    "\<And>fr. node_to_fragment_head E n x y i out \<noteq> Some (Inr fr)"
  shows "set (files (frag_body fr)) = file_names n \<and> frag_output_shape fr = declared_shape (n_op n) x y (n_weights n)"
  using assms(1-4) shape_eta [of x] shape_eta [of y]
  by (cases "n_op n")
    (auto simp: node_to_fragment_tail_def fragment_defs emit_simps bind_res_Inr file_names_def declared_shape_def
      file_ref_def blob_ref_def pwl_node_fragment_def pwl_body_files split: if_splits)

section \<open>Nodes\<close>

definition node_emittable :: "AneGraph \<Rightarrow> GraphNode \<Rightarrow> bool" where
  "node_emittable g n = emittable (n_op n) (shape_of g (n_inputs n ! 0)) (shape_of g (n_output n)) (n_weights n)"

lemma requires_input: "node_requires g n \<Longrightarrow> n_inputs n \<noteq> []"
  by (auto simp: node_requires_def op_requires_def split: if_splits)

lemma matmul_blob_ok:
  assumes "node_requires g n" "n_op n = LIBANE_OP_MATMUL"
    and sh: "shape_ok (shape_of g (n_inputs n ! 0))" "shape_ok (shape_of g (n_output n))"
  shows "is_ok (from_fp16_transposed (n_weights n)
      (nat (channels (shape_of g (n_inputs n ! 0)))) (nat (channels (shape_of g (n_output n)))))"
proof -
  have "int (length (n_weights n)) = 2 * (channels (shape_of g (n_inputs n ! 0)) * channels (shape_of g (n_output n)))"
    using assms requires_input [OF assms(1)] by (simp add: node_requires_def op_requires_def)
  then have "length (n_weights n) = 2 * (nat (channels (shape_of g (n_inputs n ! 0))) * nat (channels (shape_of g (n_output n))))"
    using sh by (simp add: shape_ok_def nat_mult_distrib [symmetric] zero_le_mult_iff)
  then show ?thesis by (simp add: from_fp16_transposed_ok)
qed

lemma files_need_weights:
  assumes "node_requires g n" "file_names n \<noteq> {}" "shape_ok (shape_of g (n_output n))"
    "shape_ok (shape_of g (n_inputs n ! 0))"
  shows "n_weights n \<noteq> []"
  using assms requires_input [OF assms(1)]
  by (cases "n_op n") (auto simp: node_requires_def op_requires_def file_names_def shape_ok_def unary_ops_def
      arith_ops_def binary_ops_def)

lemma node_weights_ok:
  assumes node: "node_in g n" and req: "node_requires g n"
  obtains ws where "node_weights g n = Inr ws" "file_names n \<subseteq> fst ` set ws"
proof -
  note d = node_inD [OF node]
  have ne: "n_inputs n \<noteq> []" using requires_input [OF req] .
  then have t: "tensor g (n_inputs n ! 0) = Inr (tensors g ! (n_inputs n ! 0))"
    using tensor_ok [OF d(1) d(5) [of 0]] by simp
  have sh: "shape_ok (shape_of g (n_inputs n ! 0))" "shape_ok (shape_of g (n_output n))" using d(4,6) ne by auto
  obtain i where "i < length (nodes g)" "n = nodes g ! i" using node by (auto simp: node_in_def in_set_conv_nth)
  then have wf: "n_weights n \<noteq> [] \<Longrightarrow> n_weight_file n \<noteq> []"
    using wf_node_wf [OF d(1)] by (simp add: node_wf_def weight_file_name_def)
  have "\<exists>ws. node_weights g n = Inr ws \<and> file_names n \<subseteq> fst ` set ws"
  proof (cases "n_weights n = []")
    case True
    then show ?thesis using files_need_weights [OF req _ sh(2,1)] by (auto simp: node_weights_def Let_def)
  next
    case False
    then show ?thesis
      using wf matmul_blob_ok [OF req _ sh] t d(8) ne
      by (auto simp: node_weights_def Let_def file_names_def is_ok_iff shape_of_def from_fp16_def)
  qed
  then show thesis using that by blast
qed

lemma node_fragment_ok:
  assumes node: "node_in g n" and req: "node_requires g n" and em: "node_emittable g n"
    and scope: "in_var \<in> S" "\<And>k. k < length (n_inputs n) \<Longrightarrow> 0 < k \<Longrightarrow> tensor_var (n_inputs n ! k) \<in> S"
      "fresh_for out S"
  obtains fr where "node_to_fragment E g n in_var out = Inr fr" "frag_wf S fr" "frag_output fr = out"
    "set (files (frag_body fr)) = file_names n"
    "frag_output_shape fr = declared_shape (n_op n) (shape_of g (n_inputs n ! 0)) (shape_of g (n_output n)) (n_weights n)"
proof -
  note d = node_inD [OF node]
  let ?x = "shape_of g (n_inputs n ! 0)" and ?y = "shape_of g (n_output n)"
  have ne: "n_inputs n \<noteq> []" using requires_input [OF req] .
  have sh: "shape_ok ?x" "shape_ok ?y" using d(4,6) ne by auto
  have frag: "node_to_fragment E g n in_var out = (case node_to_fragment_head E n ?x ?y in_var out of
      Some r \<Rightarrow> r | None \<Rightarrow> node_to_fragment_tail E n ?x ?y in_var out)"
    unfolding shape_of_def using ne tensor_ok [OF d(1) d(5) [of 0]] d(8) by (simp add: node_to_fragment_def)
  have px: "n_op n = LIBANE_OP_PIXEL_SHUFFLE \<Longrightarrow> length (n_weights n) = 4"
    using req by (simp add: node_requires_def op_requires_def unary_ops_def)
  have "is_ok (node_to_fragment E g n in_var out)"
    using head_or_tail_ok [of n "map (shape_of g) (n_inputs n)" ?y E in_var out] req em ne sh
    by (auto simp: node_requires_def node_emittable_def frag split: option.splits)
  then obtain fr where fr: "node_to_fragment E g n in_var out = Inr fr" by (auto simp: is_ok_iff)
  show thesis
  proof (cases "node_to_fragment_head E n ?x ?y in_var out")
    case None
    then have t: "node_to_fragment_tail E n ?x ?y in_var out = Inr fr" using fr by (simp add: frag)
    show ?thesis
      using that [OF fr] tail_fragment_wf [OF t scope(1,3,2)] tail_spec [OF t sh px] None by simp
  next
    case (Some r)
    then have t: "node_to_fragment_head E n ?x ?y in_var out = Some (Inr fr)" using fr by (simp add: frag)
    show ?thesis
      using that [OF fr] head_fragment_wf [OF t scope(1,3,2)] head_spec [OF t sh] by simp
  qed
qed


section \<open>Groups\<close>

definition scope_ready :: "AneGraph \<Rightarrow> string set \<Rightarrow> NodeId list \<Rightarrow> bool" where
  "scope_ready g S ids \<longleftrightarrow> sorted_wrt (<) ids
     \<and> (\<forall>i \<in> set ids. fresh_for (tensor_var (n_output (nodes g ! i))) S
         \<and> (\<forall>x \<in> set (n_inputs (nodes g ! i)). tensor_var x \<in> S \<or> (\<exists>j \<in> set ids. j < i \<and> x = n_output (nodes g ! j))))"

definition ready_node :: "AneGraph \<Rightarrow> NodeId \<Rightarrow> bool" where
  "ready_node g i \<longleftrightarrow> i < length (nodes g) \<and> node_in g (nodes g ! i) \<and> node_requires g (nodes g ! i)
     \<and> node_emittable g (nodes g ! i)"

lemma scope_ready_step:
  assumes "scope_ready g S (i # ids)" "graph_wf g" "\<forall>j \<in> set (i # ids). j < length (nodes g)"
    and "D \<subseteq> own (tensor_var (n_output (nodes g ! i)))" "tensor_var (n_output (nodes g ! i)) \<in> D"
  shows "scope_ready g (S \<union> D) ids"
proof -
  have "fresh_for (tensor_var (n_output (nodes g ! j))) (S \<union> D)" if "j \<in> set ids" for j
  proof -
    have "n_output (nodes g ! j) \<noteq> n_output (nodes g ! i)"
      using assms that wf_output_inj [OF assms(2), of j i] by (auto simp: scope_ready_def)
    then show ?thesis
      using assms(1,4) that fresh_mono [OF fresh_own] by (auto simp: scope_ready_def fresh_Un)
  qed
  moreover have "tensor_var x \<in> S \<union> D \<or> (\<exists>k \<in> set ids. k < j \<and> x = n_output (nodes g ! k))"
    if "j \<in> set ids" "x \<in> set (n_inputs (nodes g ! j))" for j x
    using assms(1,5) that by (auto simp: scope_ready_def)
  ultimately show ?thesis using assms(1) by (simp add: scope_ready_def)
qed

lemma group_fragments_ok:
  assumes "graph_wf g" "\<forall>i \<in> set ids. ready_node g i" "scope_ready g S ids" "chain \<in> S"
  shows "\<exists>frs ws. group_fragments E g chain ids = Inr (frs, ws) \<and> chain_wf S frs
    \<and> map frag_output frs = map (\<lambda>i. tensor_var (n_output (nodes g ! i))) ids
    \<and> map frag_output_shape frs = map (\<lambda>i. let n = nodes g ! i in
        declared_shape (n_op n) (shape_of g (n_inputs n ! 0)) (shape_of g (n_output n)) (n_weights n)) ids
    \<and> set (files (concat (map frag_body frs))) \<subseteq> fst ` set ws"
  using assms(2-4)
proof (induction ids arbitrary: S chain)
  case (Cons i ids)
  let ?n = "nodes g ! i"
  have i: "i < length (nodes g)" "node_in g ?n" "node_requires g ?n" "node_emittable g ?n"
    using Cons.prems(1) by (simp_all add: ready_node_def)
  have side: "tensor_var x \<in> S" if "x \<in> set (n_inputs ?n)" for x
    using Cons.prems(2) that by (fastforce simp: scope_ready_def)
  have fresh: "fresh_for (tensor_var (n_output ?n)) S" using Cons.prems(2) by (simp add: scope_ready_def)
  obtain fr where fr: "node_to_fragment E g ?n chain (tensor_var (n_output ?n)) = Inr fr" "frag_wf S fr"
    "frag_output fr = tensor_var (n_output ?n)" "set (files (frag_body fr)) = file_names ?n"
    "frag_output_shape fr = declared_shape (n_op ?n) (shape_of g (n_inputs ?n ! 0)) (shape_of g (n_output ?n)) (n_weights ?n)"
    using node_fragment_ok [OF i(2-4) Cons.prems(3) side fresh] by (metis nth_mem)
  obtain ws where ws: "node_weights g ?n = Inr ws" "file_names ?n \<subseteq> fst ` set ws"
    using node_weights_ok [OF i(2,3)] by blast
  have out: "tensor_var (n_output ?n) \<in> defs (frag_body fr)" using frag_wf_output [OF fr(2)] fr(3) by simp
  have "scope_ready g (S \<union> defs (frag_body fr)) ids"
    using scope_ready_step [OF Cons.prems(2) assms(1)] Cons.prems(1) fr(2,3) out
    by (auto simp: ready_node_def frag_wf_def)
  from Cons.IH [OF _ this, of "tensor_var (n_output ?n)"] Cons.prems(1) out
  obtain frs wss where rec: "group_fragments E g (tensor_var (n_output ?n)) ids = Inr (frs, wss)"
    "chain_wf (S \<union> defs (frag_body fr)) frs" "map frag_output frs = map (\<lambda>i. tensor_var (n_output (nodes g ! i))) ids"
    "map frag_output_shape frs = map (\<lambda>i. let n = nodes g ! i in
        declared_shape (n_op n) (shape_of g (n_inputs n ! 0)) (shape_of g (n_output n)) (n_weights n)) ids"
    "set (files (concat (map frag_body frs))) \<subseteq> fst ` set wss" by auto
  have "group_fragments E g chain (i # ids) = Inr (fr # frs, ws @ wss)"
    using node_ok [OF assms(1) i(1)] fr(1) ws(1) rec(1) by (simp add: Let_def)
  then show ?case using fr rec ws(2) by (fastforce simp: Let_def)
qed simp

lemma outputs_separate:
  assumes "graph_wf g" "sorted_wrt (<) ids" "\<forall>i \<in> set ids. i < length (nodes g)"
    "map frag_output frs = map (\<lambda>i. tensor_var (n_output (nodes g ! i))) ids"
  shows "separate frs"
proof -
  have len: "length frs = length ids" using assms(4) by (metis length_map)
  have "own (frag_output (frs ! a)) \<inter> own (frag_output (frs ! b)) = {}" if ab: "a < b" "b < length frs" for a b
  proof -
    have "ids ! a \<noteq> ids ! b" using assms(2) ab len by (metis less_irrefl sorted_wrt_nth_less)
    then have "n_output (nodes g ! (ids ! a)) \<noteq> n_output (nodes g ! (ids ! b))"
      using wf_output_inj [OF assms(1)] assms(3) ab len by simp
    moreover have "frag_output (frs ! k) = tensor_var (n_output (nodes g ! (ids ! k)))" if "k < length frs" for k
      using assms(4) that len by (metis nth_map)
    ultimately show ?thesis using ab own_tensor_var by simp
  qed
  then show ?thesis by (simp add: separate_def sorted_wrt_iff_nth_less)
qed

lemma fused_inputs_ok:
  assumes "graph_wf g" "\<forall>x \<in> set xs. x < length (tensors g)"
  shows "map_res (fused_input g) xs = Inr (map (\<lambda>x. \<lparr>var_name = tensor_var x, fused_shape = shape_of g x\<rparr>) xs)"
  using assms by (intro map_res_total) (simp add: fused_input_def tensor_ok shape_of_def)

section \<open>The translation of a group\<close>


lemma validated_node:
  assumes "built g" "fits g" "validate_graph g = Inr []" "i < length (nodes g)"
  shows "node_in g (nodes g ! i)" "node_requires g (nodes g ! i)"
  using assms built_node_in [OF assms(1,2)] validate_graph_iff [OF assms(1,2)] by simp_all

lemma sort_map_key: "sort (map f xs) = map f (sort_key f xs)"
  by (rule properties_for_sort) auto

lemma group_scope:
  assumes wf: "graph_wf g" and inv: "pass_inv g (length (nodes g)) gs" and gr: "gr \<in> set gs"
  shows "scope_ready g (tensor_var ` set (gr_inputs gr)) (node_ids gr)" "\<forall>i \<in> set (node_ids gr). i < length (nodes g)"
    "\<forall>x \<in> set (gr_inputs gr). x < length (tensors g)"
proof -
  have ok: "group_ok g gr" using inv gr by (simp add: pass_inv_def)
  have ids: "concat (map node_ids gs) = [0..<length (nodes g)]" using inv by (simp add: pass_inv_def)
  have mem: "set (node_ids gr) \<subseteq> set [0..<length (nodes g)]" using gr unfolding ids [symmetric] by auto
  then show bnd: "\<forall>i \<in> set (node_ids gr). i < length (nodes g)" by auto
  have ins: "set (gr_inputs gr) = reads g (node_ids gr) - writes g (node_ids gr)" using ok by (simp add: group_ok_def)
  then show "\<forall>x \<in> set (gr_inputs gr). x < length (tensors g)"
    using bnd wf_n_input_bound [OF wf] by (auto simp: reads_def)
  obtain us vs where "gs = us @ gr # vs" using gr by (meson split_list)
  then have "sorted_wrt (<) (concat (map node_ids us) @ node_ids gr @ concat (map node_ids vs))"
    using ids by (metis concat.simps(2) concat_append list.simps(9) map_append sorted_wrt_upt)
  then have srt: "sorted_wrt (<) (node_ids gr)" by (simp add: sorted_wrt_append)
  have "fresh_for (tensor_var (n_output (nodes g ! i))) (tensor_var ` set (gr_inputs gr))" if "i \<in> set (node_ids gr)" for i
    using that ins by (intro fresh_vars) (auto simp: writes_def)
  moreover have "tensor_var x \<in> tensor_var ` set (gr_inputs gr) \<or> (\<exists>j \<in> set (node_ids gr). j < i \<and> x = n_output (nodes g ! j))"
    if i: "i \<in> set (node_ids gr)" and x: "x \<in> set (n_inputs (nodes g ! i))" for i x
  proof (cases "x \<in> writes g (node_ids gr)")
    case True
    then obtain j where j: "j \<in> set (node_ids gr)" "x = n_output (nodes g ! j)" by (auto simp: writes_def)
    then show ?thesis using wf_n_input [OF wf, of i x] wf_output_mono [OF wf, of j i] bnd i x by blast
  qed (use ins i x in \<open>auto simp: reads_def\<close>)
  ultimately show "scope_ready g (tensor_var ` set (gr_inputs gr)) (node_ids gr)" using srt by (auto simp: scope_ready_def)
qed

lemma mil_group_program_ok:
  assumes "built g" "fits g" "validate_graph g = Inr []" "compute_groups g = Inr gs" "gr \<in> set gs"
    "\<forall>i \<in> set (node_ids gr). node_emittable g (nodes g ! i)" "distinct (n_inputs (nodes g ! hd (node_ids gr)))"
  shows "\<exists>p ws. mil_group_program E g gr = Inr (p, ws) \<and> code_ok (code p)
    \<and> map snd (params (code p)) = sort (map tensor_var (gr_inputs gr))
    \<and> set (params (code p)) = (\<lambda>x. (tensor_type (shape_of g x), tensor_var x)) ` set (gr_inputs gr)
    \<and> result (code p) = tensor_var (gr_output gr)
    \<and> (let n = nodes g ! last (node_ids gr) in prog_output_shape p =
         declared_shape (n_op n) (shape_of g (n_inputs n ! 0)) (shape_of g (n_output n)) (n_weights n))
    \<and> set (files (stmts (code p))) \<subseteq> fst ` set ws"
proof -
  have wf: "graph_wf g" using assms(1,2) by (simp add: fits_def built_graph_wf)
  have inv: "pass_inv g (length (nodes g)) gs" using compute_groups_inv [OF wf] assms(4) by auto
  have ok: "group_ok g gr" using inv assms(5) by (simp add: pass_inv_def)
  note sc = group_scope [OF wf inv assms(5)]
  have ready: "\<forall>i \<in> set (node_ids gr). ready_node g i"
    using sc(2) validated_node [OF assms(1-3)] assms(6) by (simp add: ready_node_def)
  have ne: "node_ids gr \<noteq> []" using ok by (simp add: group_ok_def)
  have "n_inputs (nodes g ! hd (node_ids gr)) \<noteq> []"
    using ready hd_in_set [OF ne] by (intro requires_input [of g]) (auto simp: ready_node_def)
  moreover have "prefix (n_inputs (nodes g ! hd (node_ids gr))) (gr_inputs gr)" using ok by (simp add: group_ok_def)
  ultimately have ine: "gr_inputs gr \<noteq> []" by auto
  have dist: "distinct (gr_inputs gr)" using ok assms(7) by (simp add: group_ok_def)
  have "tensor_var (gr_inputs gr ! 0) \<in> tensor_var ` set (gr_inputs gr)" using ine by simp
  from group_fragments_ok [OF wf ready sc(1) this, of E] obtain frs ws where
    frs: "group_fragments E g (tensor_var (gr_inputs gr ! 0)) (node_ids gr) = Inr (frs, ws)"
      "chain_wf (tensor_var ` set (gr_inputs gr)) frs"
      "map frag_output frs = map (\<lambda>i. tensor_var (n_output (nodes g ! i))) (node_ids gr)"
      "map frag_output_shape frs = map (\<lambda>i. let n = nodes g ! i in
        declared_shape (n_op n) (shape_of g (n_inputs n ! 0)) (shape_of g (n_output n)) (n_weights n)) (node_ids gr)"
      "set (files (concat (map frag_body frs))) \<subseteq> fst ` set ws" by blast
  have fne: "frs \<noteq> []" using frs(3) ne by auto
  let ?ins = "map (\<lambda>x. \<lparr>var_name = tensor_var x, fused_shape = shape_of g x\<rparr>) (gr_inputs gr)"
  obtain p where p: "build_fused ?ins frs = Inr p"
    "code p = \<lparr>params = map (\<lambda>i. (tensor_type (fused_shape i), var_name i)) (sort_key var_name ?ins),
         stmts = concat (map frag_body frs), result = frag_output (last frs)\<rparr>"
    "prog_output_shape p = frag_output_shape (last frs)"
    using build_fused_Inr [of ?ins frs] ine fne by auto
  have lst: "frag_output (last frs) = tensor_var (gr_output gr)" "frag_output_shape (last frs) =
      (let n = nodes g ! last (node_ids gr) in
        declared_shape (n_op n) (shape_of g (n_inputs n ! 0)) (shape_of g (n_output n)) (n_weights n))"
    using arg_cong [OF frs(3), of last] arg_cong [OF frs(4), of last] ok fne ne
    by (simp_all add: last_map group_ok_def)
  have "code_ok (code p)"
    unfolding p(2) using fne
  proof (rule build_fused_code_ok)
    show "distinct (map var_name ?ins)" using dist by (simp add: comp_def distinct_map inj_on_def)
    show "chain_wf (var_name ` set ?ins) frs" using frs(2) by (simp add: image_image)
    show "separate frs" using outputs_separate [OF wf _ sc(2) frs(3)] sc(1) by (simp add: scope_ready_def)
  qed
  moreover have "map snd (params (code p)) = sort (map tensor_var (gr_inputs gr))"
    using sort_map_key [of var_name ?ins] unfolding p(2) by (simp add: comp_def)
  moreover have "set (params (code p)) = (\<lambda>x. (tensor_type (shape_of g x), tensor_var x)) ` set (gr_inputs gr)"
    unfolding p(2) by (simp add: image_image)
  moreover have "mil_group_program E g gr = Inr (p, ws)"
    using ine fused_inputs_ok [OF wf sc(3)] frs(1) p(1) by (simp add: mil_group_program_def)
  ultimately show ?thesis using p lst frs(5) by simp
qed

text \<open>
  C21. Every fusion group of a validated graph whose nodes are \<open>node_emittable\<close> (the emitters'
  own demands) and whose first node reads distinct tensors translates to a MIL program: every
  variable is defined once and before its use and every label is unique; the parameters are the
  group's inputs, sorted by name, with the types of their tensors; the result is the group's
  output with the shape the last emitter declares; and every weight file the text references is
  supplied.
\<close>

theorem mil_group_compiles:
  assumes "built g" "fits g" "validate_graph g = Inr []" "compute_groups g = Inr gs" "gr \<in> set gs"
    "\<forall>i \<in> set (node_ids gr). node_emittable g (nodes g ! i)" "distinct (n_inputs (nodes g ! hd (node_ids gr)))"
  shows "\<exists>p ws. mil_group_program E g gr = Inr (p, ws) \<and> code_ok (code p)
    \<and> map snd (params (code p)) = sort (map tensor_var (gr_inputs gr))
    \<and> set (params (code p)) = (\<lambda>x. (tensor_type (shape_of g x), tensor_var x)) ` set (gr_inputs gr)
    \<and> result (code p) = tensor_var (gr_output gr)
    \<and> (let n = nodes g ! last (node_ids gr) in prog_output_shape p =
         declared_shape (n_op n) (shape_of g (n_inputs n ! 0)) (shape_of g (n_output n)) (n_weights n))
    \<and> set (files (stmts (code p))) \<subseteq> fst ` set ws"
  using mil_group_program_ok [OF assms] .


lemma demo_validated: "fits demo_graph" "validate_graph demo_graph = Inr []"
proof -
  show f: "fits demo_graph" by (simp add: fits_def demo_graph_def weights_fit_def)
  show "validate_graph demo_graph = Inr []"
    unfolding validate_graph_iff [OF demo_built f]
    by (simp add: demo_graph_def node_requires_def op_requires_def shape_of_def demo_shape_def
        unary_ops_def arith_ops_def)
qed

definition demo_mil_env :: mil_env where
  "demo_mil_env = \<lparr>floats = \<lparr>f_add = (+), f_sub = (-), f_mul = (*), f_div = (div), f_of_int = of_int,
       f_tiny = (\<lambda>v. v = 0), f_fmt6 = (\<lambda>v. to_string (uint v)), f_fixed7 = (\<lambda>v. to_string (uint v))\<rparr>,
     inv_lit = (\<lambda>c. ''0.5''), eps_lit = ''0.00001''\<rparr>"

theorem mil_group_compiles_witness:
  "\<exists>p ws. mil_group_program demo_mil_env demo_graph \<lparr>node_ids = [0, 1, 2], gr_inputs = [0, 1], gr_output = 4\<rparr> = Inr (p, ws)
     \<and> code_ok (code p) \<and> result (code p) = tensor_var 4"
proof -
  let ?gr = "\<lparr>node_ids = [0, 1, 2], gr_inputs = [0, 1], gr_output = 4\<rparr>"
  have "\<forall>i \<in> set (node_ids ?gr). node_emittable demo_graph (nodes demo_graph ! i)"
    "distinct (n_inputs (nodes demo_graph ! hd (node_ids ?gr)))"
    by (simp_all add: demo_graph_def node_emittable_def emittable_def)
  from mil_group_compiles [OF demo_built demo_validated demo_groups _ this, of demo_mil_env] show ?thesis by auto
qed

text \<open>
  C22. \<open>CAST\<close> passes validation and, having no emitter, makes the translation of its group throw
  \<open>std::runtime_error\<close>: a group that starts with a \<open>CAST\<close> node always fails that way.
\<close>

theorem cast_group_throws:
  assumes "built g" "fits g" "validate_graph g = Inr []" "compute_groups g = Inr gs" "gr \<in> set gs"
    "n_op (nodes g ! hd (node_ids gr)) = LIBANE_OP_CAST"
  shows "mil_compile_group E ane_compile g gr debug_name
    = Inl (Runtime_error ''MilBackend::node_to_fragment: unsupported op 8'')"
proof -
  have wf: "graph_wf g" using assms(1,2) by (simp add: fits_def built_graph_wf)
  have inv: "pass_inv g (length (nodes g)) gs" using compute_groups_inv [OF wf] assms(4) by auto
  have ok: "group_ok g gr" using inv assms(5) by (simp add: pass_inv_def)
  note sc = group_scope [OF wf inv assms(5)]
  obtain i ids where ids: "node_ids gr = i # ids" using ok by (cases "node_ids gr") (auto simp: group_ok_def)
  let ?n = "nodes g ! i"
  have i: "i < length (nodes g)" using sc(2) ids by simp
  note req = validated_node [OF assms(1-3) i]
  have ne: "n_inputs ?n \<noteq> []" using requires_input [OF req(2)] .
  then have ine: "gr_inputs gr \<noteq> []" using ok ids by (auto simp: group_ok_def)
  have t: "tensor g (n_inputs ?n ! 0) = Inr (tensors g ! (n_inputs ?n ! 0))"
    using tensor_ok [OF wf node_inD(5) [OF req(1)]] ne by simp
  have "node_to_fragment E g ?n v w = Inl (Runtime_error ''MilBackend::node_to_fragment: unsupported op 8'')" for v w
    using assms(6) ids ne t node_inD(8) [OF req(1)]
    by (simp add: node_to_fragment_def node_to_fragment_head_def node_to_fragment_tail_def decimal_eval)
  then show ?thesis
    using ine fused_inputs_ok [OF wf sc(3)] node_ok [OF wf i] ids
    by (simp add: mil_compile_group_def mil_group_program_def Let_def)
qed

definition cast_calls :: "build_call list" where
  "cast_calls = [Add_input ''x'' demo_shape, Add_op LIBANE_OP_CAST [0] demo_shape None, Mark_output 1 [] ]"

definition cast_graph :: AneGraph where
  "cast_graph = \<lparr>
     tensors =
       [\<lparr>t_id = 0, t_name = ''x'', t_shape = demo_shape, t_producer = kInvalidNodeId\<rparr>,
        \<lparr>t_id = 1, t_name = ''t1'', t_shape = demo_shape, t_producer = 0\<rparr>],
     nodes = [\<lparr>n_id = 0, n_op = LIBANE_OP_CAST, n_inputs = [0], n_output = 1, n_weights = [], n_weight_file = []\<rparr>],
     graph_inputs = [0], graph_outputs = [1], next_tensor_id = 2, next_node_id = 1\<rparr>"

lemma cast_built: "built cast_graph"
proof (rule run_build_built [OF built.built_empty])
  show "run_build cast_calls empty_graph = Inr cast_graph"
    by (simp add: cast_calls_def cast_graph_def add_input_def add_op_def mark_output_def validate_def
      demo_shape_def alloc_tensor_def empty_graph_def Let_def to_u32_def decimal_eval kInvalidNodeId_def
      signed_modulo_int_def)
qed

theorem cast_group_throws_witness:
  "built cast_graph \<and> validate_graph cast_graph = Inr [] \<and> (\<exists>gr gs. compute_groups cast_graph = Inr gs \<and> gr \<in> set gs
     \<and> mil_compile_group demo_mil_env (\<lambda>_ _ _. Some ()) cast_graph gr ''g0''
       = Inl (Runtime_error ''MilBackend::node_to_fragment: unsupported op 8''))"
proof -
  have f: "fits cast_graph" by (simp add: fits_def cast_graph_def weights_fit_def)
  have v: "validate_graph cast_graph = Inr []"
    unfolding validate_graph_iff [OF cast_built f]
    by (simp add: cast_graph_def node_requires_def op_requires_def shape_of_def demo_shape_def unary_ops_def)
  have g: "compute_groups cast_graph = Inr [\<lparr>node_ids = [0], gr_inputs = [0], gr_output = 1\<rparr>]"
    by (simp add: compute_groups_def cast_graph_def new_group_def)
  have "mil_compile_group demo_mil_env (\<lambda>_ _ _. Some ()) cast_graph \<lparr>node_ids = [0], gr_inputs = [0], gr_output = 1\<rparr> ''g0''
       = Inl (Runtime_error ''MilBackend::node_to_fragment: unsupported op 8'')"
    by (rule cast_group_throws [OF cast_built f v g]) (simp_all add: cast_graph_def)
  then show ?thesis using cast_built v g by fastforce
qed

text \<open>
  C23. The emitted \<open>CONCAT\<close> never has the shape of the graph's tensor: on a validated node the
  fragment declares the channels of the whole result plus those of the first operand.
\<close>

theorem concat_declares_too_many:
  assumes "node_in g n" "node_requires g n" "n_op n = LIBANE_OP_CONCAT" "node_to_fragment E g n v w = Inr fr"
  shows "channels (frag_output_shape fr) = channels (shape_of g (n_output n)) + channels (shape_of g (n_inputs n ! 0))
    \<and> frag_output_shape fr \<noteq> shape_of g (n_output n)"
proof -
  note d = node_inD [OF assms(1)]
  have ne: "n_inputs n \<noteq> []" using requires_input [OF assms(2)] .
  have "0 < channels (shape_of g (n_inputs n ! 0))" using d(6) [of 0] ne by (simp add: shape_ok_def)
  moreover have "tensor g (n_inputs n ! 0) = Inr (tensors g ! (n_inputs n ! 0))"
    using tensor_ok [OF d(1,5)] ne by simp
  then have "frag_output_shape fr = mk_shape 1 (channels (shape_of g (n_inputs n ! 0)) + channels (shape_of g (n_output n)))
      1 (seq (shape_of g (n_output n)))"
    using assms(3,4) d(8) ne
    by (auto simp: node_to_fragment_def node_to_fragment_head_def node_to_fragment_tail_def concat_fragment_def
        emit_simps bind_res_Inr shape_of_def)
  then have "channels (frag_output_shape fr) = channels (shape_of g (n_output n)) + channels (shape_of g (n_inputs n ! 0))"
    by simp
  ultimately show ?thesis by auto
qed

definition concat_graph :: AneGraph where
  "concat_graph = \<lparr>
     tensors =
       [\<lparr>t_id = 0, t_name = ''x'', t_shape = demo_shape, t_producer = kInvalidNodeId\<rparr>,
        \<lparr>t_id = 1, t_name = ''y'', t_shape = demo_shape, t_producer = kInvalidNodeId\<rparr>,
        \<lparr>t_id = 2, t_name = ''t2'', t_shape = demo_shape\<lparr>channels := 2 * channels demo_shape\<rparr>, t_producer = 0\<rparr>],
     nodes = [\<lparr>n_id = 0, n_op = LIBANE_OP_CONCAT, n_inputs = [0, 1], n_output = 2, n_weights = [], n_weight_file = []\<rparr>],
     graph_inputs = [0, 1], graph_outputs = [], next_tensor_id = 3, next_node_id = 1\<rparr>"

theorem concat_declares_too_many_witness:
  "\<exists>fr. node_to_fragment demo_mil_env concat_graph (hd (nodes concat_graph)) ''t0'' ''t2'' = Inr fr
     \<and> channels (frag_output_shape fr) = 3 * channels demo_shape"
proof -
  let ?n = "hd (nodes concat_graph)"
  have ok: "shape_ok demo_shape" "demo_shape = mk_shape 1 (channels demo_shape) 1 (seq demo_shape)"
    "channels demo_shape * 3 \<le> 16384" by (simp_all add: shape_ok_def demo_shape_def)
  have "graph_wf concat_graph"
    using ok by (simp add: graph_wf_def concat_graph_def node_wf_def shape_ok_def upt_rec kInvalidNodeId_def) auto
  then have "node_in concat_graph ?n" by (simp add: node_in_def concat_graph_def weights_fit_def)
  moreover have "node_requires concat_graph ?n"
    by (simp add: node_requires_def op_requires_def concat_graph_def shape_of_def unary_ops_def arith_ops_def binary_ops_def)
  moreover obtain fr where fr: "node_to_fragment demo_mil_env concat_graph ?n ''t0'' ''t2'' = Inr fr"
    using ok by (auto simp: node_to_fragment_def concat_graph_def tensor_def to_u32_def node_to_fragment_head_def
        node_to_fragment_tail_def concat_fragment_def Let_def int32_ok_def shape_ok_def res_simps demo_shape_def)
  ultimately show ?thesis using concat_declares_too_many [of concat_graph ?n demo_mil_env] 
    by (fastforce simp: concat_graph_def shape_of_def)
qed

end
