(* ===== verification/HwxEmitter.thy ===== *)
theory HwxEmitter
  imports LibaneOps
begin

text \<open>
  Cache and patcher of compiled HWX files (src/graph/hwx_emitter.hpp, hwx_emitter.cpp). A file is
  a byte list. The directory scan is a parameter that gives the bytes of the first \<open>.hwx\<close> file,
  or \<open>None\<close> when the scan, the open or the read fails. An access outside the vector is undefined
  behaviour. \<open>num_words * 4\<close> is computed in 32 bits, as in the code; the other sizes are
  natural numbers, all below \<open>2 ^ 34\<close>.

  \<open>hwx_laid_out\<close> is what the emitter assumes of a file it patches: the \<open>__text\<close> section header
  holds the fixed address and offset, \<open>__text\<close> holds the op words and ends before \<open>0x3000\<close>
  bytes, and \<open>__const\<close> lies in the file.
\<close>

unbundle bit_operations_syntax

definition kBeeffaceMagic :: u32 where "kBeeffaceMagic = 0xBEEFFACE"
definition kTextSectSizeOff :: nat where "kTextSectSizeOff = 0x0208"
definition kConstVmaddrOff :: nat where "kConstVmaddrOff = 0x0250"
definition kConstFileoffOff :: nat where "kConstFileoffOff = 0x0260"
definition kTdInstrCntOff :: nat where "kTdInstrCntOff = 0x0AE4"
definition kTextFileOff :: nat where "kTextFileOff = 0x4000"
definition kConstAlign :: nat where "kConstAlign = 64"
definition kConstSize :: nat where "kConstSize = 0x4000"
definition kTextVmBase :: size_t where "kTextVmBase = 0x30008000"
definition kPP_ProgramSize :: nat where "kPP_ProgramSize = 0x4010"
definition kPP_StageFlags :: nat where "kPP_StageFlags = 0x4030"
definition kPP_Opcode :: nat where "kPP_Opcode = 0x404C"
definition kPP_ExtraConfig :: nat where "kPP_ExtraConfig = 0x405C"
definition kMinHwxSize :: nat where "kMinHwxSize = kTextFileOff + 0x60"

lemmas hwx_offsets = kTextSectSizeOff_def kConstVmaddrOff_def kConstFileoffOff_def kTdInstrCntOff_def
  kTextFileOff_def kConstAlign_def kConstSize_def kPP_ProgramSize_def kPP_StageFlags_def
  kPP_Opcode_def kPP_ExtraConfig_def kMinHwxSize_def

record OpConfig =
  program_size :: u32
  stage_flags :: u32
  opcode :: u32
  extra_config :: u32
  num_words :: u32

record HwxEmitter =
  shape_cache :: "int \<times> int \<rightharpoonup> byte list"
  op_cfg_cache :: "int \<rightharpoonup> OpConfig"

definition empty_emitter :: HwxEmitter where
  "empty_emitter = \<lparr>shape_cache = Map.empty, op_cfg_cache = Map.empty\<rparr>"

section \<open>Reading and writing\<close>

definition rd32 :: "nat \<Rightarrow> byte list \<Rightarrow> u32" where
  "rd32 off p = of_nat (le_nat (get_bytes off 4 p))"

definition rd64 :: "nat \<Rightarrow> byte list \<Rightarrow> size_t" where
  "rd64 off p = of_nat (le_nat (get_bytes off 8 p))"

definition wr32 :: "nat \<Rightarrow> u32 \<Rightarrow> byte list \<Rightarrow> byte list" where
  "wr32 off v p = put_bytes off (le_bytes 4 (unat v)) p"

definition wr64 :: "nat \<Rightarrow> size_t \<Rightarrow> byte list \<Rightarrow> byte list" where
  "wr64 off v p = put_bytes off (le_bytes 8 (unat v)) p"

definition valid_hwx :: "byte list \<Rightarrow> bool" where
  "valid_hwx hwx \<longleftrightarrow> \<not> length hwx < kMinHwxSize \<and> rd32 0 hwx = kBeeffaceMagic"

definition read_hwx_from_dir :: "(string \<Rightarrow> byte list option) \<Rightarrow> string \<Rightarrow> byte list" where
  "read_hwx_from_dir first_hwx_file dir =
     (case first_hwx_file dir of
        None \<Rightarrow> []
      | Some data \<Rightarrow> if data = [] then [] else if \<not> valid_hwx data then [] else data)"

definition extract_op_config :: "byte list \<Rightarrow> OpConfig" where
  "extract_op_config hwx =
     (if length hwx < kMinHwxSize
      then \<lparr>program_size = 0, stage_flags = 0, opcode = 0, extra_config = 0, num_words = 0\<rparr>
      else \<lparr>program_size = rd32 kPP_ProgramSize hwx, stage_flags = rd32 kPP_StageFlags hwx,
            opcode = rd32 kPP_Opcode hwx, extra_config = rd32 kPP_ExtraConfig hwx,
            num_words = ucast (rd64 kTextSectSizeOff hwx div 4)\<rparr>)"

section \<open>Patching\<close>

definition patch_words :: "OpConfig \<Rightarrow> byte list \<Rightarrow> byte list" where
  "patch_words cfg hwx =
     wr32 kPP_ExtraConfig (extra_config cfg) (wr32 kPP_Opcode (opcode cfg)
       (wr32 kPP_StageFlags (stage_flags cfg) (wr32 kPP_ProgramSize (program_size cfg) hwx)))"

definition const_offset :: "nat \<Rightarrow> nat" where
  "const_offset text = unat ((of_nat (kTextFileOff + text + kConstAlign - 1) :: size_t) AND NOT (of_nat (kConstAlign - 1)))"

definition fill_zero :: "nat \<Rightarrow> nat \<Rightarrow> byte list \<Rightarrow> byte list res" where
  "fill_zero lo hi hwx =
     (if hi \<le> length hwx then Inr (put_bytes lo (replicate (hi - lo) 0) hwx)
      else Inl (Undefined_behaviour ''fill out of bounds''))"

text \<open>The loop that replaces the old address of \<open>__const\<close> in the load commands.\<close>

function replace_vmaddr :: "byte list \<Rightarrow> byte list \<Rightarrow> nat \<Rightarrow> byte list \<Rightarrow> byte list" where
  "replace_vmaddr old_vm_b new_vm_b i hwx =
     (if i + 8 \<le> kTextFileOff then
        if get_bytes i 8 hwx = old_vm_b
        then replace_vmaddr old_vm_b new_vm_b (i + 7 + 1) (put_bytes i new_vm_b hwx)
        else replace_vmaddr old_vm_b new_vm_b (i + 1) hwx
      else hwx)"
  by pat_completeness auto
termination by (relation "measure (\<lambda>(_, _, i, _). kTextFileOff - i)") auto

declare replace_vmaddr.simps [simp del]

definition move_const :: "nat \<Rightarrow> nat \<Rightarrow> byte list \<Rightarrow> byte list \<Rightarrow> byte list res" where
  "move_const old_const new_const const_data hwx =
     (if old_const \<noteq> new_const \<and> const_data \<noteq> []
      then bind_res (fill_zero old_const (old_const + kConstSize) hwx) (\<lambda>hwx. Inr (put_bytes new_const const_data hwx))
      else Inr hwx)"

definition relocate :: "OpConfig \<Rightarrow> OpConfig \<Rightarrow> byte list \<Rightarrow> byte list res" where
  "relocate new_cfg old_cfg hwx =
     (let old_text = unat (num_words old_cfg * 4); new_text = unat (num_words new_cfg * 4);
          old_const = const_offset old_text; new_const = const_offset new_text;
          old_vm = kTextVmBase + of_nat (old_const - kTextFileOff);
          new_vm = kTextVmBase + of_nat (new_const - kTextFileOff);
          const_data = (if old_const + kConstSize \<le> length hwx then get_bytes old_const kConstSize hwx else []);
          needed = new_const + kConstSize;
          hwx = (if length hwx < needed then hwx @ replicate (needed - length hwx) 0 else hwx)
      in bind_res (if new_text < old_text
                   then fill_zero (kTextFileOff + new_text) (kTextFileOff + old_text) hwx else Inr hwx) (\<lambda>hwx.
         bind_res (move_const old_const new_const const_data hwx) (\<lambda>hwx.
           let hwx = wr64 kTextSectSizeOff (of_nat new_text) hwx;
               hwx = wr64 kConstVmaddrOff new_vm hwx;
               hwx = wr32 kConstFileoffOff (of_nat new_const) hwx;
               hwx = replace_vmaddr (le_bytes 8 (unat old_vm)) (le_bytes 8 (unat new_vm)) 0x20 hwx
           in Inr (wr32 kTdInstrCntOff (num_words new_cfg) hwx))))"

definition patch_op :: "byte list \<Rightarrow> OpConfig \<Rightarrow> OpConfig \<Rightarrow> byte list res" where
  "patch_op hwx new_cfg old_cfg =
     (if \<not> valid_hwx hwx then Inr hwx
      else let hwx = patch_words new_cfg hwx
           in if num_words new_cfg = num_words old_cfg then Inr hwx else relocate new_cfg old_cfg hwx)"

section \<open>The cache\<close>

definition capture_from_model_dir ::
  "(string \<Rightarrow> byte list option) \<Rightarrow> string \<Rightarrow> int \<Rightarrow> int \<Rightarrow> libane_op_t \<Rightarrow> HwxEmitter \<Rightarrow> bool \<times> HwxEmitter" where
  "capture_from_model_dir first_hwx_file dir c s op em =
     (let hwx = read_hwx_from_dir first_hwx_file dir in
      if hwx = [] then (False, em)
      else let em = (if shape_cache em (c, s) = None then em\<lparr>shape_cache := (shape_cache em)((c, s) \<mapsto> hwx)\<rparr> else em);
               iop = op_code op;
               em = (if op_cfg_cache em iop = None
                     then em\<lparr>op_cfg_cache := (op_cfg_cache em)(iop \<mapsto> extract_op_config hwx)\<rparr> else em)
           in (True, em))"

definition has_shape :: "HwxEmitter \<Rightarrow> int \<Rightarrow> int \<Rightarrow> bool" where
  "has_shape em c s \<longleftrightarrow> shape_cache em (c, s) \<noteq> None"

definition has_op_config :: "HwxEmitter \<Rightarrow> libane_op_t \<Rightarrow> bool" where
  "has_op_config em op \<longleftrightarrow> op_cfg_cache em (op_code op) \<noteq> None"

definition can_emit :: "HwxEmitter \<Rightarrow> int \<Rightarrow> int \<Rightarrow> libane_op_t \<Rightarrow> bool" where
  "can_emit em c s op \<longleftrightarrow> has_shape em c s \<and> has_op_config em op"

definition emit :: "HwxEmitter \<Rightarrow> int \<Rightarrow> int \<Rightarrow> libane_op_t \<Rightarrow> byte list res" where
  "emit em c s op =
     (case (shape_cache em (c, s), op_cfg_cache em (op_code op)) of
        (Some tmpl, Some new_cfg) \<Rightarrow> patch_op tmpl new_cfg (extract_op_config tmpl)
      | _ \<Rightarrow> Inr [])"

section \<open>Byte-level lemmas\<close>

lemma and_not_mask: "x AND NOT (mask n) = push_bit n (drop_bit n (x :: size_t))"
  by (auto intro!: bit_eqI simp: bit_simps)

lemma unat_and_not_63: "unat ((x :: size_t) AND NOT 63) = unat x div 64 * 64"
proof -
  have "unat x div 64 * 64 \<le> unat x" by simp
  also have x: "\<dots> < 2 ^ 64" using unsigned_less [of x, where ?'a = nat] by simp
  finally have "take_bit 64 (unat x div 64 * 64) = unat x div 64 * 64" by (simp add: take_bit_eq_mod)
  moreover have "x AND NOT 63 = push_bit 6 (drop_bit 6 x)" using and_not_mask [of x 6] by (simp add: mask_eq_exp_minus_1)
  moreover have "unat (push_bit 6 (drop_bit 6 x)) = take_bit 64 (unat x div 64 * 64)"
    unfolding unsigned_push_bit_eq unsigned_drop_bit_eq
    using x by (simp add: push_bit_eq_mult drop_bit_eq_div take_bit_nat_eq_self)
  ultimately show ?thesis by (simp only:)
qed

lemma const_offset_eq:
  assumes "text < 2 ^ 33"
  shows "const_offset text = (kTextFileOff + text + 63) div 64 * 64"
  using assms unat_of_nat_size [of "kTextFileOff + text + 63"] unat_and_not_63 [of "of_nat (kTextFileOff + text + 63)"]
  by (simp add: const_offset_def kConstAlign_def kTextFileOff_def)

lemma unat_bound: "unat (v :: u32) < 256 ^ 4" "unat (w :: size_t) < 256 ^ 8"
  using unsigned_less [of v, where ?'a = nat] unsigned_less [of w, where ?'a = nat] by simp_all

lemma rd32_wr32 [simp]: "off + 4 \<le> length p \<Longrightarrow> rd32 off (wr32 off v p) = v"
  by (simp add: rd32_def wr32_def get_put_bytes le_nat_le_bytes [OF unat_bound(1)])

lemma length_wr [simp]: "off + 4 \<le> length p \<Longrightarrow> length (wr32 off v p) = length p"
  "off + 8 \<le> length p \<Longrightarrow> length (wr64 off w p) = length p"
  by (simp_all add: wr32_def wr64_def)

lemma nth_wr32:
  "off + 4 \<le> length p \<Longrightarrow> i < length p \<Longrightarrow> i < off \<or> off + 4 \<le> i \<Longrightarrow> wr32 off v p ! i = p ! i"
  by (auto simp: wr32_def nth_put_bytes)

lemma nth_wr64:
  "off + 8 \<le> length p \<Longrightarrow> i < length p \<Longrightarrow> i < off \<or> off + 8 \<le> i \<Longrightarrow> wr64 off v p ! i = p ! i"
  by (auto simp: wr64_def nth_put_bytes)

lemma rd32_cong:
  assumes "off + 4 \<le> length a" "off + 4 \<le> length b" "\<And>i. off \<le> i \<Longrightarrow> i < off + 4 \<Longrightarrow> a ! i = b ! i"
  shows "rd32 off a = rd32 off b"
  unfolding rd32_def using get_bytes_cong [OF assms] by simp

lemma drop_put_bytes: "off + length src \<le> j \<Longrightarrow> off + length src \<le> length buf \<Longrightarrow> drop j (put_bytes off src buf) = drop j buf"
  by (simp add: put_bytes_def)

lemma nth_le_bytes: "i < k \<Longrightarrow> le_bytes k n ! i = of_nat (n div 256 ^ i mod 256)"
proof (induction k arbitrary: i n)
  case (Suc k)
  then show ?case by (cases i) (simp_all add: div_mult2_eq)
qed simp

text \<open>The scan compares only bytes it has not yet written, so it changes exactly the bytes of the
  occurrences found in the original.\<close>

lemma length_replace_vmaddr [simp]:
  "length new_b = 8 \<Longrightarrow> kTextFileOff \<le> length hwx \<Longrightarrow> length (replace_vmaddr old_b new_b i hwx) = length hwx"
  by (induction old_b new_b i hwx rule: replace_vmaddr.induct) (simp add: replace_vmaddr.simps)

lemma replace_vmaddr_low:
  assumes "length new_b = 8" "kTextFileOff \<le> length hwx" "k < i \<or> kTextFileOff \<le> k" "k < length hwx"
  shows "replace_vmaddr old_b new_b i hwx ! k = hwx ! k"
  using assms
  by (induction old_b new_b i hwx rule: replace_vmaddr.induct)
    (subst replace_vmaddr.simps, auto simp: nth_put_bytes)

lemma replace_vmaddr_other:
  assumes "length new_b = 8" "kTextFileOff \<le> length hwx" "k < length hwx"
    "\<And>j. i \<le> j \<Longrightarrow> j \<le> k \<Longrightarrow> k < j + 8 \<Longrightarrow> get_bytes j 8 hwx \<noteq> old_b"
  shows "replace_vmaddr old_b new_b i hwx ! k = hwx ! k"
  using assms
proof (induction old_b new_b i hwx rule: replace_vmaddr.induct)
  case (1 old_b new_b i hwx)
  show ?case
  proof (cases "i + 8 \<le> kTextFileOff \<and> get_bytes i 8 hwx = old_b")
    case True
    let ?h = "put_bytes i new_b hwx"
    have far: "\<not> (i \<le> k \<and> k < i + 8)" using 1(6) [of i] True by auto
    have "get_bytes j 8 ?h \<noteq> old_b" if "i + 8 \<le> j" "j \<le> k" "k < j + 8" for j
      using 1(6) [of j] that 1(3,4) True by (simp add: get_bytes_def drop_put_bytes)
    then have "replace_vmaddr old_b new_b (i + 7 + 1) ?h ! k = ?h ! k"
      using 1 True by simp
    moreover have "?h ! k = hwx ! k" using far 1 True by (auto simp: nth_put_bytes)
    ultimately show ?thesis using True by (simp add: replace_vmaddr.simps [of _ _ i])
  next
    case False
    then show ?thesis using 1 by (subst replace_vmaddr.simps) auto
  qed
qed


section \<open>What patching keeps and changes\<close>

definition in_op_words :: "nat \<Rightarrow> bool" where
  "in_op_words i \<longleftrightarrow> (\<exists>off \<in> {kPP_ProgramSize, kPP_StageFlags, kPP_Opcode, kPP_ExtraConfig}. off \<le> i \<and> i < off + 4)"

lemma patch_words_spec:
  fixes cfg :: OpConfig
  assumes "kMinHwxSize \<le> length hwx"
  defines "r \<equiv> patch_words cfg hwx"
  shows "length r = length hwx" "rd32 kPP_ProgramSize r = program_size cfg" "rd32 kPP_StageFlags r = stage_flags cfg"
    "rd32 kPP_Opcode r = opcode cfg" "rd32 kPP_ExtraConfig r = extra_config cfg"
    "\<And>i. i < length hwx \<Longrightarrow> \<not> in_op_words i \<Longrightarrow> r ! i = hwx ! i"
proof -
  note L = assms(1) [unfolded hwx_offsets]
  show "length r = length hwx" using L by (simp add: r_def patch_words_def hwx_offsets)
  have far: "rd32 a (wr32 b v p) = rd32 a p" if "a + 4 \<le> b \<or> b + 4 \<le> a" "a + 4 \<le> length p" "b + 4 \<le> length p" for a b v p
    using that by (intro rd32_cong) (auto simp: nth_wr32)
  show "rd32 kPP_ProgramSize r = program_size cfg" "rd32 kPP_StageFlags r = stage_flags cfg"
    "rd32 kPP_Opcode r = opcode cfg" "rd32 kPP_ExtraConfig r = extra_config cfg"
    using L by (simp_all add: r_def patch_words_def hwx_offsets far)
  show "r ! i = hwx ! i" if "i < length hwx" "\<not> in_op_words i" for i
    using that L by (simp add: r_def patch_words_def hwx_offsets in_op_words_def nth_wr32 not_le not_less)
qed

lemma const_offset_bounds:
  assumes "text < 0x3000"
  shows "kTextFileOff + text \<le> const_offset text" "const_offset text \<le> 0x7000"
  using assms by (simp_all add: const_offset_eq kTextFileOff_def)

lemma vm_bytes:
  assumes "text < 0x3000"
  defines "V \<equiv> le_bytes 8 (unat (kTextVmBase + of_nat (const_offset text - kTextFileOff)))"
  shows "length V = 8" "V ! 3 = 0x30" "128 \<le> unat (V ! 1)" "unat (V ! 1) \<le> 176"
proof -
  note b = const_offset_bounds [OF assms(1)]
  define d where "d = const_offset text - kTextFileOff"
  have d: "d \<le> 0x3000" using b by (simp add: d_def kTextFileOff_def)
  have "unat (kTextVmBase + of_nat d) = 0x30008000 + d"
    using d unat_of_nat_size [of "0x30008000 + d"] by (simp add: kTextVmBase_def)
  then have V: "V = le_bytes 8 (0x30008000 + d)" by (simp add: V_def d_def)
  show "length V = 8" by (simp add: V)
  have "(0x30008000 + d) div 256 ^ 3 mod 256 = 48" using d by simp
  then show "V ! 3 = 0x30" by (simp add: V nth_le_bytes)
  have "(0x30008000 + d) div 256 = 128 + d div 256 + 0x3000 * 256" by simp
  then have "(0x30008000 + d) div 256 mod 256 = (128 + d div 256) mod 256" by (simp only: mod_mult_self1)
  moreover have "128 + d div 256 < 256" using d by simp
  ultimately have "(0x30008000 + d) div 256 mod 256 = 128 + d div 256" by simp
  then have "V ! 1 = of_nat (128 + d div 256)" by (simp only: V nth_le_bytes) simp
  then have "unat (V ! 1) = (128 + d div 256) mod 256" by (simp only: unat_of_nat) simp
  then show "128 \<le> unat (V ! 1)" "unat (V ! 1) \<le> 176" using d \<open>128 + d div 256 < 256\<close> by simp_all
qed


definition text_bytes :: "OpConfig \<Rightarrow> nat" where
  "text_bytes cfg = 4 * unat (num_words cfg)"

definition cfg_ok :: "OpConfig \<Rightarrow> bool" where
  "cfg_ok cfg \<longleftrightarrow> 0x60 \<le> text_bytes cfg \<and> text_bytes cfg < 0x3000"

lemma cfg_ok_text: "cfg_ok cfg \<Longrightarrow> unat (num_words cfg * 4) = text_bytes cfg"
  by (simp add: cfg_ok_def text_bytes_def unat_mult_lem unat_word_ariths mult.commute)

definition hwx_laid_out :: "byte list \<Rightarrow> bool" where
  "hwx_laid_out hwx \<longleftrightarrow> valid_hwx hwx \<and> cfg_ok (extract_op_config hwx)
     \<and> const_offset (text_bytes (extract_op_config hwx)) + kConstSize \<le> length hwx
     \<and> rd64 0x200 hwx = kTextVmBase \<and> rd32 0x210 hwx = of_nat kTextFileOff"

text \<open>The buffer after the \<open>__const\<close> section has moved.\<close>

definition moved :: "nat \<Rightarrow> nat \<Rightarrow> byte list \<Rightarrow> byte list \<Rightarrow> bool" where
  "moved old_text new_text h r \<longleftrightarrow>
     length r = max (length h) (const_offset new_text + kConstSize)
     \<and> (\<forall>i < kTextFileOff + min old_text new_text. r ! i = h ! i)
     \<and> get_bytes (const_offset new_text) kConstSize r = get_bytes (const_offset old_text) kConstSize h"

lemma move_const_spec:
  assumes b: "old_text < 0x3000" "new_text < 0x3000" and h: "const_offset old_text + kConstSize \<le> length h"
  defines "h1 \<equiv> (let n = const_offset new_text + kConstSize in
    if length h < n then h @ replicate (n - length h) 0 else h)"
  shows "\<exists>r. bind_res (if new_text < old_text then fill_zero (kTextFileOff + new_text) (kTextFileOff + old_text) h1 else Inr h1)
      (move_const (const_offset old_text) (const_offset new_text) (get_bytes (const_offset old_text) kConstSize h)) = Inr r
    \<and> moved old_text new_text h r"
proof -
  let ?o = "const_offset old_text" and ?n = "const_offset new_text" and ?K = kConstSize
  note o = const_offset_bounds [OF b(1)] and n = const_offset_bounds [OF b(2)]
  have l1: "length h1 = max (length h) (?n + ?K)" by (simp add: h1_def Let_def)
  have n1: "h1 ! i = h ! i" if "i < length h" for i using that by (simp add: h1_def Let_def nth_append)
  define h2 where "h2 = (if new_text < old_text then put_bytes (kTextFileOff + new_text) (replicate (old_text - new_text) 0) h1 else h1)"
  have bnd: "kTextFileOff + old_text \<le> length h1" "?o + ?K \<le> length h1" "?n + ?K \<le> length h1"
    using o(1) h l1 by simp_all
  have l2: "length h2 = length h1" using bnd(1) by (simp add: h2_def)
  have n2: "h2 ! i = h1 ! i" if "i < kTextFileOff + min old_text new_text \<or> kTextFileOff + old_text \<le> i" "i < length h1" for i
    using that bnd(1) by (auto simp: h2_def nth_put_bytes)
  have fill: "(if new_text < old_text then fill_zero (kTextFileOff + new_text) (kTextFileOff + old_text) h1 else Inr h1) = Inr h2"
    using bnd(1) by (simp add: h2_def fill_zero_def)
  have lc: "length (get_bytes ?o ?K h) = ?K" using h by simp
  then have ne: "get_bytes ?o ?K h \<noteq> []" by (auto simp: kConstSize_def)
  define h3 where "h3 = (if ?o \<noteq> ?n then put_bytes ?n (get_bytes ?o ?K h) (put_bytes ?o (replicate ?K 0) h2) else h2)"
  have l3: "length h3 = length h1" using bnd l2 lc by (simp add: h3_def)
  have "move_const ?o ?n (get_bytes ?o ?K h) h2 = Inr h3"
    using ne bnd l2 by (auto simp: move_const_def fill_zero_def h3_def)
  moreover have "h3 ! i = h ! i" if "i < kTextFileOff + min old_text new_text" for i
  proof -
    have i: "i < length h1" "i < length h" "i < ?o" "i < ?n" using that o(1) n(1) bnd h by auto
    then show ?thesis using that n1 n2 [of i] bnd l2 lc by (auto simp: h3_def nth_put_bytes)
  qed
  moreover have "get_bytes ?n ?K h3 = get_bytes ?o ?K h"
  proof (cases "?o = ?n")
    case True
    have "get_bytes ?o ?K h2 = get_bytes ?o ?K h"
      using n1 n2 bnd l2 o(1) h by (intro get_bytes_cong) auto
    then show ?thesis using True by (simp add: h3_def)
  next
    case False
    then show ?thesis using bnd l2 lc by (simp add: h3_def get_put_bytes)
  qed
  ultimately show ?thesis using fill l3 l1 by (simp add: moved_def)
qed


lemma rd64_bytes: "off + 8 \<le> length p \<Longrightarrow> rd64 off p = v \<Longrightarrow> get_bytes off 8 p = le_bytes 8 (unat v)"
  using le_bytes_le_nat [of "get_bytes off 8 p"] le_nat_bound [of "get_bytes off 8 p"]
  by (auto simp: rd64_def unat_of_nat)

lemma rd32_bytes: "off + 4 \<le> length p \<Longrightarrow> rd32 off p = v \<Longrightarrow> get_bytes off 4 p = le_bytes 4 (unat v)"
  using le_bytes_le_nat [of "get_bytes off 4 p"] le_nat_bound [of "get_bytes off 4 p"]
  by (auto simp: rd32_def unat_of_nat)

text \<open>No occurrence of an address of \<open>__const\<close> overlaps the size field of \<open>__text\<close>.\<close>

lemma no_straddle:
  assumes tx: "old_text < 0x3000" "new_text < 0x3000" and len: "0x4000 \<le> length f"
    and base: "get_bytes 0x200 8 f = le_bytes 8 0x30008000" and size: "get_bytes 0x208 8 f = le_bytes 8 new_text"
    and foff: "get_bytes 0x210 4 f = le_bytes 4 0x4000" and j: "0x201 \<le> j" "j \<le> 0x20F"
  shows "get_bytes j 8 f \<noteq> le_bytes 8 (unat (kTextVmBase + of_nat (const_offset old_text - kTextFileOff)))"
proof
  let ?V = "le_bytes 8 (unat (kTextVmBase + of_nat (const_offset old_text - kTextFileOff)))"
  assume m: "get_bytes j 8 f = ?V"
  note V = vm_bytes [OF tx(1)]
  have f1: "f ! (j + 1) = ?V ! 1" and f3: "f ! (j + 3) = 0x30"
    using nth_get_bytes [of j 8 f 1] nth_get_bytes [of j 8 f 3] m V(2) len j by simp_all
  have z: "f ! (0x200 + k) = le_bytes 8 0x30008000 ! k" "f ! (0x208 + k) = le_bytes 8 new_text ! k" if "k < 8" for k
    using nth_get_bytes [of "0x200" 8 f k] nth_get_bytes [of "0x208" 8 f k] base size that len by simp_all
  have z0: "f ! 0x210 = 0" using nth_get_bytes [of "0x210" 4 f 0] foff len by (simp add: nth_le_bytes)
  have hi: "f ! (0x208 + k) = 0" if "2 \<le> k" "k < 8" for k
  proof -
    have "(256 :: nat) ^ 2 \<le> 256 ^ k" by (rule power_increasing [OF that(1)]) simp
    then have "new_text div 256 ^ k = 0" using tx(2) by simp
    then show ?thesis using z(2) [of k] that by (simp add: nth_le_bytes)
  qed
  have t1: "unat (f ! 0x209) < 128" using z(2) [of 1] tx(2) by (simp add: nth_le_bytes unat_of_nat)
  have lo: "f ! (0x200 + k) \<in> {0, 0x30}" if "2 \<le> k" "k < 8" for k
  proof -
    have "k = 2 \<or> k = 3 \<or> k = 4 \<or> k = 5 \<or> k = 6 \<or> k = 7" using that by linarith
    then show ?thesis using z(1) [of k] by (auto simp: nth_le_bytes)
  qed
  have first: "unat (f ! (j + 1)) < 128" if "j < 0x207"
  proof -
    have k: "2 \<le> j + 1 - 0x200" "j + 1 - 0x200 < 8" "0x200 + (j + 1 - 0x200) = j + 1" using j that by simp_all
    show ?thesis using lo [OF k(1,2)] unfolding k(3) by auto
  qed
  have "j = 0x207 \<or> unat (f ! (j + 1)) < 128"
  proof -
    consider "j < 0x207" | "j = 0x207" | "j = 0x208" | "0x209 \<le> j" "j < 0x20F" | "j = 0x20F" using j by linarith
    then show ?thesis
      using first hi [of "j + 1 - 0x208"] t1 z0 j by cases auto
  qed
  then show False using f1 f3 V(3) hi [of 2] by auto
qed


lemma relocate_fields:
  fixes nw :: u32 and fo :: u32
  assumes tx: "old_text < 0x3000" "new_text < 0x3000" and len: "0x4060 \<le> length r"
    and base: "get_bytes 0x200 8 r = le_bytes 8 0x30008000" and foff: "get_bytes 0x210 4 r = le_bytes 4 0x4000"
  defines "vm \<equiv> \<lambda>t. kTextVmBase + of_nat (const_offset t - kTextFileOff)"
  defines "f \<equiv> wr32 kConstFileoffOff fo (wr64 kConstVmaddrOff (vm new_text) (wr64 kTextSectSizeOff (of_nat new_text) r))"
  defines "r' \<equiv> wr32 kTdInstrCntOff nw (replace_vmaddr (le_bytes 8 (unat (vm old_text))) (le_bytes 8 (unat (vm new_text))) 0x20 f)"
  shows "length r' = length r" "\<And>i. i < 0x20 \<or> kTextFileOff \<le> i \<Longrightarrow> i < length r \<Longrightarrow> r' ! i = r ! i"
    "get_bytes kTextSectSizeOff 8 r' = le_bytes 8 new_text" "rd32 kTdInstrCntOff r' = nw"
proof -
  let ?r5 = "replace_vmaddr (le_bytes 8 (unat (vm old_text))) (le_bytes 8 (unat (vm new_text))) 0x20 f"
  have lf: "length f = length r" using len by (simp add: f_def hwx_offsets)
  have l5: "length ?r5 = length r" using lf len by (simp add: kTextFileOff_def)
  then show "length r' = length r" using len by (simp add: r'_def kTdInstrCntOff_def)
  show "rd32 kTdInstrCntOff r' = nw" using l5 len by (simp add: r'_def kTdInstrCntOff_def)
  have nf: "f ! i = r ! i" if "i < length r" "i < 0x208 \<or> 0x264 \<le> i \<or> 0x210 \<le> i \<and> i < 0x250" for i
    using that len by (auto simp: f_def hwx_offsets nth_wr32 nth_wr64)
  show "r' ! i = r ! i" if "i < 0x20 \<or> kTextFileOff \<le> i" "i < length r" for i
  proof -
    have "?r5 ! i = f ! i" using that lf len by (intro replace_vmaddr_low) (auto simp: kTextFileOff_def)
    moreover have "r' ! i = ?r5 ! i" using that l5 len by (auto simp: r'_def kTdInstrCntOff_def kTextFileOff_def nth_wr32)
    ultimately show ?thesis using nf [of i] that by (auto simp: kTextFileOff_def)
  qed
  have sz: "get_bytes 0x208 8 f = le_bytes 8 new_text"
  proof -
    have "get_bytes 0x208 8 f = get_bytes 0x208 8 (wr64 0x208 (of_nat new_text) r)"
      using len lf by (intro get_bytes_cong) (auto simp: f_def hwx_offsets nth_wr32 nth_wr64)
    also have "\<dots> = le_bytes 8 new_text" using len tx(2) by (simp add: wr64_def get_put_bytes unat_of_nat)
    finally show ?thesis .
  qed
  have bf: "get_bytes 0x200 8 f = le_bytes 8 0x30008000" "get_bytes 0x210 4 f = le_bytes 4 0x4000"
    unfolding base [symmetric] foff [symmetric] using len lf nf by (intro get_bytes_cong; simp)+
  have "?r5 ! i = f ! i" if "0x208 \<le> i" "i < 0x210" for i
    using that lf len no_straddle [OF tx _ bf(1) sz bf(2)]
    by (intro replace_vmaddr_other) (auto simp: kTextFileOff_def vm_def)
  then have "get_bytes 0x208 8 r' = get_bytes 0x208 8 f"
    using l5 lf len by (intro get_bytes_cong) (auto simp: r'_def kTdInstrCntOff_def nth_wr32)
  then show "get_bytes kTextSectSizeOff 8 r' = le_bytes 8 new_text" using sz by (simp add: kTextSectSizeOff_def)
qed


text \<open>A patched file against the template it comes from.\<close>

definition patched_from :: "byte list \<Rightarrow> OpConfig \<Rightarrow> byte list \<Rightarrow> bool" where
  "patched_from hwx cfg r \<longleftrightarrow> (let old = text_bytes (extract_op_config hwx); new = text_bytes cfg in
     valid_hwx r \<and> extract_op_config r = cfg
     \<and> length r = max (length hwx) (const_offset new + kConstSize)
     \<and> get_bytes (const_offset new) kConstSize r = get_bytes (const_offset old) kConstSize hwx
     \<and> (\<forall>i < kTextFileOff + min old new. kTextFileOff \<le> i \<and> \<not> in_op_words i \<longrightarrow> r ! i = hwx ! i))"

lemma patched_fromI:
  assumes big: "kMinHwxSize \<le> length hwx" and ok: "cfg_ok (extract_op_config hwx)" "cfg_ok cfg" and val: "valid_hwx hwx"
    and const_le: "const_offset (text_bytes (extract_op_config hwx)) \<le> length hwx"
    and r: "length r = max (length hwx) (const_offset (text_bytes cfg) + kConstSize)"
      "get_bytes (const_offset (text_bytes cfg)) kConstSize r
        = get_bytes (const_offset (text_bytes (extract_op_config hwx))) kConstSize hwx"
      "\<And>i. i < 0x20 \<or> kTextFileOff \<le> i \<Longrightarrow> i < kTextFileOff + min (text_bytes (extract_op_config hwx)) (text_bytes cfg)
         \<Longrightarrow> r ! i = patch_words cfg hwx ! i"
      "ucast (rd64 kTextSectSizeOff r div 4) = num_words cfg"
  shows "patched_from hwx cfg r"
proof -
  note pw = patch_words_spec [OF big, where cfg = cfg]
  have L: "0x4060 \<le> length hwx" "length hwx \<le> length r" using big r(1) by (simp_all add: hwx_offsets)
  have t: "0x60 \<le> min (text_bytes (extract_op_config hwx)) (text_bytes cfg)" using ok by (simp add: cfg_ok_def)
  have inside: "kTextFileOff + text_bytes (extract_op_config hwx) \<le> length hwx"
    using const_offset_bounds(1) [of "text_bytes (extract_op_config hwx)"] ok const_le by (simp add: cfg_ok_def)
  have word: "rd32 off r = rd32 off (patch_words cfg hwx)" if "off + 4 \<le> 0x20 \<or> kTextFileOff \<le> off" "off + 4 \<le> 0x4060" for off
    using that L t pw(1) by (intro rd32_cong r(3)) (auto simp: kTextFileOff_def)
  have "rd32 0 (patch_words cfg hwx) = rd32 0 hwx"
    using L(1) pw(1) by (intro rd32_cong pw(6)) (auto simp: in_op_words_def hwx_offsets)
  then have "valid_hwx r" using word [of 0] val L by (simp add: valid_hwx_def hwx_offsets)
  moreover have "extract_op_config r = cfg"
    using L r(4) word pw(2-5) by (simp add: extract_op_config_def hwx_offsets)
  moreover have "r ! i = hwx ! i"
    if "i < kTextFileOff + min (text_bytes (extract_op_config hwx)) (text_bytes cfg)" "kTextFileOff \<le> i" "\<not> in_op_words i" for i
    using that r(3) [of i] pw(6) [of i] inside by simp
  ultimately show ?thesis using r(1,2) by (simp add: patched_from_def Let_def)
qed

lemma text_words: "cfg_ok cfg \<Longrightarrow> get_bytes kTextSectSizeOff 8 r = le_bytes 8 (text_bytes cfg)
    \<Longrightarrow> ucast (rd64 kTextSectSizeOff r div 4) = num_words cfg"
proof -
  assume ok: "cfg_ok cfg" and b: "get_bytes kTextSectSizeOff 8 r = le_bytes 8 (text_bytes cfg)"
  have t: "text_bytes cfg < 0x3000" using ok by (simp add: cfg_ok_def)
  then have "rd64 kTextSectSizeOff r = of_nat (text_bytes cfg)" by (simp add: rd64_def b le_nat_le_bytes)
  moreover have "unat (of_nat (text_bytes cfg) div 4 :: size_t) = unat (num_words cfg)"
    using t unat_of_nat_size [of "text_bytes cfg"] by (simp add: unat_div text_bytes_def)
  then have "(ucast (of_nat (text_bytes cfg) div 4 :: size_t) :: u32) = num_words cfg"
    using of_nat_unat [of "of_nat (text_bytes cfg) div 4 :: size_t", where ?'a = u32] by simp
  ultimately show ?thesis by simp
qed

lemma laid_outD:
  fixes cfg :: OpConfig
  assumes lay: "hwx_laid_out hwx"
  defines "old \<equiv> extract_op_config hwx" and "h \<equiv> patch_words cfg hwx"
  shows "valid_hwx hwx" "cfg_ok old" "kMinHwxSize \<le> length hwx" "const_offset (text_bytes old) + kConstSize \<le> length hwx"
    "length h = length hwx" "\<And>i. i < length hwx \<Longrightarrow> i < kTextFileOff \<or> 0x4060 \<le> i \<Longrightarrow> h ! i = hwx ! i"
    "get_bytes (const_offset (text_bytes old)) kConstSize h = get_bytes (const_offset (text_bytes old)) kConstSize hwx"
    "get_bytes 0x200 8 hwx = le_bytes 8 0x30008000" "get_bytes 0x210 4 hwx = le_bytes 4 0x4000"
proof -
  show val: "valid_hwx hwx" "cfg_ok old" "const_offset (text_bytes old) + kConstSize \<le> length hwx"
    using lay by (simp_all add: hwx_laid_out_def old_def)
  show big: "kMinHwxSize \<le> length hwx" using val(1) by (simp add: valid_hwx_def)
  note pw = patch_words_spec [OF big, where cfg = cfg, folded h_def]
  show len: "length h = length hwx" by (rule pw(1))
  show keep: "h ! i = hwx ! i" if "i < length hwx" "i < kTextFileOff \<or> 0x4060 \<le> i" for i
    using that by (intro pw(6)) (auto simp: in_op_words_def hwx_offsets)
  have "0x4060 \<le> const_offset (text_bytes old)"
    using const_offset_bounds(1) [of "text_bytes old"] val(2) by (simp add: kTextFileOff_def cfg_ok_def)
  then show "get_bytes (const_offset (text_bytes old)) kConstSize h = get_bytes (const_offset (text_bytes old)) kConstSize hwx"
    using val(3) len by (intro get_bytes_cong keep) auto
  show "get_bytes 0x200 8 hwx = le_bytes 8 0x30008000" "get_bytes 0x210 4 hwx = le_bytes 4 0x4000"
    using rd64_bytes [of "0x200" hwx kTextVmBase] rd32_bytes [of "0x210" hwx "of_nat kTextFileOff"] lay big
    by (simp_all add: hwx_laid_out_def kTextVmBase_def hwx_offsets)
qed

lemma relocate_spec:
  assumes lay: "hwx_laid_out hwx" and cfg: "cfg_ok cfg"
  shows "\<exists>r. relocate cfg (extract_op_config hwx) (patch_words cfg hwx) = Inr r \<and> patched_from hwx cfg r
    \<and> rd32 kTdInstrCntOff r = num_words cfg"
proof -
  let ?old = "extract_op_config hwx" and ?h = "patch_words cfg hwx"
  let ?ot = "text_bytes ?old" and ?nt = "text_bytes cfg"
  note d = laid_outD [OF lay]
  have tx: "?ot < 0x3000" "?nt < 0x3000" using d(2) cfg by (simp_all add: cfg_ok_def)
  have L: "0x4060 \<le> length hwx" using d(3) by (simp add: hwx_offsets)
  obtain r where r: "bind_res (if ?nt < ?ot then fill_zero (kTextFileOff + ?nt) (kTextFileOff + ?ot)
        (let n = const_offset ?nt + kConstSize in if length ?h < n then ?h @ replicate (n - length ?h) 0 else ?h)
      else Inr (let n = const_offset ?nt + kConstSize in if length ?h < n then ?h @ replicate (n - length ?h) 0 else ?h))
      (move_const (const_offset ?ot) (const_offset ?nt) (get_bytes (const_offset ?ot) kConstSize ?h)) = Inr r"
    and mv: "moved ?ot ?nt ?h r"
    using move_const_spec [OF tx, of ?h] d(4,5) by auto
  have rl: "length r = max (length hwx) (const_offset ?nt + kConstSize)" using mv d(5) by (simp add: moved_def)
  have low: "r ! i = ?h ! i" if "i < kTextFileOff + min ?ot ?nt" for i using mv that by (simp add: moved_def)
  have rL: "0x4060 \<le> length r" using L rl by simp
  have hb: "get_bytes 0x200 8 r = le_bytes 8 0x30008000" "get_bytes 0x210 4 r = le_bytes 4 0x4000"
    unfolding d(8,9) [symmetric] using L rl low d(6) by (intro get_bytes_cong; simp add: kTextFileOff_def)+
  note fl = relocate_fields [OF tx rL hb, where nw = "num_words cfg" and fo = "of_nat (const_offset ?nt)"]
  let ?vm = "\<lambda>t. kTextVmBase + of_nat (const_offset t - kTextFileOff)"
  define r' where "r' = wr32 kTdInstrCntOff (num_words cfg)
    (replace_vmaddr (le_bytes 8 (unat (?vm ?ot))) (le_bytes 8 (unat (?vm ?nt))) 0x20
      (wr32 kConstFileoffOff (of_nat (const_offset ?nt)) (wr64 kConstVmaddrOff (?vm ?nt)
        (wr64 kTextSectSizeOff (of_nat ?nt) r))))"
  note fl = fl [folded r'_def]
  have "relocate cfg ?old ?h = Inr r'"
    using d(4,5) r unfolding relocate_def Let_def cfg_ok_text [OF cfg] cfg_ok_text [OF d(2)]
    by (auto simp: bind_res_Inr r'_def)
  moreover have "patched_from hwx cfg r'"
  proof (rule patched_fromI [OF d(3) d(2) cfg d(1)])
    note nb = const_offset_bounds [OF tx(2)]
    have "get_bytes (const_offset ?nt) kConstSize r' = get_bytes (const_offset ?nt) kConstSize r"
      using fl(1,2) nb rl by (intro get_bytes_cong) auto
    then show "get_bytes (const_offset ?nt) kConstSize r' = get_bytes (const_offset ?ot) kConstSize hwx"
      using mv d(7) by (simp add: moved_def)
    show "r' ! i = ?h ! i" if "i < 0x20 \<or> kTextFileOff \<le> i" "i < kTextFileOff + min ?ot ?nt" for i
      using fl(2) [OF that(1)] low [OF that(2)] that(2) nb rl by simp
  qed (use d(4) fl rl text_words [OF cfg fl(3)] in simp_all)
  ultimately show ?thesis using fl(4) by blast
qed

lemma patch_op_spec:
  assumes lay: "hwx_laid_out hwx" and cfg: "cfg_ok cfg"
  shows "\<exists>r. patch_op hwx cfg (extract_op_config hwx) = Inr r \<and> patched_from hwx cfg r
    \<and> (num_words cfg \<noteq> num_words (extract_op_config hwx) \<longrightarrow> rd32 kTdInstrCntOff r = num_words cfg)"
proof (cases "num_words cfg = num_words (extract_op_config hwx)")
  case True
  let ?h = "patch_words cfg hwx"
  note d = laid_outD [OF lay]
  have eq: "text_bytes cfg = text_bytes (extract_op_config hwx)" using True by (simp add: text_bytes_def)
  have "get_bytes kTextSectSizeOff 8 ?h = get_bytes kTextSectSizeOff 8 hwx"
    using d(3,5) by (intro get_bytes_cong d(6)) (auto simp: hwx_offsets)
  then have "ucast (rd64 kTextSectSizeOff ?h div 4) = num_words cfg"
    using True d(3) by (simp add: extract_op_config_def rd64_def)
  then have "patched_from hwx cfg ?h"
    using d(4,5,7) eq by (intro patched_fromI [OF d(3,2) cfg d(1)]) auto
  then show ?thesis using True d(1) by (auto simp: patch_op_def)
next
  case False
  then show ?thesis using relocate_spec [OF assms] laid_outD(1) [OF lay] by (auto simp: patch_op_def)
qed


section \<open>The cache only grows\<close>

record capture =
  cap_dir :: string
  cap_channels :: int
  cap_seq :: int
  cap_op :: libane_op_t

fun run_captures :: "(string \<Rightarrow> byte list option) \<Rightarrow> capture list \<Rightarrow> HwxEmitter \<Rightarrow> HwxEmitter" where
  "run_captures fs [] em = em"
| "run_captures fs (k # ks) em =
     run_captures fs ks (snd (capture_from_model_dir fs (cap_dir k) (cap_channels k) (cap_seq k) (cap_op k) em))"

definition emitter_le :: "HwxEmitter \<Rightarrow> HwxEmitter \<Rightarrow> bool" where
  "emitter_le a b \<longleftrightarrow> shape_cache a \<subseteq>\<^sub>m shape_cache b \<and> op_cfg_cache a \<subseteq>\<^sub>m op_cfg_cache b"

lemma emitter_le_refl [simp]: "emitter_le em em"
  by (simp add: emitter_le_def)

lemma emitter_le_trans: "emitter_le a b \<Longrightarrow> emitter_le b c \<Longrightarrow> emitter_le a c"
  by (auto simp: emitter_le_def intro: map_le_trans)

lemma capture_le: "emitter_le em (snd (capture_from_model_dir fs dir c s op em))"
  by (auto simp: capture_from_model_dir_def emitter_le_def map_le_def Let_def)

lemma captures_le: "emitter_le em (run_captures fs ks em)"
  by (induction ks arbitrary: em) (auto intro: emitter_le_trans [OF capture_le])

lemma can_emit_iff: "can_emit em c s op \<longleftrightarrow> (\<exists>t cfg. shape_cache em (c, s) = Some t \<and> op_cfg_cache em (op_code op) = Some cfg)"
  by (auto simp: can_emit_def has_shape_def has_op_config_def)

lemma emit_le:
  assumes "emitter_le a b" "can_emit a c s op"
  shows "can_emit b c s op \<and> emit b c s op = emit a c s op"
proof -
  have "(c, s) \<in> dom (shape_cache a)" "op_code op \<in> dom (op_cfg_cache a)" using assms(2) by (auto simp: can_emit_iff)
  then have "shape_cache b (c, s) = shape_cache a (c, s)" "op_cfg_cache b (op_code op) = op_cfg_cache a (op_code op)"
    using assms(1) by (auto simp: emitter_le_def map_le_def)
  then show ?thesis using assms(2) by (simp add: can_emit_iff emit_def)
qed

lemma capture_can_emit:
  assumes "capture_from_model_dir fs dir c s op em = (True, em')"
  shows "can_emit em' c s op"
  using assms by (auto simp: capture_from_model_dir_def can_emit_iff Let_def split: if_splits)

definition emitter_ok :: "HwxEmitter \<Rightarrow> bool" where
  "emitter_ok em \<longleftrightarrow> (\<forall>h \<in> ran (shape_cache em). hwx_laid_out h) \<and> (\<forall>cfg \<in> ran (op_cfg_cache em). cfg_ok cfg)"

lemma empty_emitter_ok [simp]: "emitter_ok empty_emitter"
  by (simp add: emitter_ok_def empty_emitter_def)

lemma read_hwx_laid_out: "(\<And>h. fs dir = Some h \<Longrightarrow> valid_hwx h \<Longrightarrow> hwx_laid_out h) \<Longrightarrow>
    read_hwx_from_dir fs dir = h \<Longrightarrow> h \<noteq> [] \<Longrightarrow> hwx_laid_out h"
  by (auto simp: read_hwx_from_dir_def split: option.splits if_splits)

lemma capture_ok:
  assumes "emitter_ok em" "\<And>h. fs dir = Some h \<Longrightarrow> valid_hwx h \<Longrightarrow> hwx_laid_out h"
  shows "emitter_ok (snd (capture_from_model_dir fs dir c s op em))"
proof -
  let ?h = "read_hwx_from_dir fs dir"
  have "hwx_laid_out ?h" if "?h \<noteq> []" using read_hwx_laid_out [OF assms(2) refl that] .
  then have "?h \<noteq> [] \<Longrightarrow> hwx_laid_out ?h \<and> cfg_ok (extract_op_config ?h)" by (simp add: hwx_laid_out_def)
  then show ?thesis
    using assms(1) by (auto simp: emitter_ok_def capture_from_model_dir_def Let_def ran_def)
qed

lemma captures_ok:
  assumes "emitter_ok em" "\<And>k h. k \<in> set ks \<Longrightarrow> fs (cap_dir k) = Some h \<Longrightarrow> valid_hwx h \<Longrightarrow> hwx_laid_out h"
  shows "emitter_ok (run_captures fs ks em)"
  using assms by (induction ks arbitrary: em) (auto intro: capture_ok)

lemma emit_ok:
  assumes "emitter_ok em" "can_emit em c s op"
  obtains t cfg r where "shape_cache em (c, s) = Some t" "op_cfg_cache em (op_code op) = Some cfg" "emit em c s op = Inr r"
    "patched_from t cfg r" "num_words cfg \<noteq> num_words (extract_op_config t) \<longrightarrow> rd32 kTdInstrCntOff r = num_words cfg"
proof -
  obtain t cfg where tc: "shape_cache em (c, s) = Some t" "op_cfg_cache em (op_code op) = Some cfg"
    using assms(2) by (auto simp: can_emit_iff)
  then have "hwx_laid_out t" "cfg_ok cfg" using assms(1) by (auto simp: emitter_ok_def ran_def)
  from patch_op_spec [OF this] show ?thesis using that tc by (auto simp: emit_def)
qed

text \<open>
  C24. After any captures of laid-out files, emitting for a cached shape and a cached op patches
  the shape's template into a file that reads back as the op's configuration: it is a valid file,
  the op words and the \<open>__text\<close> size are those of the op, \<open>__const\<close> keeps its content at its
  relocated offset, the other \<open>__text\<close> bytes are the template's, and when the size
  changes so does the instruction count of the task descriptor. No access leaves the buffer.
\<close>

theorem emit_patches_template:
  assumes "\<forall>k \<in> set ks. \<forall>h. fs (cap_dir k) = Some h \<and> valid_hwx h \<longrightarrow> hwx_laid_out h"
    "em = run_captures fs ks empty_emitter" "can_emit em c s op"
  shows "\<exists>t cfg r. shape_cache em (c, s) = Some t \<and> op_cfg_cache em (op_code op) = Some cfg
    \<and> emit em c s op = Inr r \<and> valid_hwx r \<and> extract_op_config r = cfg \<and> patched_from t cfg r
    \<and> (num_words cfg \<noteq> num_words (extract_op_config t) \<longrightarrow> rd32 kTdInstrCntOff r = num_words cfg)"
proof -
  have "emitter_ok em" unfolding assms(2) using assms(1) by (intro captures_ok) auto
  from emit_ok [OF this assms(3)] obtain t cfg r where r: "shape_cache em (c, s) = Some t"
    "op_cfg_cache em (op_code op) = Some cfg" "emit em c s op = Inr r" "patched_from t cfg r"
    "num_words cfg \<noteq> num_words (extract_op_config t) \<longrightarrow> rd32 kTdInstrCntOff r = num_words cfg" .
  then have "valid_hwx r" "extract_op_config r = cfg" by (simp_all add: patched_from_def Let_def)
  with r show ?thesis by blast
qed

definition demo_hwx :: "nat \<Rightarrow> byte list" where
  "demo_hwx n = wr32 0x210 (of_nat kTextFileOff) (wr64 kTextSectSizeOff (of_nat (4 * n))
     (wr64 0x200 kTextVmBase (wr32 0 kBeeffaceMagic (replicate 0x9000 0))))"

lemma length_demo_hwx: "length (demo_hwx n) = 0x9000"
  by (simp add: demo_hwx_def kTextSectSizeOff_def)

lemma rd64_wr64: "off + 8 \<le> length p \<Longrightarrow> rd64 off (wr64 off v p) = v"
  by (simp add: rd64_def wr64_def get_put_bytes le_nat_le_bytes [OF unat_bound(2)])

lemmas rd_wr_defs = rd32_def rd64_def wr32_def wr64_def

lemma demo_hwx_laid_out:
  assumes "24 \<le> n" "n \<le> 200"
  shows "hwx_laid_out (demo_hwx n)" "num_words (extract_op_config (demo_hwx n)) = of_nat n"
proof -
  have far: "get_bytes a k (put_bytes b v p) = get_bytes a k p"
    if "a + k \<le> b \<or> b + length v \<le> a" "a + k \<le> length p" "b + length v \<le> length p" for a k b v p
    using that by (auto intro: get_put_disjoint)
  have rd: "rd32 0 (demo_hwx n) = kBeeffaceMagic" "rd64 0x200 (demo_hwx n) = kTextVmBase"
    "rd64 kTextSectSizeOff (demo_hwx n) = of_nat (4 * n)" "rd32 0x210 (demo_hwx n) = of_nat kTextFileOff"
    by (simp_all add: demo_hwx_def rd_wr_defs far get_put_bytes kTextSectSizeOff_def
        le_nat_le_bytes [OF unat_bound(1)] le_nat_le_bytes [OF unat_bound(2)])
  have "unat (of_nat (4 * n) div 4 :: size_t) = n"
    using assms unat_of_nat_size [of "4 * n"] by (simp add: unat_div)
  then have "(ucast (of_nat (4 * n) div 4 :: size_t) :: u32) = of_nat n"
    using of_nat_unat [of "of_nat (4 * n) div 4 :: size_t", where ?'a = u32] by simp
  then show nw: "num_words (extract_op_config (demo_hwx n)) = of_nat n"
    using rd(3) by (simp add: extract_op_config_def length_demo_hwx kMinHwxSize_def kTextFileOff_def)
  then have t: "text_bytes (extract_op_config (demo_hwx n)) = 4 * n"
    using assms by (simp add: text_bytes_def unat_of_nat)
  have "const_offset (4 * n) + kConstSize \<le> 0x9000"
    using assms by (simp add: const_offset_eq kTextFileOff_def kConstSize_def)
  then show "hwx_laid_out (demo_hwx n)"
    using rd t assms by (simp add: hwx_laid_out_def valid_hwx_def cfg_ok_def length_demo_hwx kMinHwxSize_def kTextFileOff_def)
qed

definition demo_files :: "string \<Rightarrow> byte list option" where
  "demo_files dir = (if dir = ''relu'' then Some (demo_hwx 65) else if dir = ''tanh'' then Some (demo_hwx 63) else None)"

definition demo_captures :: "capture list" where
  "demo_captures = [\<lparr>cap_dir = ''relu'', cap_channels = 64, cap_seq = 32, cap_op = LIBANE_OP_RELU\<rparr>,
     \<lparr>cap_dir = ''tanh'', cap_channels = 128, cap_seq = 32, cap_op = LIBANE_OP_TANH\<rparr>]"

lemma demo_read: "read_hwx_from_dir demo_files ''relu'' = demo_hwx 65" "read_hwx_from_dir demo_files ''tanh'' = demo_hwx 63"
  "demo_hwx 65 \<noteq> []" "demo_hwx 63 \<noteq> []"
proof -
  have "demo_hwx n \<noteq> []" for n using length_demo_hwx [of n] by auto
  then show "read_hwx_from_dir demo_files ''relu'' = demo_hwx 65" "read_hwx_from_dir demo_files ''tanh'' = demo_hwx 63"
    "demo_hwx 65 \<noteq> []" "demo_hwx 63 \<noteq> []"
    using demo_hwx_laid_out [of 65] demo_hwx_laid_out [of 63] by (simp_all add: read_hwx_from_dir_def demo_files_def hwx_laid_out_def)
qed

lemma demo_emitter:
  "run_captures demo_files demo_captures empty_emitter = \<lparr>shape_cache = [(64, 32) \<mapsto> demo_hwx 65, (128, 32) \<mapsto> demo_hwx 63],
     op_cfg_cache = [op_code LIBANE_OP_RELU \<mapsto> extract_op_config (demo_hwx 65), op_code LIBANE_OP_TANH \<mapsto> extract_op_config (demo_hwx 63)]\<rparr>"
  by (simp add: demo_captures_def capture_from_model_dir_def demo_read empty_emitter_def Let_def fun_eq_iff)

theorem emit_patches_template_witness:
  "\<exists>r. emit (run_captures demo_files demo_captures empty_emitter) 64 32 LIBANE_OP_TANH = Inr r
     \<and> valid_hwx r \<and> extract_op_config r = extract_op_config (demo_hwx 63) \<and> rd32 kTdInstrCntOff r = 63"
proof -
  have "\<forall>k \<in> set demo_captures. \<forall>h. demo_files (cap_dir k) = Some h \<and> valid_hwx h \<longrightarrow> hwx_laid_out h"
    using demo_hwx_laid_out(1) [of 65] demo_hwx_laid_out(1) [of 63] by (simp add: demo_captures_def demo_files_def)
  moreover have "can_emit (run_captures demo_files demo_captures empty_emitter) 64 32 LIBANE_OP_TANH"
    by (simp add: demo_emitter can_emit_iff)
  ultimately show ?thesis
    using emit_patches_template [of demo_captures demo_files _ 64 32 LIBANE_OP_TANH] demo_hwx_laid_out(2) [of 65]
      demo_hwx_laid_out(2) [of 63]
    by (auto simp: demo_emitter)
qed

text \<open>
  C25. The cache is append-only: a successful capture makes its shape and op emittable, and
  whatever is captured afterwards leaves every emittable file emittable and unchanged.
\<close>

theorem captures_append_only:
  "(\<forall>dir c s op em'. capture_from_model_dir fs dir c s op em = (True, em') \<longrightarrow> can_emit em' c s op)
   \<and> (\<forall>c s op. can_emit em c s op \<longrightarrow> can_emit (run_captures fs ks em) c s op
        \<and> emit (run_captures fs ks em) c s op = emit em c s op)"
  using capture_can_emit emit_le [OF captures_le] by blast


theorem captures_append_only_witness:
  "can_emit (run_captures demo_files demo_captures (snd (capture_from_model_dir demo_files ''tanh'' 64 32 LIBANE_OP_TANH empty_emitter)))
     64 32 LIBANE_OP_TANH"
proof -
  obtain em' where "capture_from_model_dir demo_files ''tanh'' 64 32 LIBANE_OP_TANH empty_emitter = (True, em')"
    by (auto simp: capture_from_model_dir_def demo_read Let_def)
  then show ?thesis using captures_append_only by (metis snd_conv)
qed

end
