(* ===== verification/CompilerBackend.thy ===== *)
theory CompilerBackend
  imports MilBackend HwxEmitter
begin

text \<open>
  The backend interface (src/graph/compiler_backend.hpp), the runtime it compiles against
  (src/runtime/ane_runtime.hpp), and two of its implementations, \<open>MilBackend\<close> and \<open>HwxBackend\<close>
  (src/graph/hwx_backend.cpp). The runtime wraps Apple's private framework and is a
  parameter, \<open>ane_runtime\<close>, with the scans and temporary directories of the file system the
  backends use. A backend is a record of its two virtual methods over a
  state; only \<open>HwxBackend\<close> has one, the emitter's cache.

  The locale \<open>compiler_backend\<close> is the contract: on a fusion group of a validated graph that the
  emitters accept, \<open>owns\<close> and \<open>compile_group\<close> return, without an exception and
  without undefined behaviour, and keep the backend's invariant.
\<close>

datatype AneState = Uninitialized | Available | Fallback

record AneProgram =
  prog_handle :: nat
  model_dir :: string
  objc_client_model :: bool
  client_in_seq :: int
  client_out_seq :: int

record ane_runtime =
  rt_initialize :: AneState
  ane_compile :: "string \<Rightarrow> weight_entry list \<Rightarrow> string \<Rightarrow> AneProgram option"
  ane_load_hwx :: "byte list \<Rightarrow> int \<Rightarrow> int \<Rightarrow> string \<Rightarrow> string \<Rightarrow> string \<Rightarrow> AneProgram option"
  path_b_available :: bool
  ane_load_mlmodelc :: "string \<Rightarrow> int \<Rightarrow> int \<Rightarrow> int \<Rightarrow> int \<Rightarrow> string \<Rightarrow> AneProgram option"
  first_hwx_file :: "string \<Rightarrow> byte list option"
  make_temp_dir :: "string option"
  make_dir :: "string \<Rightarrow> bool"
  write_file :: "string \<Rightarrow> byte list \<Rightarrow> bool"

record 's CompilerBackend =
  be_owns :: "'s \<Rightarrow> AneGraph \<Rightarrow> FusionGroup \<Rightarrow> bool res"
  be_compile_group :: "'s \<Rightarrow> AneGraph \<Rightarrow> FusionGroup \<Rightarrow> string \<Rightarrow> (AneProgram option \<times> 's) res"

definition mil_backend :: "mil_env \<Rightarrow> ane_runtime \<Rightarrow> 's CompilerBackend" where
  "mil_backend E rt =
     \<lparr>be_owns = (\<lambda>s g gr. Inr (mil_owns g gr)),
      be_compile_group = (\<lambda>s g gr debug_name.
        bind_res (mil_compile_group E (ane_compile rt) g gr debug_name) (\<lambda>p. Inr (p, s)))\<rparr>"

section \<open>HwxBackend\<close>

definition is_hwx_eligible :: "libane_op_t \<Rightarrow> bool" where
  "is_hwx_eligible op = (case op of
      LIBANE_OP_RELU \<Rightarrow> True
    | LIBANE_OP_TANH \<Rightarrow> True
    | LIBANE_OP_SIGMOID \<Rightarrow> True
    | LIBANE_OP_HARDSWISH \<Rightarrow> True
    | LIBANE_OP_LEAKY_RELU \<Rightarrow> True
    | LIBANE_OP_ELU \<Rightarrow> True
    | _ \<Rightarrow> False)"

definition first_node :: "AneGraph \<Rightarrow> FusionGroup \<Rightarrow> GraphNode res" where
  "first_node g gr = (if node_ids gr = [] then Inl (Undefined_behaviour ''node_ids[0]'') else node g (node_ids gr ! 0))"

definition hwx_owns :: "AneGraph \<Rightarrow> FusionGroup \<Rightarrow> bool res" where
  "hwx_owns g gr =
     (if length (node_ids gr) \<noteq> 1 then Inr False
      else bind_res (first_node g gr) (\<lambda>n. Inr (is_hwx_eligible (n_op n))))"

text \<open>The warm path: the program loaded from a patched file, if there is one.\<close>

definition hwx_warm ::
  "ane_runtime \<Rightarrow> HwxEmitter \<Rightarrow> GraphNode \<Rightarrow> TensorShape \<Rightarrow> FusionGroup \<Rightarrow> string \<Rightarrow> AneProgram option res" where
  "hwx_warm rt em n out_shape gr debug_name =
     (let C = channels out_shape; S = seq out_shape in
      if can_emit em C S (n_op n) then
        bind_res (emit em C S (n_op n)) (\<lambda>hwx.
          if hwx \<noteq> [] then
            if gr_inputs gr = [] then Inl (Undefined_behaviour ''group.inputs[0]'')
            else Inr (ane_load_hwx rt hwx C S (tensor_var (gr_inputs gr ! 0)) (tensor_var (n_output n)) debug_name)
          else Inr None)
      else Inr None)"

definition hwx_compile_group ::
  "mil_env \<Rightarrow> ane_runtime \<Rightarrow> HwxEmitter \<Rightarrow> AneGraph \<Rightarrow> FusionGroup \<Rightarrow> string \<Rightarrow> (AneProgram option \<times> HwxEmitter) res" where
  "hwx_compile_group E rt em g gr debug_name =
     bind_res (first_node g gr) (\<lambda>n. bind_res (tensor g (n_output n)) (\<lambda>ot.
     bind_res (hwx_warm rt em n (t_shape ot) gr debug_name) (\<lambda>warm. case warm of
       Some prog \<Rightarrow> Inr (Some prog, em)
     | None \<Rightarrow> bind_res (mil_compile_group E (ane_compile rt) g gr debug_name) (\<lambda>p. case p of
         None \<Rightarrow> Inr (None, em)
       | Some prog \<Rightarrow>
           if model_dir prog = [] then Inr (Some prog, em)
           else Inr (Some prog, snd (capture_from_model_dir (first_hwx_file rt) (model_dir prog)
                  (channels (t_shape ot)) (seq (t_shape ot)) (n_op n) em))))))"

definition hwx_backend :: "mil_env \<Rightarrow> ane_runtime \<Rightarrow> HwxEmitter CompilerBackend" where
  "hwx_backend E rt = \<lparr>be_owns = (\<lambda>em. hwx_owns), be_compile_group = hwx_compile_group E rt\<rparr>"

section \<open>The contract\<close>

definition good_group :: "AneGraph \<Rightarrow> FusionGroup \<Rightarrow> bool" where
  "good_group g gr \<longleftrightarrow> built g \<and> fits g \<and> validate_graph g = Inr []
     \<and> (\<exists>gs. compute_groups g = Inr gs \<and> gr \<in> set gs)
     \<and> (\<forall>i \<in> set (node_ids gr). node_emittable g (nodes g ! i))
     \<and> distinct (n_inputs (nodes g ! hd (node_ids gr)))"

locale compiler_backend =
  fixes B :: "'s CompilerBackend" and inv :: "'s \<Rightarrow> bool"
  assumes owns_defined: "good_group g gr \<Longrightarrow> \<exists>b. be_owns B s g gr = Inr b"
    and compile_defined: "good_group g gr \<Longrightarrow> inv s \<Longrightarrow> be_owns B s g gr = Inr True
      \<Longrightarrow> \<exists>p s'. be_compile_group B s g gr debug_name = Inr (p, s') \<and> inv s'"

lemma good_group_nodes:
  assumes "good_group g gr"
  obtains "graph_wf g" "node_ids gr \<noteq> []" "gr_inputs gr \<noteq> []" "\<forall>i \<in> set (node_ids gr). i < length (nodes g)"
    "\<forall>i \<in> set (node_ids gr). node_in g (nodes g ! i)" "\<forall>i \<in> set (node_ids gr). node_requires g (nodes g ! i)"
proof -
  obtain gs where g: "built g" "fits g" "validate_graph g = Inr []" "compute_groups g = Inr gs" "gr \<in> set gs"
    using assms by (auto simp: good_group_def)
  have wf: "graph_wf g" using g(1,2) by (simp add: fits_def built_graph_wf)
  have inv: "pass_inv g (length (nodes g)) gs" using compute_groups_inv [OF wf] g(4) by auto
  have ok: "group_ok g gr" using inv g(5) by (simp add: pass_inv_def)
  have ids: "\<forall>i \<in> set (node_ids gr). i < length (nodes g)" using group_scope(2) [OF wf inv g(5)] .
  have ne: "node_ids gr \<noteq> []" using ok by (simp add: group_ok_def)
  have v: "node_in g (nodes g ! i)" "node_requires g (nodes g ! i)" if "i \<in> set (node_ids gr)" for i
    using validated_node [OF g(1-3)] ids that by simp_all
  have "n_inputs (nodes g ! hd (node_ids gr)) \<noteq> []" using requires_input [OF v(2) [OF hd_in_set [OF ne]]] .
  then have "gr_inputs gr \<noteq> []" using ok by (auto simp: group_ok_def)
  then show ?thesis using that wf ne ids v by simp
qed

lemma mil_compile_defined: "good_group g gr \<Longrightarrow> \<exists>p. mil_compile_group E ac g gr d = Inr p"
proof -
  assume "good_group g gr"
  then obtain gs where "built g" "fits g" "validate_graph g = Inr []" "compute_groups g = Inr gs" "gr \<in> set gs"
    "\<forall>i \<in> set (node_ids gr). node_emittable g (nodes g ! i)" "distinct (n_inputs (nodes g ! hd (node_ids gr)))"
    by (auto simp: good_group_def)
  from mil_group_program_ok [OF this, of E] have "is_ok (mil_group_program E g gr)"
    by (elim exE conjE) simp
  then show ?thesis by (auto simp: mil_compile_group_def is_ok_iff)
qed

interpretation mil: compiler_backend "mil_backend E rt" inv for E rt inv
proof
  show "\<exists>p s'. be_compile_group (mil_backend E rt) s g gr d = Inr (p, s') \<and> inv s'"
    if g: "good_group g gr" and s: "inv s" for s g gr d
  proof -
    obtain p where "mil_compile_group E (ane_compile rt) g gr d = Inr p" using mil_compile_defined [OF g] by blast
    then show ?thesis using s by (simp add: mil_backend_def)
  qed
qed (simp add: mil_backend_def)

lemma first_node_ok: "good_group g gr \<Longrightarrow> first_node g gr = Inr (nodes g ! hd (node_ids gr))"
  by (erule good_group_nodes) (simp add: first_node_def node_ok hd_conv_nth)

text \<open>The files a compilation leaves behind are laid out as the emitter assumes.\<close>

definition files_laid_out :: "ane_runtime \<Rightarrow> bool" where
  "files_laid_out rt \<longleftrightarrow> (\<forall>dir h. first_hwx_file rt dir = Some h \<and> valid_hwx h \<longrightarrow> hwx_laid_out h)"

lemma patched_nonempty: "patched_from t cfg r \<Longrightarrow> r \<noteq> []"
  by (auto simp: patched_from_def Let_def valid_hwx_def hwx_offsets)

lemma hwx_warm_defined:
  assumes "emitter_ok em" "gr_inputs gr \<noteq> []"
  shows "\<exists>p. hwx_warm rt em n sh gr d = Inr p"
proof (cases "can_emit em (channels sh) (seq sh) (n_op n)")
  case True
  from emit_ok [OF assms(1) this] obtain r where "emit em (channels sh) (seq sh) (n_op n) = Inr r" by metis
  then show ?thesis using True assms(2) by (simp add: hwx_warm_def Let_def)
qed (simp add: hwx_warm_def Let_def)

lemma hwx_compile_defined:
  assumes "files_laid_out rt" "good_group g gr" "emitter_ok em"
  shows "\<exists>p em'. hwx_compile_group E rt em g gr d = Inr (p, em') \<and> emitter_ok em' \<and> emitter_le em em'"
proof -
  let ?n = "nodes g ! hd (node_ids gr)"
  from assms(2) have gn: "graph_wf g" "gr_inputs gr \<noteq> []" "node_in g ?n" by (auto elim!: good_group_nodes)
  obtain w where w: "hwx_warm rt em ?n (shape_of g (n_output ?n)) gr d = Inr w"
    using hwx_warm_defined [OF assms(3) gn(2)] by blast
  obtain p where p: "mil_compile_group E (ane_compile rt) g gr d = Inr p" using mil_compile_defined [OF assms(2)] by blast
  have cap: "emitter_ok (snd (capture_from_model_dir (first_hwx_file rt) dir c s op em))" for dir c s op
    using assms(1,3) by (intro capture_ok) (auto simp: files_laid_out_def)
  show ?thesis
    using w p cap assms(3) capture_le first_node_ok [OF assms(2)] node_inD(8) [OF gn(3)]
    by (cases w; cases p) (auto simp: hwx_compile_group_def shape_of_def)
qed

lemma hwx_owns_defined: "good_group g gr \<Longrightarrow> \<exists>b. hwx_owns g gr = Inr b"
  by (auto simp: hwx_owns_def first_node_ok)

text \<open>\<open>HwxBackend\<close> meets the contract wherever compilations leave laid-out files.\<close>

lemma hwx_contract: "files_laid_out rt \<Longrightarrow> compiler_backend (hwx_backend E rt) emitter_ok"
  by unfold_locales (use hwx_owns_defined hwx_compile_defined in \<open>fastforce simp: hwx_backend_def\<close>)+

end
