(* ===== verification/EspressoBuilder.thy ===== *)
theory EspressoBuilder
  imports Prelude
begin

text \<open>
  The writer of \<open>.mlmodelc\<close> bundles (src/graph/espresso_builder.hpp, espresso_builder.cpp).
  \<open>std::map\<close> is a key-sorted association list, a file a byte list, floats are bit patterns; the
  rendering of \<open>%g\<close> is a parameter. Directory creation and file writes are the operating
  system's: \<open>write\<close> is the list of file operations it attempts, up to the first that fails.
\<close>

record EspressoShape =
  sh_n :: int
  sh_h :: int
  sh_w :: int
  sh_k :: int

record IOTensor =
  io_name :: string
  io_shape :: "int list"

record EspressoBuilder =
  layer_jsons :: "string list"
  esp_shapes :: "(string \<times> EspressoShape) list"
  esp_weights :: "u32 list"
  esp_inputs :: "IOTensor list"
  esp_outputs :: "IOTensor list"

definition empty_builder :: EspressoBuilder where
  "empty_builder = \<lparr>layer_jsons = [], esp_shapes = [], esp_weights = [], esp_inputs = [], esp_outputs = []\<rparr>"

section \<open>JSON helpers\<close>

definition dquote :: string where
  "dquote = [CHR 0x22]"

definition jstr :: "string \<Rightarrow> string" where
  "jstr s = dquote @ s @ dquote"

definition jkv_str :: "string \<Rightarrow> string \<Rightarrow> string" where
  "jkv_str k v = jstr k @ '':'' @ jstr v"

definition jkv_int :: "string \<Rightarrow> int \<Rightarrow> string" where
  "jkv_int k v = jstr k @ '':'' @ to_string v"

definition jkv_float :: "(u32 \<Rightarrow> string) \<Rightarrow> string \<Rightarrow> u32 \<Rightarrow> string" where
  "jkv_float fmt_g k v = jstr k @ '':'' @ fmt_g v"

definition jkv_bool :: "string \<Rightarrow> bool \<Rightarrow> string" where
  "jkv_bool k v = jstr k @ '':'' @ (if v then ''true'' else ''false'')"

text \<open>The loops that separate elements by commas.\<close>

fun comma_sep :: "string list \<Rightarrow> string" where
  "comma_sep [] = []"
| "comma_sep [x] = x"
| "comma_sep (x # y # xs) = x @ '','' @ comma_sep (y # xs)"

section \<open>Layers\<close>

definition layer_tail :: "bool \<Rightarrow> string" where
  "layer_tail is_output = jstr ''weights'' @ '':{}''
     @ (if is_output then '','' @ jstr ''attributes'' @ '':{'' @ jkv_int ''is_output'' 1 @ ''}'' else []) @ ''}''"

definition push_layer :: "string \<Rightarrow> EspressoBuilder \<Rightarrow> EspressoBuilder" where
  "push_layer j b = b\<lparr>layer_jsons := layer_jsons b @ [j]\<rparr>"

definition nonzero :: "u32 \<Rightarrow> bool" where
  "nonzero v \<longleftrightarrow> take_bit 31 v \<noteq> 0"

definition add_activation ::
  "(u32 \<Rightarrow> string) \<Rightarrow> string \<Rightarrow> string \<Rightarrow> string \<Rightarrow> int \<Rightarrow> u32 \<Rightarrow> u32 \<Rightarrow> bool \<Rightarrow> EspressoBuilder \<Rightarrow> EspressoBuilder" where
  "add_activation fmt_g name bottom top_name mode alpha beta is_output =
     push_layer (''{'' @ jkv_str ''type'' ''activation'' @ '','' @ jkv_int ''mode'' mode @ '',''
       @ jkv_str ''name'' name @ '','' @ jkv_str ''bottom'' bottom @ '','' @ jkv_str ''top'' top_name @ '',''
       @ (if nonzero alpha then jkv_float fmt_g ''alpha'' alpha @ '','' else [])
       @ (if nonzero beta then jkv_float fmt_g ''beta'' beta @ '','' else [])
       @ layer_tail is_output)"

definition add_inner_product ::
  "string \<Rightarrow> string \<Rightarrow> string \<Rightarrow> int \<Rightarrow> int \<Rightarrow> int \<Rightarrow> bool \<Rightarrow> bool \<Rightarrow> bool \<Rightarrow> EspressoBuilder \<Rightarrow> EspressoBuilder" where
  "add_inner_product name bottom top_name nB nC blob_weights has_biases has_relu is_output =
     push_layer (''{'' @ jkv_str ''type'' ''inner_product'' @ '','' @ jkv_str ''name'' name @ '',''
       @ jkv_str ''debug_info'' name @ '','' @ jkv_str ''bottom'' bottom @ '','' @ jkv_str ''top'' top_name @ '',''
       @ jkv_int ''nB'' nB @ '','' @ jkv_int ''nC'' nC @ '',''
       @ jkv_int ''has_biases'' (if has_biases then 1 else 0) @ '',''
       @ jkv_int ''blob_weights'' blob_weights @ '',''
       @ (if has_biases then jkv_int ''blob_biases'' 1 @ '','' else [])
       @ jkv_int ''has_relu'' (if has_relu then 1 else 0) @ '',''
       @ jkv_int ''has_tanh'' 0 @ '','' @ jkv_int ''has_prelu'' 0 @ '',''
       @ layer_tail is_output)"

definition add_softmax :: "string \<Rightarrow> string \<Rightarrow> string \<Rightarrow> bool \<Rightarrow> EspressoBuilder \<Rightarrow> EspressoBuilder" where
  "add_softmax name bottom top_name is_output =
     push_layer (''{'' @ jkv_str ''type'' ''softmax'' @ '','' @ jkv_str ''name'' name @ '',''
       @ jkv_str ''bottom'' bottom @ '','' @ jkv_str ''top'' top_name @ '','' @ layer_tail is_output)"

definition add_l2_normalize ::
  "(u32 \<Rightarrow> string) \<Rightarrow> string \<Rightarrow> string \<Rightarrow> string \<Rightarrow> int \<Rightarrow> u32 \<Rightarrow> bool \<Rightarrow> EspressoBuilder \<Rightarrow> EspressoBuilder" where
  "add_l2_normalize fmt_g name bottom top_name axis eps is_output =
     push_layer (''{'' @ jkv_str ''type'' ''l2_normalize'' @ '','' @ jkv_str ''name'' name @ '',''
       @ jkv_str ''debug_info'' name @ '','' @ jkv_str ''bottom'' bottom @ '','' @ jkv_str ''top'' top_name @ '',''
       @ jkv_int ''normalization_mode'' 1 @ '','' @ jkv_int ''axis'' axis @ '',''
       @ jkv_float fmt_g ''eps'' eps @ '','' @ layer_tail is_output)"

definition add_batchnorm :: "string \<Rightarrow> string \<Rightarrow> string \<Rightarrow> int \<Rightarrow> bool \<Rightarrow> EspressoBuilder \<Rightarrow> EspressoBuilder" where
  "add_batchnorm name bottom top_name C is_output =
     push_layer (''{'' @ jkv_str ''type'' ''batchnorm'' @ '','' @ jkv_str ''name'' name @ '',''
       @ jkv_str ''debug_info'' name @ '','' @ jkv_str ''bottom'' bottom @ '','' @ jkv_str ''top'' top_name @ '',''
       @ jkv_int ''blob_batchnorm_params'' 1 @ '','' @ jkv_int ''C'' C @ '','' @ layer_tail is_output)"

section \<open>Shapes, weights, metadata\<close>

text \<open>Assignment through \<open>operator[]\<close> of \<open>std::map\<close>.\<close>

fun map_put :: "string \<Rightarrow> 'v \<Rightarrow> (string \<times> 'v) list \<Rightarrow> (string \<times> 'v) list" where
  "map_put k v [] = [(k, v)]"
| "map_put k v ((k', v') # kvs) =
     (if k < k' then (k, v) # (k', v') # kvs else if k = k' then (k, v) # kvs else (k', v') # map_put k v kvs)"

definition add_shape :: "string \<Rightarrow> EspressoShape \<Rightarrow> EspressoBuilder \<Rightarrow> EspressoBuilder" where
  "add_shape name s b = b\<lparr>esp_shapes := map_put name s (esp_shapes b)\<rparr>"

definition mk_esp_shape :: "int \<Rightarrow> int \<Rightarrow> int \<Rightarrow> int \<Rightarrow> EspressoShape" where
  "mk_esp_shape n h w k = \<lparr>sh_n = n, sh_h = h, sh_w = w, sh_k = k\<rparr>"

definition add_weight_blob :: "u32 list \<Rightarrow> nat \<Rightarrow> EspressoBuilder \<Rightarrow> EspressoBuilder res" where
  "add_weight_blob data n b =
     (if n \<le> length data then Inr (b\<lparr>esp_weights := esp_weights b @ take n data\<rparr>)
      else Inl (Undefined_behaviour ''read out of bounds''))"

definition set_inputs :: "IOTensor list \<Rightarrow> EspressoBuilder \<Rightarrow> EspressoBuilder" where
  "set_inputs ts b = b\<lparr>esp_inputs := ts\<rparr>"

definition set_outputs :: "IOTensor list \<Rightarrow> EspressoBuilder \<Rightarrow> EspressoBuilder" where
  "set_outputs ts b = b\<lparr>esp_outputs := ts\<rparr>"

section \<open>Files\<close>

definition net_text :: "EspressoBuilder \<Rightarrow> string" where
  "net_text b = ''{'' @ jkv_str ''storage'' ''model.espresso.weights'' @ '',''
     @ jstr ''analyses'' @ '':{},'' @ jstr ''properties'' @ '':{},''
     @ jkv_int ''format_version'' 200 @ '','' @ jstr ''metadata_in_weights'' @ '':[],''
     @ jstr ''layers'' @ '':['' @ comma_sep (layer_jsons b) @ '']}''"

definition shape_entry :: "string \<times> EspressoShape \<Rightarrow> string" where
  "shape_entry kv = (let sh = snd kv in jstr (fst kv) @ '':{'' @ jkv_int ''n'' (sh_n sh) @ '','' @ jkv_int ''h'' (sh_h sh) @ '',''
     @ jkv_int ''w'' (sh_w sh) @ '','' @ jkv_int ''k'' (sh_k sh) @ ''}'')"

definition shape_text :: "EspressoBuilder \<Rightarrow> string" where
  "shape_text b = ''{'' @ jstr ''layer_shapes'' @ '':{'' @ comma_sep (map shape_entry (esp_shapes b)) @ ''}}''"

definition float_bytes :: "u32 list \<Rightarrow> byte list" where
  "float_bytes ws = concat (map (\<lambda>w. le_bytes 4 (unat w)) ws)"

definition weights_file :: "EspressoBuilder \<Rightarrow> byte list" where
  "weights_file b =
     (if esp_weights b = [] then replicate 8 0
      else let weight_bytes = to_u32 (length (esp_weights b) * 4);
               header = replicate 0x40 0;
               header = put_bytes 0x00 (le_bytes 4 2) header;
               header = put_bytes 0x10 (le_bytes 4 0x18) header;
               header = put_bytes 0x18 (le_bytes 4 1) header;
               header = put_bytes 0x20 (le_bytes 4 weight_bytes) header
           in header @ take weight_bytes (float_bytes (esp_weights b)))"

definition make_schema :: "IOTensor \<Rightarrow> string" where
  "make_schema t = ''{'' @ jkv_str ''name'' (io_name t) @ '','' @ jkv_str ''type'' ''MultiArray'' @ '',''
     @ jstr ''shape'' @ '':['' @ comma_sep (map to_string (io_shape t)) @ ''],'' @ jkv_str ''dataType'' ''Float16'' @ ''}''"

definition metadata_text :: "EspressoBuilder \<Rightarrow> string" where
  "metadata_text b = ''{'' @ jkv_int ''specificationVersion'' 4 @ '','' @ jkv_bool ''isUpdatable'' False @ '',''
     @ jstr ''modelType'' @ '':{'' @ jkv_str ''name'' ''MLModelType_neuralNetwork'' @ ''},''
     @ jkv_str ''computePrecision'' ''Float16'' @ '',''
     @ jstr ''inputSchema'' @ '':['' @ comma_sep (map make_schema (esp_inputs b)) @ ''],''
     @ jstr ''outputSchema'' @ '':['' @ comma_sep (map make_schema (esp_outputs b)) @ '']}''"

datatype fs_op = Make_dir string | Write_file string "byte list"

definition ascii_bytes :: "string \<Rightarrow> byte list" where
  "ascii_bytes s = map of_char s"

definition write_ops :: "EspressoBuilder \<Rightarrow> string \<Rightarrow> fs_op list" where
  "write_ops b dir = Make_dir dir
     # concat (map (\<lambda>sub. [Make_dir (dir @ ''/'' @ sub), Write_file (dir @ ''/'' @ sub @ ''/coremldata.bin'') (replicate 64 0)])
         [''model'', ''analytics'', ''neural_network_optionals''])
     @ [Write_file (dir @ ''/model.espresso.net'') (ascii_bytes (net_text b)),
        Write_file (dir @ ''/model.espresso.shape'') (ascii_bytes (shape_text b)),
        Write_file (dir @ ''/model.espresso.weights'') (weights_file b),
        Write_file (dir @ ''/metadata.json'') (ascii_bytes (metadata_text b)),
        Write_file (dir @ ''/coremldata.bin'') [0x08, 0x04]]"

text \<open>Every \<open>return false\<close> of \<open>write\<close>: the operations run in order until one fails.\<close>

fun run_fs :: "(fs_op \<Rightarrow> bool) \<Rightarrow> fs_op list \<Rightarrow> bool \<times> fs_op list" where
  "run_fs ok [] = (True, [])"
| "run_fs ok (f # fs) = (if ok f then let (b, done) = run_fs ok fs in (b, f # done) else (False, []))"

definition esp_write :: "(fs_op \<Rightarrow> bool) \<Rightarrow> EspressoBuilder \<Rightarrow> string \<Rightarrow> bool \<times> fs_op list" where
  "esp_write ok b dir = run_fs ok (write_ops b dir)"

section \<open>Factories\<close>

definition activation_builder ::
  "(u32 \<Rightarrow> string) \<Rightarrow> string \<Rightarrow> string \<Rightarrow> int \<Rightarrow> int \<Rightarrow> int \<Rightarrow> u32 \<Rightarrow> u32 \<Rightarrow> EspressoBuilder" where
  "activation_builder fmt_g input_name output_name c s mode alpha beta =
     (let b = add_activation fmt_g ''act'' input_name output_name mode alpha beta True empty_builder;
          b = add_shape input_name (mk_esp_shape 1 1 s c) b;
          b = add_shape output_name (mk_esp_shape 1 1 s c) b;
          b = set_inputs [\<lparr>io_name = input_name, io_shape = [c, 1, s]\<rparr>] b
      in set_outputs [\<lparr>io_name = output_name, io_shape = [c, 1, s]\<rparr>] b)"

definition inner_product :: "int \<Rightarrow> int \<Rightarrow> u32 list option \<Rightarrow> bool \<Rightarrow> bool \<Rightarrow> int \<Rightarrow> EspressoBuilder res" where
  "inner_product in_ch out_ch weights has_bias fused_relu s =
     (let blob_weights = (if has_bias then 3 else 1);
          b = add_inner_product ''fc'' ''input'' ''output'' in_ch out_ch blob_weights has_bias fused_relu True empty_builder;
          b = add_shape ''input'' (mk_esp_shape 1 1 s in_ch) b;
          b = add_shape ''output'' (mk_esp_shape 1 1 s out_ch) b;
          b = set_inputs [\<lparr>io_name = ''input'', io_shape = [in_ch, 1, s]\<rparr>] b;
          b = set_outputs [\<lparr>io_name = ''output'', io_shape = [out_ch, 1, s]\<rparr>] b
      in case weights of
           None \<Rightarrow> Inr b
         | Some ws \<Rightarrow> add_weight_blob ws (nat in_ch * nat out_ch) b)"


section \<open>The documents\<close>

text \<open>The documents as values, with their rendering: what the string concatenations
  above are to produce.\<close>

datatype json = JStr string | JInt int | JNum string | JBool bool | JArr "json list" | JObj "(string \<times> json) list"

primrec json_text :: "json \<Rightarrow> string" where
  "json_text (JStr s) = jstr s"
| "json_text (JInt i) = to_string i"
| "json_text (JNum s) = s"
| "json_text (JBool b) = (if b then ''true'' else ''false'')"
| "json_text (JArr js) = ''['' @ comma_sep (map json_text js) @ '']''"
| "json_text (JObj kvs) = ''{'' @ comma_sep (map (\<lambda>kv. jstr (fst kv) @ '':'' @ snd kv) (map (map_prod id json_text) kvs)) @ ''}''"

datatype layer =
    Activation string string string int u32 u32 bool
  | Inner_product string string string int int int bool bool bool
  | Softmax string string string bool
  | L2_normalize string string string int u32 bool
  | Batchnorm string string string int bool

fun add_layer :: "(u32 \<Rightarrow> string) \<Rightarrow> layer \<Rightarrow> EspressoBuilder \<Rightarrow> EspressoBuilder" where
  "add_layer fmt_g (Activation n b t mode alpha beta out) = add_activation fmt_g n b t mode alpha beta out"
| "add_layer fmt_g (Inner_product n b t nB nC blob biases relu out) = add_inner_product n b t nB nC blob biases relu out"
| "add_layer fmt_g (Softmax n b t out) = add_softmax n b t out"
| "add_layer fmt_g (L2_normalize n b t axis eps out) = add_l2_normalize fmt_g n b t axis eps out"
| "add_layer fmt_g (Batchnorm n b t C out) = add_batchnorm n b t C out"

definition tail_doc :: "bool \<Rightarrow> (string \<times> json) list" where
  "tail_doc out = (''weights'', JObj []) # (if out then [(''attributes'', JObj [(''is_output'', JInt 1)])] else [])"

definition wires :: "string \<Rightarrow> string \<Rightarrow> string \<Rightarrow> bool \<Rightarrow> (string \<times> json) list" where
  "wires n b t dbg = (''name'', JStr n) # (if dbg then [(''debug_info'', JStr n)] else [])
     @ [(''bottom'', JStr b), (''top'', JStr t)]"

fun layer_doc :: "(u32 \<Rightarrow> string) \<Rightarrow> layer \<Rightarrow> json" where
  "layer_doc fmt_g (Activation n b t mode alpha beta out) =
     JObj ([(''type'', JStr ''activation''), (''mode'', JInt mode)] @ wires n b t False
       @ (if nonzero alpha then [(''alpha'', JNum (fmt_g alpha))] else [])
       @ (if nonzero beta then [(''beta'', JNum (fmt_g beta))] else []) @ tail_doc out)"
| "layer_doc fmt_g (Inner_product n b t nB nC blob biases relu out) =
     JObj ((''type'', JStr ''inner_product'') # wires n b t True
       @ [(''nB'', JInt nB), (''nC'', JInt nC), (''has_biases'', JInt (if biases then 1 else 0)), (''blob_weights'', JInt blob)]
       @ (if biases then [(''blob_biases'', JInt 1)] else [])
       @ [(''has_relu'', JInt (if relu then 1 else 0)), (''has_tanh'', JInt 0), (''has_prelu'', JInt 0)] @ tail_doc out)"
| "layer_doc fmt_g (Softmax n b t out) = JObj ((''type'', JStr ''softmax'') # wires n b t False @ tail_doc out)"
| "layer_doc fmt_g (L2_normalize n b t axis eps out) =
     JObj ((''type'', JStr ''l2_normalize'') # wires n b t True
       @ [(''normalization_mode'', JInt 1), (''axis'', JInt axis), (''eps'', JNum (fmt_g eps))] @ tail_doc out)"
| "layer_doc fmt_g (Batchnorm n b t C out) =
     JObj ((''type'', JStr ''batchnorm'') # wires n b t True
       @ [(''blob_batchnorm_params'', JInt 1), (''C'', JInt C)] @ tail_doc out)"

definition net_doc :: "(u32 \<Rightarrow> string) \<Rightarrow> layer list \<Rightarrow> json" where
  "net_doc fmt_g ls = JObj [(''storage'', JStr ''model.espresso.weights''), (''analyses'', JObj []), (''properties'', JObj []),
     (''format_version'', JInt 200), (''metadata_in_weights'', JArr []), (''layers'', JArr (map (layer_doc fmt_g) ls))]"

definition shape_doc :: "(string \<times> EspressoShape) list \<Rightarrow> json" where
  "shape_doc shs = JObj [(''layer_shapes'', JObj (map (\<lambda>kv. (fst kv, JObj [(''n'', JInt (sh_n (snd kv))), (''h'', JInt (sh_h (snd kv))),
     (''w'', JInt (sh_w (snd kv))), (''k'', JInt (sh_k (snd kv)))])) shs))]"

definition io_doc :: "IOTensor \<Rightarrow> json" where
  "io_doc t = JObj [(''name'', JStr (io_name t)), (''type'', JStr ''MultiArray''), (''shape'', JArr (map JInt (io_shape t))),
     (''dataType'', JStr ''Float16'')]"

definition metadata_doc :: "IOTensor list \<Rightarrow> IOTensor list \<Rightarrow> json" where
  "metadata_doc ins outs = JObj [(''specificationVersion'', JInt 4), (''isUpdatable'', JBool False),
     (''modelType'', JObj [(''name'', JStr ''MLModelType_neuralNetwork'')]), (''computePrecision'', JStr ''Float16''),
     (''inputSchema'', JArr (map io_doc ins)), (''outputSchema'', JArr (map io_doc outs))]"

lemmas jkv_defs = jkv_str_def jkv_int_def jkv_float_def jkv_bool_def

lemma layer_text:
  "layer_jsons (add_layer fmt_g l b) = layer_jsons b @ [json_text (layer_doc fmt_g l)]
   \<and> esp_shapes (add_layer fmt_g l b) = esp_shapes b \<and> esp_weights (add_layer fmt_g l b) = esp_weights b
   \<and> esp_inputs (add_layer fmt_g l b) = esp_inputs b \<and> esp_outputs (add_layer fmt_g l b) = esp_outputs b"
  by (cases l)
    (auto simp: add_activation_def add_inner_product_def add_softmax_def add_l2_normalize_def add_batchnorm_def
      push_layer_def layer_tail_def tail_doc_def wires_def jkv_defs)

lemma layers_text: "layer_jsons (fold (add_layer fmt_g) ls b) = layer_jsons b @ map (json_text \<circ> layer_doc fmt_g) ls"
  by (induction ls arbitrary: b) (auto simp: layer_text)

lemma io_text: "make_schema t = json_text (io_doc t)"
  by (simp add: make_schema_def io_doc_def jkv_defs comp_def)

lemma metadata_text_doc: "metadata_text b = json_text (metadata_doc (esp_inputs b) (esp_outputs b))"
proof -
  have "map make_schema ts = map json_text (map io_doc ts)" for ts by (simp add: io_text)
  then show ?thesis by (simp add: metadata_text_def metadata_doc_def jkv_defs del: map_map)
qed

lemma shape_text_doc: "shape_text b = json_text (shape_doc (esp_shapes b))"
proof -
  have "(\<lambda>kv. jstr (fst kv) @ '':'' @ snd kv) \<circ> map_prod id json_text \<circ>
      (\<lambda>kv. (fst kv, JObj [(''n'', JInt (sh_n (snd kv))), (''h'', JInt (sh_h (snd kv))), (''w'', JInt (sh_w (snd kv))), (''k'', JInt (sh_k (snd kv)))]))
    = shape_entry"
    by (simp add: fun_eq_iff shape_entry_def jkv_defs Let_def)
  then show ?thesis by (simp add: shape_text_def shape_doc_def comp_assoc [symmetric])
qed


lemma map_put_keys: "set (map fst (map_put k v kvs)) = insert k (set (map fst kvs))"
  by (induction k v kvs rule: map_put.induct) (simp_all add: insert_commute)

lemma map_put_sorted: "sorted_wrt (<) (map fst kvs) \<Longrightarrow> sorted_wrt (<) (map fst (map_put k v kvs))"
proof (induction kvs)
  case (Cons kv kvs)
  then show ?case using map_put_keys [of k v kvs] by (cases kv) (auto simp del: set_map simp: not_less_iff_gr_or_eq)
qed simp

lemma map_put_lookup: "sorted_wrt (<) (map fst kvs) \<Longrightarrow> map_of (map_put k v kvs) = (map_of kvs)(k \<mapsto> v)"
proof (induction kvs)
  case (Cons kv kvs)
  have "map_of kvs k = None" if "k < fst kv" 
  proof (rule ccontr)
    assume "map_of kvs k \<noteq> None"
    then have "k \<in> fst ` set kvs" by (simp add: map_of_eq_None_iff)
    then show False using Cons.prems that by auto
  qed
  with Cons show ?case by (cases kv) (auto simp: fun_eq_iff)
qed simp

lemma add_shapes_map:
  "sorted_wrt (<) (map fst (esp_shapes b)) \<Longrightarrow>
     (let b' = fold (\<lambda>kv. add_shape (fst kv) (snd kv)) shs b in
      sorted_wrt (<) (map fst (esp_shapes b')) \<and> map_of (esp_shapes b') = map_of (esp_shapes b) ++ map_of (rev shs)
      \<and> layer_jsons b' = layer_jsons b)"
proof (induction shs arbitrary: b)
  case (Cons kv shs)
  have "sorted_wrt (<) (map fst (esp_shapes (add_shape (fst kv) (snd kv) b)))"
    using Cons.prems by (simp add: add_shape_def map_put_sorted)
  from Cons.IH [OF this] show ?case
    using Cons.prems by (cases kv) (auto simp: Let_def add_shape_def map_put_lookup map_add_def fun_eq_iff split: option.splits)
qed (simp add: Let_def)


section \<open>The weights file\<close>

lemma float_bytes_simps: "float_bytes [] = []" "float_bytes (w # ws) = le_bytes 4 (unat w) @ float_bytes ws"
  by (simp_all add: float_bytes_def)

lemma length_float_bytes [simp]: "length (float_bytes ws) = 4 * length ws"
  by (induction ws) (simp_all add: float_bytes_simps)

lemma weights_file_layout:
  assumes "esp_weights b \<noteq> []" "4 * length (esp_weights b) < 2 ^ 32"
  shows "\<exists>header. length header = 64 \<and> weights_file b = header @ float_bytes (esp_weights b)
    \<and> get_bytes 0 4 header = le_bytes 4 2 \<and> get_bytes 0x18 4 header = le_bytes 4 1
    \<and> le_nat (get_bytes 0x20 4 header) = 4 * length (esp_weights b)"
proof -
  let ?n = "4 * length (esp_weights b)"
  have n: "to_u32 (length (esp_weights b) * 4) = ?n" using assms(2) by (simp add: to_u32_def mult.commute)
  let ?h = "put_bytes 0x20 (le_bytes 4 ?n) (put_bytes 0x18 (le_bytes 4 1) (put_bytes 0x10 (le_bytes 4 0x18)
    (put_bytes 0 (le_bytes 4 2) (replicate 64 0))))"
  have "weights_file b = ?h @ float_bytes (esp_weights b)"
    using assms(1) by (simp add: weights_file_def n Let_def)
  moreover have "le_nat (get_bytes 0x20 4 ?h) = ?n" using assms(2) by (simp add: get_put_bytes le_nat_le_bytes)
  ultimately show ?thesis by (intro exI [of _ ?h]) (simp add: get_put_bytes get_put_disjoint)
qed

end
