(* ===== verification/EspressoBackend.thy ===== *)
theory EspressoBackend
  imports CompilerBackend EspressoBuilder
begin

text \<open>
  \<open>EspressoBackend\<close> (src/graph/espresso_backend.cpp): a single \<open>MATMUL\<close> node as a \<open>.mlmodelc\<close>
  bundle with binary32 weights. A loop that would never end is undefined behaviour in C++; the
  normalisation loop of the binary16 conversion is a partial function, shown to end on
  every argument the conversion passes. \<open>half_units\<close> and \<open>float_units\<close> give the values of bit
  patterns as integers, in multiples of the smallest subnormal of their format
  (\<open>2 ^ -24\<close> and \<open>2 ^ -149\<close>).
\<close>

unbundle bit_operations_syntax

section \<open>Conversion to binary32\<close>

partial_function (option) normalise :: "u32 \<Rightarrow> u32 \<Rightarrow> (u32 \<times> u32) option" where
  "normalise mantissa e =
     (if mantissa AND 0x400 = 0 then normalise (push_bit 1 mantissa) (e - 1) else Some (mantissa, e))"

definition esp_fp16_to_fp32 :: "16 word \<Rightarrow> u32 res" where
  "esp_fp16_to_fp32 h =
     (let sign = drop_bit 15 (ucast h) AND 0x1;
          e = drop_bit 10 (ucast h) AND 0x1F;
          mantissa = ucast h AND 0x3FF
      in if e = 0 then
           if mantissa = 0 then Inr (push_bit 31 sign)
           else case normalise mantissa 1 of
               None \<Rightarrow> Inl (Undefined_behaviour ''endless loop'')
             | Some (mantissa, e) \<Rightarrow>
                 Inr (push_bit 31 sign OR push_bit 23 (e + 127 - 15) OR push_bit 13 (mantissa AND 0x3FF))
         else if e = 31 then Inr (push_bit 31 sign OR 0x7F800000 OR push_bit 13 mantissa)
         else Inr (push_bit 31 sign OR push_bit 23 (e + 127 - 15) OR push_bit 13 mantissa))"

text \<open>The halves are converted in the order of the two loops; each lands at \<open>c * IC + r\<close>.\<close>

definition transpose_fp16_to_fp32 :: "byte list \<Rightarrow> int \<Rightarrow> int \<Rightarrow> u32 list res" where
  "transpose_fp16_to_fp32 src IC OC =
     (let rows = nat IC; cols = nat OC; s = halves src in
      if length s < rows * cols then Inl (Undefined_behaviour ''read out of bounds'')
      else bind_res (map_res esp_fp16_to_fp32 (take (rows * cols) s)) (\<lambda>f.
        Inr (transpose_loop (\<lambda>i. f ! i) rows cols (replicate (cols * rows) 0))))"

section \<open>The backend\<close>

definition espresso_owns :: "ane_runtime \<Rightarrow> AneGraph \<Rightarrow> FusionGroup \<Rightarrow> bool res" where
  "espresso_owns rt g gr =
     (if \<not> path_b_available rt then Inr False
      else if length (node_ids gr) \<noteq> 1 then Inr False
      else bind_res (first_node g gr) (\<lambda>n.
        if n_op n \<noteq> LIBANE_OP_MATMUL then Inr False
        else bind_res (tensor g (n_output n)) (\<lambda>ot. Inr (seq (t_shape ot) = 16))))"

definition fs_result :: "ane_runtime \<Rightarrow> fs_op \<Rightarrow> bool" where
  "fs_result rt f = (case f of Make_dir d \<Rightarrow> make_dir rt d | Write_file p d \<Rightarrow> write_file rt p d)"

definition espresso_compile_group ::
  "ane_runtime \<Rightarrow> AneGraph \<Rightarrow> FusionGroup \<Rightarrow> string \<Rightarrow> AneProgram option res" where
  "espresso_compile_group rt g gr debug_name =
     bind_res (first_node g gr) (\<lambda>n.
     if n_inputs n = [] then Inl (Undefined_behaviour ''node.inputs[0]'')
     else bind_res (tensor g (n_inputs n ! 0)) (\<lambda>it. bind_res (tensor g (n_output n)) (\<lambda>ot.
       let IC = channels (t_shape it); OC = channels (t_shape ot) in
       bind_res (if n_weights n \<noteq> [] then bind_res (transpose_fp16_to_fp32 (n_weights n) IC OC) (\<lambda>w. Inr (Some w))
                 else Inr None) (\<lambda>weights.
       bind_res (inner_product IC OC weights False False 1) (\<lambda>builder. case make_temp_dir rt of
           None \<Rightarrow> Inr None
         | Some tmp \<Rightarrow>
             let bundle_dir = tmp @ ''.mlmodelc'' in
             if \<not> fst (esp_write (fs_result rt) builder bundle_dir) then Inr None
             else Inr (ane_load_mlmodelc rt bundle_dir IC 1 OC 1 debug_name))))))"

definition espresso_backend :: "ane_runtime \<Rightarrow> 's CompilerBackend" where
  "espresso_backend rt =
     \<lparr>be_owns = (\<lambda>s. espresso_owns rt),
      be_compile_group = (\<lambda>s g gr debug_name. bind_res (espresso_compile_group rt g gr debug_name) (\<lambda>p. Inr (p, s)))\<rparr>"

section \<open>The conversion is exact\<close>

definition half_sign :: "16 word \<Rightarrow> nat" where "half_sign h = unat h div 2 ^ 15"
definition half_exp :: "16 word \<Rightarrow> nat" where "half_exp h = unat h div 2 ^ 10 mod 32"
definition half_man :: "16 word \<Rightarrow> nat" where "half_man h = unat h mod 2 ^ 10"

definition half_units :: "16 word \<Rightarrow> int" where
  "half_units h = (if half_sign h = 0 then 1 else - 1)
     * (if half_exp h = 0 then int (half_man h) else int ((2 ^ 10 + half_man h) * 2 ^ (half_exp h - 1)))"

definition float_units :: "u32 \<Rightarrow> int" where
  "float_units f = (let s = unat f div 2 ^ 31; e = unat f div 2 ^ 23 mod 256; m = unat f mod 2 ^ 23 in
     (if s = 0 then 1 else - 1) * (if e = 0 then int m else int ((2 ^ 23 + m) * 2 ^ (e - 1))))"

lemma half_fields:
  "(drop_bit 15 (ucast h) AND 0x1 :: u32) = of_nat (half_sign h)"
  "(drop_bit 10 (ucast h) AND 0x1F :: u32) = of_nat (half_exp h)"
  "(ucast h AND 0x3FF :: u32) = of_nat (half_man h)"
  "half_sign h < 2" "half_exp h < 32" "half_man h < 1024"
proof -
  have h: "unat h < 2 ^ 16" using unsigned_less [of h, where ?'a = nat] by simp
  then show s: "half_sign h < 2" by (simp add: half_sign_def)
  show e: "half_exp h < 32" "half_man h < 1024" by (simp_all add: half_exp_def half_man_def)
  have u: "unat (ucast h :: u32) = unat h" using h by (simp add: unsigned_ucast_eq take_bit_nat_eq_self)
  have t: "take_bit 32 (unat x) = unat x" for x :: u32
    using unsigned_less [of x, where ?'a = nat] by (intro take_bit_nat_eq_self) simp
  have "unat (take_bit k (drop_bit n x)) = take_bit k (drop_bit n (unat x))" for k n and x :: u32
    unfolding unsigned_take_bit_eq unsigned_drop_bit_eq by (simp add: t)
  then have f: "unat (take_bit k (drop_bit n (ucast h)) :: u32) = unat h div 2 ^ n mod 2 ^ k" for k n
    by (simp only: u) (simp only: take_bit_eq_mod drop_bit_eq_div)
  have w: "x = of_nat k" if "unat x = k" for x :: u32 and k using that by auto
  have m1: "x AND 0x1 = take_bit 1 x" "x AND 0x1F = take_bit 5 x" "x AND 0x3FF = take_bit 10 x" for x :: u32
    by (simp_all add: take_bit_eq_mask mask_eq_exp_minus_1)
  show "(drop_bit 15 (ucast h) AND 0x1 :: u32) = of_nat (half_sign h)"
    unfolding m1 using s by (intro w, simp only: f) (simp add: half_sign_def)
  show "(drop_bit 10 (ucast h) AND 0x1F :: u32) = of_nat (half_exp h)"
    unfolding m1 by (intro w, simp only: f) (simp add: half_exp_def)
  show "(ucast h AND 0x3FF :: u32) = of_nat (half_man h)"
    unfolding m1 using f [of 10 0] by (intro w) (simp add: half_man_def)
qed

lemma bit_of_small: "k < 2 ^ n \<Longrightarrow> n \<le> j \<Longrightarrow> \<not> bit (of_nat k :: u32) j"
proof -
  assume k: "k < 2 ^ n" and j: "n \<le> j"
  then have "k < 2 ^ j" by (meson less_le_trans one_le_numeral power_increasing)
  then have "\<not> bit k j" by (simp add: bit_iff_odd)
  then show ?thesis by (simp only: bit_of_nat_iff simp_thms)
qed

lemma pack_float:
  assumes "s < 2" "e < 256" "m < 1024"
  shows "unat (push_bit 31 (of_nat s) OR push_bit 23 (of_nat e) OR push_bit 13 (of_nat m) :: u32)
    = s * 2 ^ 31 + e * 2 ^ 23 + m * 2 ^ 13"
proof -
  let ?s = "push_bit 31 (of_nat s) :: u32" and ?e = "push_bit 23 (of_nat e) :: u32" and ?m = "push_bit 13 (of_nat m) :: u32"
  have E: "\<not> bit (of_nat e :: u32) j" if "8 \<le> j" for j using bit_of_small [of e 8 j] assms(2) that by simp
  have M: "\<not> bit (of_nat m :: u32) j" if "10 \<le> j" for j using bit_of_small [of m 10 j] assms(3) that by simp
  have "?e + ?m = ?e OR ?m" by (rule disjunctive_add) (use M in \<open>auto simp: bit_simps\<close>)
  moreover have "?s + (?e OR ?m) = ?s OR (?e OR ?m)"
    by (rule disjunctive_add) (use E M in \<open>auto simp: bit_simps\<close>)
  ultimately have "?s OR ?e OR ?m = ?s + (?e + ?m)" by (simp add: or.assoc)
  also have "\<dots> = of_nat (s * 2 ^ 31 + (e * 2 ^ 23 + m * 2 ^ 13))" by (simp add: push_bit_eq_mult)
  finally have "?s OR ?e OR ?m = of_nat (s * 2 ^ 31 + e * 2 ^ 23 + m * 2 ^ 13)" by (simp add: add.assoc)
  moreover have "s * 2 ^ 31 + e * 2 ^ 23 + m * 2 ^ 13 < 2 ^ 32" using assms by simp
  then have "unat (of_nat (s * 2 ^ 31 + e * 2 ^ 23 + m * 2 ^ 13) :: u32) = s * 2 ^ 31 + e * 2 ^ 23 + m * 2 ^ 13"
    by (simp only: unat_of_nat) simp
  ultimately show ?thesis by (simp only:)
qed

lemma bit_ten: "m < 2048 \<Longrightarrow> (of_nat m AND 0x400 :: u32) = 0 \<longleftrightarrow> m < 1024"
proof -
  assume m: "m < 2048"
  have "(0x400 :: u32) = 2 ^ 10" by simp
  then have "(of_nat m AND 0x400 :: u32) = 0 \<longleftrightarrow> \<not> bit (of_nat m :: u32) 10"
    by (simp only: and_exp_eq_0_iff_not_bit)
  also have "\<dots> \<longleftrightarrow> \<not> bit m 10" by (simp add: bit_of_nat_iff)
  also have "\<dots> \<longleftrightarrow> even (m div 2 ^ 10)" by (simp add: bit_iff_odd)
  also have "\<dots> \<longleftrightarrow> m < 1024"
  proof (cases "m < 1024")
    case False
    then have "m div 2 ^ 10 = 1" using m by (simp add: div_nat_eqI)
    then show ?thesis using False by simp
  qed simp
  finally show ?thesis .
qed

lemma normalise_ends:
  assumes "0 < m" "m < 2048"
  shows "\<exists>k. 1024 \<le> m * 2 ^ k \<and> m * 2 ^ k < 2048 \<and> normalise (of_nat m) e = Some (of_nat (m * 2 ^ k), e - of_nat k)"
  using assms
proof (induction "2048 - m" arbitrary: m e rule: less_induct)
  case less
  show ?case
  proof (cases "m < 1024")
    case True
    then have "2048 - 2 * m < 2048 - m" "0 < 2 * m" "2 * m < 2048" using less.prems by simp_all
    from less.hyps [OF this, of "e - 1"] obtain k where k: "1024 \<le> 2 * m * 2 ^ k" "2 * m * 2 ^ k < 2048"
      "normalise (of_nat (2 * m)) (e - 1) = Some (of_nat (2 * m * 2 ^ k), e - 1 - of_nat k)" by blast
    have "push_bit 1 (of_nat m) = (of_nat (2 * m) :: u32)" by (simp add: push_bit_eq_mult)
    then have "normalise (of_nat m) e = Some (of_nat (2 * m * 2 ^ k), e - 1 - of_nat k)"
      using k(3) bit_ten [OF less.prems(2)] True by (subst normalise.simps) (simp only: simp_thms if_True)
    then show ?thesis using k(1,2) by (intro exI [of _ "Suc k"]) (simp add: algebra_simps)
  next
    case False
    then have "normalise (of_nat m) e = Some (of_nat m, e)"
      using bit_ten [OF less.prems(2)] by (subst normalise.simps) simp
    then show ?thesis using False less.prems by (intro exI [of _ 0]) simp
  qed
qed


lemma float_units_pack:
  assumes "s < 2" "e < 256" "m < 1024" "unat f = s * 2 ^ 31 + e * 2 ^ 23 + m * 2 ^ 13"
  shows "float_units f = (if s = 0 then 1 else - 1) * (if e = 0 then int (m * 2 ^ 13) else int ((2 ^ 10 + m) * 2 ^ (e + 12)))"
    "unat f div 2 ^ 31 = s"
proof -
  have m: "m * 2 ^ 13 < 2 ^ 23" using assms(3) by simp
  have d23: "unat f div 2 ^ 23 = s * 256 + e" and m23: "unat f mod 2 ^ 23 = m * 2 ^ 13"
  proof -
    have "unat f = m * 2 ^ 13 + (s * 256 + e) * 2 ^ 23" using assms(4) by simp
    then show "unat f div 2 ^ 23 = s * 256 + e" "unat f mod 2 ^ 23 = m * 2 ^ 13"
      using m by (simp_all only: div_mult_self1 mod_mult_self1) simp_all
  qed
  have "e * 2 ^ 23 + m * 2 ^ 13 < 2 ^ 31" using assms(2,3) by simp
  then show d31: "unat f div 2 ^ 31 = s" using assms(4) by (simp add: div_nat_eqI)
  have "unat f div 2 ^ 23 mod 256 = e" unfolding d23 using assms(2) by simp
  moreover have "(2 ^ 23 + m * 2 ^ 13) * 2 ^ (e - 1) = (2 ^ 10 + m) * 2 ^ (e + 12)" if "e \<noteq> 0"
  proof -
    have "(2 :: nat) ^ (e + 12) = 2 ^ 13 * 2 ^ (e - 1)" using that by (cases e) (simp_all add: power_add)
    then show ?thesis by (simp add: algebra_simps)
  qed
  ultimately show "float_units f = (if s = 0 then 1 else - 1) * (if e = 0 then int (m * 2 ^ 13) else int ((2 ^ 10 + m) * 2 ^ (e + 12)))"
    using d31 m23 by (simp only: float_units_def Let_def) simp
qed

text \<open>The fields of a normalised subnormal.\<close>

lemma normalised_fields:
  assumes "1024 \<le> m * 2 ^ k" "m * 2 ^ k < 2048" "0 < m"
  shows "k \<le> 10" "(1 - of_nat k + 127 - 15 :: u32) = of_nat (113 - k)"
    "(of_nat (m * 2 ^ k) AND 0x3FF :: u32) = of_nat (m * 2 ^ k - 1024)"
    "(2 ^ 10 + (m * 2 ^ k - 1024)) * 2 ^ (113 - k + 12) = 2 ^ 125 * m"
proof -
  have "2 ^ k \<le> m * 2 ^ k" using assms(3) by simp
  also have "\<dots> < 2 ^ 11" using assms(2) by simp
  finally have "2 ^ k < (2 :: nat) ^ 11" .
  then show k: "k \<le> 10" using power_less_imp_less_exp [of "2 :: nat" k 11] by simp
  show "(1 - of_nat k + 127 - 15 :: u32) = of_nat (113 - k)" using k by (simp add: of_nat_diff)
  have "take_bit 10 (m * 2 ^ k) = m * 2 ^ k - 1024"
    using assms(1,2) by (simp add: take_bit_eq_mod le_mod_geq)
  then show "(of_nat (m * 2 ^ k) AND 0x3FF :: u32) = of_nat (m * 2 ^ k - 1024)"
    by (metis mask_numerals(1) take_bit_eq_mask take_bit_of_nat)
  have "2 ^ 10 + (m * 2 ^ k - 1024) = m * 2 ^ k" using assms(1) by simp
  moreover have "(2 :: nat) ^ k * 2 ^ (113 - k + 12) = 2 ^ 125" using k by (simp flip: power_add)
  ultimately show "(2 ^ 10 + (m * 2 ^ k - 1024)) * 2 ^ (113 - k + 12) = 2 ^ 125 * m"
    by (simp only: mult.assoc) (simp only: mult.commute)
qed


lemma esp_conversion:
  "\<exists>f. esp_fp16_to_fp32 h = Inr f \<and> unat f div 2 ^ 31 = half_sign h
     \<and> (if half_exp h = 31 then unat f = half_sign h * 2 ^ 31 + 255 * 2 ^ 23 + half_man h * 2 ^ 13
        else float_units f = 2 ^ 125 * half_units h)"
proof -
  let ?s = "half_sign h" and ?e = "half_exp h" and ?m = "half_man h"
  note hf = half_fields [of h]
  note def = esp_fp16_to_fp32_def [of h, unfolded Let_def hf(1-3)]
  have z: "(of_nat ?e :: u32) = 0 \<longleftrightarrow> ?e = 0" "(of_nat ?e :: u32) = 31 \<longleftrightarrow> ?e = 31" "(of_nat ?m :: u32) = 0 \<longleftrightarrow> ?m = 0"
    using hf(5,6) by (simp_all add: word_unat_eq_iff unat_of_nat)
  consider (zero) "?e = 0" "?m = 0" | (sub) "?e = 0" "?m \<noteq> 0" | (special) "?e = 31" | (normal) "?e \<noteq> 0" "?e \<noteq> 31" by blast
  then show ?thesis
  proof cases
    case zero
    have "unat (push_bit 31 (of_nat ?s) :: u32) = ?s * 2 ^ 31 + 0 * 2 ^ 23 + 0 * 2 ^ 13"
      using pack_float [of ?s 0 0] hf(4) by simp
    from float_units_pack [OF hf(4) _ _ this] zero z show ?thesis by (simp add: def half_units_def)
  next
    case sub
    then obtain k where k: "1024 \<le> ?m * 2 ^ k" "?m * 2 ^ k < 2048"
      "normalise (of_nat ?m) 1 = Some (of_nat (?m * 2 ^ k), 1 - of_nat k)"
      using normalise_ends [of ?m 1] hf(6) by auto
    note n = normalised_fields [OF k(1,2)]
    have pos: "0 < ?m" using sub by simp
    have b: "113 - k < 256" "?m * 2 ^ k - 1024 < 1024" "113 - k \<noteq> 0" using k n(1) [OF pos] by simp_all
    note u = pack_float [OF hf(4) b(1,2)]
    have "esp_fp16_to_fp32 h = Inr (push_bit 31 (of_nat ?s) OR push_bit 23 (of_nat (113 - k)) OR push_bit 13 (of_nat (?m * 2 ^ k - 1024)))"
      unfolding def using sub z by (simp only: k(3) option.case prod.case n(2,3) [OF pos] simp_thms if_True if_False)
    moreover note float_units_pack [OF hf(4) b(1,2) u] n(4) [OF pos]
    ultimately show ?thesis using sub b(3) by (simp add: half_units_def del: of_nat_mult)
  next
    case special
    have "(0x7F800000 :: u32) = push_bit 23 (of_nat 255)" by simp
    then have "esp_fp16_to_fp32 h = Inr (push_bit 31 (of_nat ?s) OR push_bit 23 (of_nat 255) OR push_bit 13 (of_nat ?m))"
      unfolding def using special z by (simp only:) simp
    then show ?thesis
      using special pack_float [OF hf(4) _ hf(6), of 255] float_units_pack(2) [OF hf(4) _ hf(6) pack_float [OF hf(4) _ hf(6), of 255]]
      by simp
  next
    case normal
    have e: "(of_nat ?e + 127 - 15 :: u32) = of_nat (?e + 112)" by simp
    have b: "?e + 112 < 256" using hf(5) by simp
    note u = pack_float [OF hf(4) b hf(6)]
    have "(2 ^ 10 + ?m) * 2 ^ (?e + 112 + 12) = 2 ^ 125 * ((2 ^ 10 + ?m) * 2 ^ (?e - 1))"
      using normal by (cases ?e) (simp_all add: power_add)
    moreover have "esp_fp16_to_fp32 h = Inr (push_bit 31 (of_nat ?s) OR push_bit 23 (of_nat (?e + 112)) OR push_bit 13 (of_nat ?m))"
      unfolding def e using normal z by simp
    moreover note float_units_pack [OF hf(4) b hf(6) u]
    ultimately show ?thesis using normal by (simp add: half_units_def del: of_nat_mult)
  qed
qed


text \<open>
  C27. The conversion of \<open>EspressoBackend\<close> ends on every binary16 pattern and is exact: it keeps
  the sign, maps infinities and NaNs to those of binary32 with their payload, and every
  other pattern, subnormals included, to a pattern of the same value.
\<close>

theorem espresso_conversion_exact:
  "\<exists>f. esp_fp16_to_fp32 h = Inr f \<and> unat f div 2 ^ 31 = half_sign h
     \<and> (if half_exp h = 31 then unat f = half_sign h * 2 ^ 31 + 255 * 2 ^ 23 + half_man h * 2 ^ 13
        else float_units f = 2 ^ 125 * half_units h)"
  by (rule esp_conversion)

section \<open>Bundles of MATMUL groups\<close>

lemma esp_converts: "\<exists>f. esp_fp16_to_fp32 h = Inr f"
  using esp_conversion [of h] by blast

lemma transpose_fp16_ok:
  assumes "int (length src) = 2 * IC * OC" "0 < IC" "0 < OC"
  obtains w where "transpose_fp16_to_fp32 src IC OC = Inr w" "int (length w) = IC * OC"
    "\<And>r c. r < nat IC \<Longrightarrow> c < nat OC \<Longrightarrow> esp_fp16_to_fp32 (halves src ! (r * nat OC + c)) = Inr (w ! (c * nat IC + r))"
proof -
  let ?n = "nat IC * nat OC"
  have n: "int ?n = IC * OC" using assms by simp
  have "int (length src) = int (2 * ?n)" using assms(1) n by simp
  then have len: "length (halves src) = ?n" by (simp only: of_nat_eq_iff length_halves)
  define conv where "conv = (\<lambda>h. case esp_fp16_to_fp32 h of Inr f \<Rightarrow> f | Inl _ \<Rightarrow> 0)"
  have conv: "esp_fp16_to_fp32 h = Inr (conv h)" for h using esp_converts [of h] by (auto simp: conv_def)
  then have m: "map_res esp_fp16_to_fp32 (halves src) = Inr (map conv (halves src))" by (intro map_res_total)
  let ?w = "transpose_loop (\<lambda>i. map conv (halves src) ! i) (nat IC) (nat OC) (replicate (nat OC * nat IC) 0)"
  show ?thesis
  proof
    show "transpose_fp16_to_fp32 src IC OC = Inr ?w" using m len by (simp add: transpose_fp16_to_fp32_def Let_def)
    show "int (length ?w) = IC * OC" using n by (simp add: mult.commute)
    show "esp_fp16_to_fp32 (halves src ! (r * nat OC + c)) = Inr (?w ! (c * nat IC + r))" if "r < nat IC" "c < nat OC" for r c
    proof -
      have "r * nat OC + c < ?n" using grid_bound [OF that(2,1)] by (simp add: mult.commute)
      then show ?thesis using that len conv by (simp add: nth_transpose_loop mult.commute)
    qed
  qed
qed

lemma inner_product_text:
  assumes "inner_product IC OC (Some w) False False 1 = Inr b"
  shows "net_text b = json_text (net_doc fmt_g [Inner_product ''fc'' ''input'' ''output'' IC OC 1 False False True])"
    "esp_weights b = take (nat IC * nat OC) w"
proof -
  have "layer_jsons b = layer_jsons (add_layer fmt_g (Inner_product ''fc'' ''input'' ''output'' IC OC 1 False False True) empty_builder)"
    using assms by (auto simp: inner_product_def Let_def add_weight_blob_def set_outputs_def set_inputs_def add_shape_def split: if_splits)
  then show "net_text b = json_text (net_doc fmt_g [Inner_product ''fc'' ''input'' ''output'' IC OC 1 False False True])"
    unfolding layer_text [THEN conjunct1]
    by (simp add: net_text_def net_doc_def jkv_defs empty_builder_def)
  have "esp_weights (add_inner_product ''fc'' ''input'' ''output'' IC OC 1 False False True empty_builder) = []"
    by (simp add: add_inner_product_def push_layer_def empty_builder_def)
  then show "esp_weights b = take (nat IC * nat OC) w"
    using assms by (auto simp: inner_product_def Let_def add_weight_blob_def set_outputs_def set_inputs_def add_shape_def split: if_splits)
qed

lemma inner_product_ok: "nat IC * nat OC \<le> length w \<Longrightarrow> \<exists>b. inner_product IC OC (Some w) False False 1 = Inr b"
  by (simp add: inner_product_def Let_def add_weight_blob_def)

lemma run_fs_all: "(\<And>f. f \<in> set fs \<Longrightarrow> ok f) \<Longrightarrow> run_fs ok fs = (True, fs)"
  by (induction fs) auto


lemma espresso_group:
  assumes "good_group g gr" "espresso_owns rt g gr = Inr True"
  defines "n \<equiv> nodes g ! hd (node_ids gr)"
  defines "IC \<equiv> channels (shape_of g (n_inputs n ! 0))" and "OC \<equiv> channels (shape_of g (n_output n))"
  shows "0 < IC" "IC \<le> 16384" "0 < OC" "OC \<le> 16384" "int (length (n_weights n)) = 2 * IC * OC" "n_weights n \<noteq> []"
    "n_inputs n \<noteq> []" "tensor g (n_inputs n ! 0) = Inr (tensors g ! (n_inputs n ! 0))"
    "tensor g (n_output n) = Inr (tensors g ! n_output n)"
proof -
  have ni: "node_in g n" "node_requires g n" using assms(1) by (auto elim!: good_group_nodes simp: n_def)
  show ne: "n_inputs n \<noteq> []" using requires_input [OF ni(2)] .
  note d = node_inD [OF ni(1)]
  show "tensor g (n_output n) = Inr (tensors g ! n_output n)" by (rule d(8))
  show "tensor g (n_inputs n ! 0) = Inr (tensors g ! (n_inputs n ! 0))" using tensor_ok [OF d(1,5)] ne by simp
  have "n_op n = LIBANE_OP_MATMUL"
    using assms(2) first_node_ok [OF assms(1)] by (auto simp: espresso_owns_def n_def split: if_splits)
  then show w: "int (length (n_weights n)) = 2 * IC * OC"
    using ni(2) ne by (simp add: node_requires_def op_requires_def IC_def OC_def)
  show c: "0 < IC" "IC \<le> 16384" "0 < OC" "OC \<le> 16384" using d(4) d(6) [of 0] ne by (simp_all add: shape_ok_def IC_def OC_def)
  then have "0 < 2 * IC * OC" by simp
  then show "n_weights n \<noteq> []" using w by auto
qed

lemma espresso_compile:
  assumes "good_group g gr" "espresso_owns rt g gr = Inr True"
  defines "n \<equiv> nodes g ! hd (node_ids gr)"
  defines "IC \<equiv> channels (shape_of g (n_inputs n ! 0))" and "OC \<equiv> channels (shape_of g (n_output n))"
  obtains w b where "inner_product IC OC (Some w) False False 1 = Inr b" "esp_weights b = w"
    "int (length w) = IC * OC"
    "\<forall>r < nat IC. \<forall>c < nat OC. esp_fp16_to_fp32 (halves (n_weights n) ! (r * nat OC + c)) = Inr (w ! (c * nat IC + r))"
    "espresso_compile_group rt g gr d = Inr (case make_temp_dir rt of None \<Rightarrow> None
       | Some tmp \<Rightarrow> if fst (esp_write (fs_result rt) b (tmp @ ''.mlmodelc''))
           then ane_load_mlmodelc rt (tmp @ ''.mlmodelc'') IC 1 OC 1 d else None)"
proof -
  note e = espresso_group [OF assms(1,2), folded n_def, folded IC_def OC_def]
  obtain w where w: "transpose_fp16_to_fp32 (n_weights n) IC OC = Inr w" "int (length w) = IC * OC"
    "\<forall>r < nat IC. \<forall>c < nat OC. esp_fp16_to_fp32 (halves (n_weights n) ! (r * nat OC + c)) = Inr (w ! (c * nat IC + r))"
    using transpose_fp16_ok [OF e(5,1,3)] by metis
  have "int (nat IC * nat OC) = int (length w)" using w(2) e(1,3) by simp
  then have lw: "nat IC * nat OC = length w" by (simp only: of_nat_eq_iff)
  then obtain b where b: "inner_product IC OC (Some w) False False 1 = Inr b" using inner_product_ok [of IC OC w] by auto
  have "esp_weights b = w" using inner_product_text(2) [OF b] lw by simp
  moreover have "espresso_compile_group rt g gr d = Inr (case make_temp_dir rt of None \<Rightarrow> None
       | Some tmp \<Rightarrow> if fst (esp_write (fs_result rt) b (tmp @ ''.mlmodelc''))
           then ane_load_mlmodelc rt (tmp @ ''.mlmodelc'') IC 1 OC 1 d else None)"
    using e w(1) b first_node_ok [OF assms(1)]
    by (simp add: espresso_compile_group_def n_def [symmetric] IC_def [unfolded shape_of_def, symmetric]
        OC_def [unfolded shape_of_def, symmetric] Let_def split: option.splits)
  ultimately show ?thesis using that b w by blast
qed

lemma espresso_owns_defined: "good_group g gr \<Longrightarrow> \<exists>b. espresso_owns rt g gr = Inr b"
proof -
  assume g: "good_group g gr"
  then have "node_in g (nodes g ! hd (node_ids gr))" by (auto elim!: good_group_nodes)
  from node_inD(8) [OF this] show ?thesis by (auto simp: espresso_owns_def first_node_ok [OF g])
qed

interpretation espresso: compiler_backend "espresso_backend rt" inv for rt inv
proof
  show "\<exists>b. be_owns (espresso_backend rt) s g gr = Inr b" if "good_group g gr" for s g gr
    using espresso_owns_defined [OF that] by (simp add: espresso_backend_def)
  show "\<exists>p s'. be_compile_group (espresso_backend rt) s g gr d = Inr (p, s') \<and> inv s'"
    if "good_group g gr" "inv s" "be_owns (espresso_backend rt) s g gr = Inr True" for s g gr d
  proof -
    have "espresso_owns rt g gr = Inr True" using that(3) by (simp add: espresso_backend_def)
    then show ?thesis
      by (rule espresso_compile [OF that(1), of _ d]) (use that(2) in \<open>simp add: espresso_backend_def\<close>)
  qed
qed



definition mm_shape :: "int \<Rightarrow> TensorShape" where
  "mm_shape c = mk_shape 1 c 1 16"

definition mm_calls :: "build_call list" where
  "mm_calls = [Add_input ''x'' (mm_shape 2), Add_op LIBANE_OP_MATMUL [0] (mm_shape 1) (Some [0, 0x3C, 0, 0x40]), Mark_output 1 [] ]"

definition mm_graph :: AneGraph where
  "mm_graph = \<lparr>
     tensors =
       [\<lparr>t_id = 0, t_name = ''x'', t_shape = mm_shape 2, t_producer = kInvalidNodeId\<rparr>,
        \<lparr>t_id = 1, t_name = ''t1'', t_shape = mm_shape 1, t_producer = 0\<rparr>],
     nodes = [\<lparr>n_id = 0, n_op = LIBANE_OP_MATMUL, n_inputs = [0], n_output = 1, n_weights = [0, 0x3C, 0, 0x40],
       n_weight_file = ''w0.bin''\<rparr>],
     graph_inputs = [0], graph_outputs = [1], next_tensor_id = 2, next_node_id = 1\<rparr>"

definition mm_group :: FusionGroup where
  "mm_group = \<lparr>node_ids = [0], gr_inputs = [0], gr_output = 1\<rparr>"

definition demo_runtime :: ane_runtime where
  "demo_runtime = \<lparr>rt_initialize = Available,
     ane_compile = (\<lambda>_ _ _. Some \<lparr>prog_handle = 1, model_dir = [], objc_client_model = False, client_in_seq = 0, client_out_seq = 0\<rparr>),
     ane_load_hwx = (\<lambda>_ _ _ _ _ _. None), path_b_available = True,
     ane_load_mlmodelc = (\<lambda>_ _ i _ j _. Some \<lparr>prog_handle = 2, model_dir = [], objc_client_model = True, client_in_seq = i, client_out_seq = j\<rparr>),
     first_hwx_file = (\<lambda>_. None), make_temp_dir = Some ''/tmp/b'', make_dir = (\<lambda>_. True), write_file = (\<lambda>_ _. True)\<rparr>"

lemma mm_built: "built mm_graph"
proof (rule run_build_built [OF built.built_empty])
  show "run_build mm_calls empty_graph = Inr mm_graph"
    by (simp add: mm_calls_def mm_graph_def add_input_def add_op_def mark_output_def validate_def
      mm_shape_def alloc_tensor_def empty_graph_def Let_def to_u32_def decimal_eval kInvalidNodeId_def
      signed_modulo_int_def weight_file_name_def)
qed

lemma mm_validated: "fits mm_graph" "validate_graph mm_graph = Inr []"
proof -
  show f: "fits mm_graph" by (simp add: fits_def mm_graph_def weights_fit_def)
  show "validate_graph mm_graph = Inr []"
    unfolding validate_graph_iff [OF mm_built f]
    by (simp add: mm_graph_def node_requires_def op_requires_def shape_of_def mm_shape_def)
qed

lemma mm_groups: "compute_groups mm_graph = Inr [mm_group]"
  by (simp add: compute_groups_def mm_graph_def mm_group_def new_group_def)

lemma mm_good: "good_group mm_graph mm_group"
  using mm_built mm_validated mm_groups
  by (auto simp: good_group_def mm_graph_def mm_group_def node_emittable_def emittable_def)

lemma mm_owned: "espresso_owns demo_runtime mm_graph mm_group = Inr True"
  by (simp add: espresso_owns_def first_node_def mm_graph_def mm_group_def demo_runtime_def node_def tensor_def mm_shape_def to_u32_def)


end
