(* ===== verification/GraphCompiler.thy ===== *)
theory GraphCompiler
  imports EspressoBackend BufferManager
begin

text \<open>
  \<open>GraphCompiler\<close> and \<open>CompiledGraph\<close> (src/graph/graph_compiler.hpp, graph_compiler.cpp): the plan, the
  choice of one allocation size for all I/O tensors, the compilation of every group through a
  backend, and the router of the default overload. The text of the validator's errors in the
  exception message is left out. \<open>catch (...)\<close> intercepts exceptions, not undefined
  behaviour. Besides the compiled graph, \<open>compile\<close> returns the buffer pool, the backend's
  state and the programs it unloaded on the way out; a discarded \<open>CompiledGraph\<close> destroys its
  buffers. Sizes are natural numbers: no validated tensor exceeds \<open>2 ^ 31\<close> bytes and the
  search adds less than \<open>2 ^ 22\<close>.
\<close>

record ExecutionPlan =
  plan_groups :: "FusionGroup list"
  plan_tensor_bytes :: "TensorId \<rightharpoonup> size_t"
  plan_buffer_ids :: "TensorId list"
  plan_input_ids :: "TensorId list"
  plan_output_ids :: "TensorId list"

record CompiledPlanGroup =
  cpg_node_ids :: "NodeId list"
  cpg_program :: AneProgram
  cpg_inputs :: "TensorId list"
  cpg_output :: TensorId

record CompiledGraph =
  cg_groups :: "CompiledPlanGroup list"
  cg_tensor_bytes :: "TensorId \<rightharpoonup> size_t"
  cg_tensor_shapes :: "TensorId \<rightharpoonup> TensorShape"
  cg_io_alloc_bytes :: nat
  cg_ane_bufs :: "TensorId \<rightharpoonup> AneBuffer"
  cg_input_ids :: "TensorId list"
  cg_output_ids :: "TensorId list"

definition ane_buf :: "CompiledGraph \<Rightarrow> TensorId \<Rightarrow> AneBuffer option" where
  "ane_buf cg x = cg_ane_bufs cg x"

definition tensor_shape :: "CompiledGraph \<Rightarrow> TensorId \<Rightarrow> TensorShape option" where
  "tensor_shape cg x = cg_tensor_shapes cg x"

section \<open>Plan\<close>

definition build_plan :: "AneGraph \<Rightarrow> ExecutionPlan res" where
  "build_plan g =
     bind_res (validate_graph g) (\<lambda>errs.
       if errs \<noteq> [] then Inl (Runtime_error ''Graph validation failed:'')
       else bind_res (compute_groups g) (\<lambda>gs.
         Inr \<lparr>plan_groups = gs,
              plan_tensor_bytes = foldl (\<lambda>m t. m(t_id t \<mapsto> shape_bytes (t_shape t))) Map.empty (tensors g),
              plan_buffer_ids = map gr_output gs,
              plan_input_ids = graph_inputs g,
              plan_output_ids = graph_outputs g\<rparr>))"

section \<open>I/O allocation size\<close>

definition round_up :: "nat \<Rightarrow> nat \<Rightarrow> nat" where
  "round_up x m = ((x + m - 1) div m) * m"

definition stride_ok :: "nat \<Rightarrow> TensorShape \<Rightarrow> bool res" where
  "stride_ok target s =
     (if channels s = 0 then Inl (Undefined_behaviour ''division by zero'')
      else let stride = target div nat (channels s)
           in Inr (\<not> (stride < nat (seq s) * 2 \<or> stride mod 64 \<noteq> 0)))"

fun strides_ok :: "AneGraph \<Rightarrow> nat \<Rightarrow> TensorId list \<Rightarrow> bool res" where
  "strides_ok g target [] = Inr True"
| "strides_ok g target (x # xs) =
     bind_res (tensor g x) (\<lambda>t. bind_res (stride_ok target (t_shape t)) (\<lambda>ok.
       if ok then strides_ok g target xs else Inr False))"

text \<open>The \<open>iter\<close> loop, with the number of iterations left.\<close>

fun stride_search :: "AneGraph \<Rightarrow> TensorId list \<Rightarrow> TensorId list \<Rightarrow> nat \<Rightarrow> nat \<Rightarrow> nat res" where
  "stride_search g ins outs 0 target = Inr target"
| "stride_search g ins outs (Suc k) target =
     bind_res (strides_ok g target ins) (\<lambda>ok.
     bind_res (if ok then strides_ok g target outs else Inr False) (\<lambda>ok.
       if ok then Inr target else stride_search g ins outs k (target + 64)))"

definition max_bytes_of :: "AneGraph \<Rightarrow> nat" where
  "max_bytes_of g = foldl (\<lambda>a t. max a (unat (shape_bytes (t_shape t)))) 0 (tensors g)"

definition io_alloc :: "AneGraph \<Rightarrow> ExecutionPlan \<Rightarrow> nat res" where
  "io_alloc g plan =
     (let a = max_bytes_of g in
      if a > 0 then stride_search g (plan_input_ids plan) (plan_output_ids plan) 40960 (round_up (max a 49152) 64)
      else Inr a)"

section \<open>Compilation\<close>

text \<open>The destructor: every program is unloaded, every buffer destroyed.\<close>

definition unload_all :: "CompiledGraph \<Rightarrow> AneProgram list" where
  "unload_all cg = map cpg_program (cg_groups cg)"

definition destroy_bufs :: "CompiledGraph \<Rightarrow> BufferPool \<Rightarrow> BufferPool" where
  "destroy_bufs cg p = p\<lparr>freed := freed p \<union> b_id ` ran (cg_ane_bufs cg)\<rparr>"

definition push_group :: "CompiledGraph \<Rightarrow> FusionGroup \<Rightarrow> AneProgram \<Rightarrow> CompiledGraph" where
  "push_group cg gr prog = cg\<lparr>cg_groups := cg_groups cg
     @ [\<lparr>cpg_node_ids = node_ids gr, cpg_program = prog, cpg_inputs = gr_inputs gr, cpg_output = gr_output gr\<rparr>]\<rparr>"

definition put_buf :: "CompiledGraph \<Rightarrow> TensorId \<Rightarrow> AneBuffer \<Rightarrow> CompiledGraph" where
  "put_buf cg x b = cg\<lparr>cg_ane_bufs := (cg_ane_bufs cg)(x \<mapsto> b)\<rparr>"

type_synonym 's compile_result = "(CompiledGraph option \<times> BufferPool \<times> 's \<times> AneProgram list) res"

fun compile_groups ::
  "'s CompilerBackend \<Rightarrow> alloc_env \<Rightarrow> AneGraph \<Rightarrow> FusionGroup list \<Rightarrow> CompiledGraph \<Rightarrow> BufferPool \<Rightarrow> 's \<Rightarrow> 's compile_result" where
  "compile_groups B env g [] cg p s = Inr (Some cg, p, s, [])"
| "compile_groups B env g (gr # gs) cg p s =
     bind_res (be_compile_group B s g gr (''group_'' @ nat_to_string (length (cg_groups cg)))) (\<lambda>(prog, s). case prog of
         None \<Rightarrow> Inr (None, destroy_bufs cg p, s, unload_all cg)
       | Some prog \<Rightarrow>
           let cg = push_group cg gr prog in
           bind_res (tensor g (gr_output gr)) (\<lambda>t.
           bind_res (acquire_tensor_padded env (channels (t_shape t)) (seq (t_shape t)) (of_nat (cg_io_alloc_bytes cg)) p)
             (\<lambda>(b, p). compile_groups B env g gs (put_buf cg (gr_output gr) b) p s)))"

definition compile_with ::
  "'s CompilerBackend \<Rightarrow> ane_runtime \<Rightarrow> alloc_env \<Rightarrow> AneGraph \<Rightarrow> BufferPool \<Rightarrow> 's \<Rightarrow> 's compile_result" where
  "compile_with B rt env g p s =
     (case build_plan g of
        Inl (Undefined_behaviour m) \<Rightarrow> Inl (Undefined_behaviour m)
      | Inl _ \<Rightarrow> Inr (None, p, s, [])
      | Inr plan \<Rightarrow>
          if rt_initialize rt = Fallback then Inr (None, p, s, [])
          else bind_res (io_alloc g plan) (\<lambda>io.
            compile_groups B env g (plan_groups plan)
              \<lparr>cg_groups = [], cg_tensor_bytes = plan_tensor_bytes plan,
               cg_tensor_shapes = foldl (\<lambda>m t. m(t_id t \<mapsto> t_shape t)) Map.empty (tensors g),
               cg_io_alloc_bytes = io, cg_ane_bufs = Map.empty,
               cg_input_ids = plan_input_ids plan, cg_output_ids = plan_output_ids plan\<rparr> p s))"

section \<open>The router\<close>

fun route :: "'s CompilerBackend list \<Rightarrow> 's \<Rightarrow> AneGraph \<Rightarrow> FusionGroup \<Rightarrow> string \<Rightarrow> (AneProgram option \<times> 's) res" where
  "route [] s g gr debug_name = Inr (None, s)"
| "route (B # Bs) s g gr debug_name =
     bind_res (be_owns B s g gr) (\<lambda>o'. if o' then be_compile_group B s g gr debug_name else route Bs s g gr debug_name)"

definition routing_backend :: "'s CompilerBackend list \<Rightarrow> 's CompilerBackend" where
  "routing_backend Bs = \<lparr>be_owns = (\<lambda>s g gr. Inr True), be_compile_group = route Bs\<rparr>"

definition default_backends :: "mil_env \<Rightarrow> ane_runtime \<Rightarrow> HwxEmitter CompilerBackend list" where
  "default_backends E rt = [hwx_backend E rt, espresso_backend rt, mil_backend E rt]"

definition compile :: "mil_env \<Rightarrow> ane_runtime \<Rightarrow> alloc_env \<Rightarrow> AneGraph \<Rightarrow> BufferPool \<Rightarrow> HwxEmitter \<Rightarrow> HwxEmitter compile_result" where
  "compile E rt env g p em = compile_with (routing_backend (default_backends E rt)) rt env g p em"

section \<open>The router meets the contract\<close>

locale routed_backend =
  fixes Bs :: "'s CompilerBackend list" and inv :: "'s \<Rightarrow> bool"
  assumes members: "B \<in> set Bs \<Longrightarrow> compiler_backend B inv"
begin

lemma route_defined:
  assumes "good_group g gr" "inv s"
  shows "\<exists>p s'. route Bs s g gr debug_name = Inr (p, s') \<and> inv s'"
proof -
  have "(\<And>B. B \<in> set xs \<Longrightarrow> compiler_backend B inv) \<Longrightarrow> \<exists>p s'. route xs s g gr debug_name = Inr (p, s') \<and> inv s'" for xs
  proof (induction xs)
    case (Cons B xs)
    then have B: "compiler_backend B inv" by simp
    obtain b where b: "be_owns B s g gr = Inr b" using compiler_backend.owns_defined [OF B assms(1)] by blast
    show ?case
    proof (cases b)
      case True
      then show ?thesis using compiler_backend.compile_defined [OF B assms] b by simp
    next
      case False
      then show ?thesis using Cons b by simp
    qed
  qed (simp add: assms(2))
  then show ?thesis using members by blast
qed

lemma router_contract: "compiler_backend (routing_backend Bs) inv"
  by (rule compiler_backend.intro) (auto simp: routing_backend_def dest: route_defined)

end

sublocale routed_backend \<subseteq> router: compiler_backend "routing_backend Bs" inv
  by (rule router_contract)

interpretation without_hwx: routed_backend "[espresso_backend rt, mil_backend E rt]" inv for E rt inv
  by (rule routed_backend.intro) (auto intro: espresso.compiler_backend_axioms mil.compiler_backend_axioms)

lemma default_routed: "files_laid_out rt \<Longrightarrow> routed_backend (default_backends E rt) emitter_ok"
  by (rule routed_backend.intro)
    (auto simp: default_backends_def intro: hwx_contract espresso.compiler_backend_axioms mil.compiler_backend_axioms)


section \<open>The stride search\<close>

definition stride_fits :: "nat \<Rightarrow> TensorShape \<Rightarrow> bool" where
  "stride_fits target s \<longleftrightarrow> nat (seq s) * 2 \<le> target div nat (channels s) \<and> 64 dvd target div nat (channels s)"

lemma strides_ok_eq:
  assumes "graph_wf g" "\<forall>x \<in> set xs. x < length (tensors g)"
  shows "strides_ok g target xs = Inr (\<forall>x \<in> set xs. stride_fits target (shape_of g x))"
  using assms(2)
proof (induction xs)
  case (Cons x xs)
  then have "tensor g x = Inr (tensors g ! x)" "shape_ok (shape_of g x)"
    using tensor_ok [OF assms(1)] wf_shape_ok [OF assms(1)] by (auto simp: shape_of_def)
  then show ?case
    using Cons by (auto simp: stride_ok_def stride_fits_def shape_of_def shape_ok_def Let_def mod_eq_0_iff_dvd not_less)
qed simp

lemma stride_search_spec:
  assumes "graph_wf g" "\<forall>x \<in> set (ins @ outs). x < length (tensors g)"
  shows "\<exists>j \<le> k. stride_search g ins outs k start = Inr (start + 64 * j)
    \<and> (\<forall>i < j. \<not> (\<forall>x \<in> set (ins @ outs). stride_fits (start + 64 * i) (shape_of g x)))
    \<and> (j < k \<longrightarrow> (\<forall>x \<in> set (ins @ outs). stride_fits (start + 64 * j) (shape_of g x)))"
proof (induction k arbitrary: start)
  case (Suc k)
  let ?fit = "\<lambda>t. \<forall>x \<in> set (ins @ outs). stride_fits t (shape_of g x)"
  have eq: "stride_search g ins outs (Suc k) start = (if ?fit start then Inr start else stride_search g ins outs k (start + 64))"
    using strides_ok_eq [OF assms(1), of ins start] strides_ok_eq [OF assms(1), of outs start] assms(2) by auto
  show ?case
  proof (cases "?fit start")
    case True
    then show ?thesis using eq by (intro exI [of _ 0]) simp
  next
    case False
    obtain j where j: "j \<le> k" "stride_search g ins outs k (start + 64) = Inr (start + 64 + 64 * j)"
      "\<forall>i < j. \<not> ?fit (start + 64 + 64 * i)" "j < k \<longrightarrow> ?fit (start + 64 + 64 * j)" using Suc [of "start + 64"] by blast
    have "\<not> ?fit (start + 64 * i)" if "i < Suc j" for i
      using that False j(3) by (cases i) (simp_all add: add.assoc [symmetric])
    then show ?thesis using eq False j by (intro exI [of _ "Suc j"]) (simp add: algebra_simps)
  qed
qed simp


section \<open>Compiling the groups\<close>

definition held :: "CompiledGraph \<Rightarrow> AneBuffer list" where
  "held cg = rev (map (\<lambda>c. the (cg_ane_bufs cg (cpg_output c))) (cg_groups cg))"

definition cg_ok :: "AneGraph \<Rightarrow> CompiledGraph \<Rightarrow> bool" where
  "cg_ok g cg \<longleftrightarrow> distinct (map cpg_output (cg_groups cg)) \<and> dom (cg_ane_bufs cg) = cpg_output ` set (cg_groups cg)
     \<and> (\<forall>x b. cg_ane_bufs cg x = Some b \<longrightarrow> b_tensor_layout b \<and> b_tensor_channels b = channels (shape_of g x)
          \<and> b_tensor_seq b = seq (shape_of g x) \<and> shape_bytes (shape_of g x) \<le> b_bytes b)"

definition same_group :: "CompiledPlanGroup \<Rightarrow> FusionGroup \<Rightarrow> bool" where
  "same_group c gr \<longleftrightarrow> cpg_node_ids c = node_ids gr \<and> cpg_inputs c = gr_inputs gr \<and> cpg_output c = gr_output gr"

text \<open>A compiled graph that is ready to run.\<close>

definition loaded :: "AneGraph \<Rightarrow> CompiledGraph \<Rightarrow> bool" where
  "loaded g cg \<longleftrightarrow> cg_ok g cg \<and> (\<exists>gs. compute_groups g = Inr gs \<and> list_all2 same_group (cg_groups cg) gs)
     \<and> (\<forall>x < length (tensors g). cg_tensor_shapes cg x = Some (shape_of g x) \<and> cg_tensor_bytes cg x \<noteq> None)
     \<and> (\<forall>b \<in> set (held cg). buf_ok b) \<and> cg_input_ids cg = graph_inputs g \<and> cg_output_ids cg = graph_outputs g"

text \<open>What a run of the loop may end in.\<close>

definition compiled :: "AneGraph \<Rightarrow> ('s \<Rightarrow> bool) \<Rightarrow> AneBuffer list \<Rightarrow> FusionGroup list \<Rightarrow> CompiledGraph \<Rightarrow> 's compile_result \<Rightarrow> bool" where
  "compiled g I H gs cg r \<longleftrightarrow> (case r of
       Inl e \<Rightarrow> e = Bad_alloc
     | Inr (cg', p', s', unloaded) \<Rightarrow> I s' \<and> (case cg' of
         None \<Rightarrow> pool_ok p' H \<and> prefix (unload_all cg) unloaded \<and> length unloaded < length (cg_groups cg) + length gs
       | Some cg' \<Rightarrow> unloaded = [] \<and> pool_ok p' (held cg' @ H) \<and> cg_ok g cg'
           \<and> cg_io_alloc_bytes cg' = cg_io_alloc_bytes cg \<and> cg_tensor_shapes cg' = cg_tensor_shapes cg
           \<and> cg_tensor_bytes cg' = cg_tensor_bytes cg
           \<and> cg_input_ids cg' = cg_input_ids cg \<and> cg_output_ids cg' = cg_output_ids cg
           \<and> (\<exists>cs. cg_groups cg' = cg_groups cg @ cs \<and> list_all2 same_group cs gs)))"

lemma held_ran: "cg_ok g cg \<Longrightarrow> ran (cg_ane_bufs cg) = set (held cg)"
proof -
  assume ok: "cg_ok g cg"
  have "cg_ane_bufs cg (cpg_output c) = Some (the (cg_ane_bufs cg (cpg_output c)))" if "c \<in> set (cg_groups cg)" for c
  proof -
    have "cpg_output c \<in> dom (cg_ane_bufs cg)" using ok that by (simp add: cg_ok_def)
    then show ?thesis by auto
  qed
  then show ?thesis using ok by (force simp: held_def ran_def cg_ok_def)
qed

lemma held_put:
  assumes "cg_ok g cg" "gr_output gr \<notin> dom (cg_ane_bufs cg)"
  shows "held (put_buf (push_group cg gr prog) (gr_output gr) b) = b # held cg"
proof -
  have "gr_output gr \<notin> cpg_output ` set (cg_groups cg)" using assms by (simp add: cg_ok_def)
  then have "cpg_output c \<noteq> gr_output gr" if "c \<in> set (cg_groups cg)" for c using that by (metis imageI)
  then show ?thesis by (simp add: held_def put_buf_def push_group_def)
qed

lemma tensor_bytes_shape: "shape_ok s \<Longrightarrow> tensor_bytes (channels s) (seq s) = shape_bytes s"
  by (simp add: tensor_bytes_def shape_bytes_def numel_def shape_ok_def)

lemma cg_ok_put:
  assumes "cg_ok g cg" "gr_output gr \<notin> dom (cg_ane_bufs cg)" "shape_ok (shape_of g (gr_output gr))"
    "b_tensor_layout b" "b_tensor_channels b = channels (shape_of g (gr_output gr))" "b_tensor_seq b = seq (shape_of g (gr_output gr))"
    "b_bytes b = max (tensor_bytes (channels (shape_of g (gr_output gr))) (seq (shape_of g (gr_output gr)))) n"
  shows "cg_ok g (put_buf (push_group cg gr prog) (gr_output gr) b)"
  using assms tensor_bytes_shape [OF assms(3)]
  by (auto simp: cg_ok_def put_buf_def push_group_def)

context compiler_backend
begin

lemma compile_groups_spec:
  assumes "env_ok env" "graph_wf g" "be_owns B = (\<lambda>s g gr. Inr True)"
    "\<forall>gr \<in> set gs. good_group g gr \<and> gr_output gr < length (tensors g)" "inv s" "cg_ok g cg" "pool_ok p (held cg @ H)"
    "distinct (map gr_output gs)" "\<forall>gr \<in> set gs. gr_output gr \<notin> dom (cg_ane_bufs cg)"
  shows "compiled g inv H gs cg (compile_groups B env g gs cg p s)"
  using assms(4-9)
proof (induction gs arbitrary: cg p s)
  case Nil
  then show ?case by (simp add: compiled_def)
next
  case (Cons gr gs)
  let ?d = "''group_'' @ nat_to_string (length (cg_groups cg))"
  let ?sh = "shape_of g (gr_output gr)"
  have good: "good_group g gr" "gr_output gr < length (tensors g)" "gr_output gr \<notin> dom (cg_ane_bufs cg)" using Cons.prems by simp_all
  obtain pr s' where c: "be_compile_group B s g gr ?d = Inr (pr, s')" "inv s'"
    using compile_defined [OF good(1) Cons.prems(2), of ?d] assms(3) by auto
  have t: "tensor g (gr_output gr) = Inr (tensors g ! gr_output gr)" "shape_ok ?sh"
    using tensor_ok [OF assms(2) good(2)] wf_shape_ok [OF assms(2) good(2)] by (simp_all add: shape_of_def)
  show ?case
  proof (cases pr)
    case None
    have "pool_ok (destroy_bufs cg p) H"
      using pool_ok_free [OF Cons.prems(4)] held_ran [OF Cons.prems(3)] by (simp add: destroy_bufs_def)
    then show ?thesis using None c by (simp add: compiled_def unload_all_def)
  next
    case (Some prog)
    let ?cg = "push_group cg gr prog"
    let ?acq = "acquire_tensor_padded env (channels ?sh) (seq ?sh) (of_nat (cg_io_alloc_bytes ?cg)) p"
    have pos: "0 < channels ?sh" "0 < seq ?sh" using t(2) by (simp_all add: shape_ok_def)
    have step: "compile_groups B env g (gr # gs) cg p s =
        bind_res ?acq (\<lambda>(b, p). compile_groups B env g gs (put_buf ?cg (gr_output gr) b) p s')"
      using c(1) Some t(1) by (simp add: Let_def shape_of_def)
    show ?thesis
    proof (cases ?acq)
      case (Inl e)
      then show ?thesis unfolding step using acquire_tensor_fails [OF pos Inl] by (simp add: compiled_def)
    next
      case (Inr bp)
      obtain b p' where bp: "bp = (b, p')" by (cases bp)
      let ?cg' = "put_buf ?cg (gr_output gr) b"
      note b = pool_ok_tensor [OF assms(1) Cons.prems(4) Inr [unfolded bp]]
      have "compiled g inv H gs ?cg' (compile_groups B env g gs ?cg' p' s')"
      proof (rule Cons.IH)
        show "cg_ok g ?cg'" using cg_ok_put [OF Cons.prems(3) good(3) t(2) b(2-5)] .
        show "pool_ok p' (held ?cg' @ H)" using b(1) held_put [OF Cons.prems(3) good(3)] by simp
        show "\<forall>gr \<in> set gs. gr_output gr \<notin> dom (cg_ane_bufs ?cg')"
          using Cons.prems(5,6) by (auto simp: put_buf_def push_group_def image_iff)
      qed (use Cons.prems c(2) in auto)
      then show ?thesis
        unfolding step Inr bp
        by (auto simp: compiled_def put_buf_def push_group_def unload_all_def same_group_def prefix_def
            split: sum.splits option.splits)
    qed
  qed
qed

end


section \<open>Compiling a graph\<close>

definition graph_emittable :: "AneGraph \<Rightarrow> bool" where
  "graph_emittable g \<longleftrightarrow> (\<forall>n \<in> set (nodes g). node_emittable g n \<and> distinct (n_inputs n))"

lemma good_groups:
  assumes "built g" "fits g" "validate_graph g = Inr []" "graph_emittable g" "compute_groups g = Inr gs"
  shows "\<forall>gr \<in> set gs. good_group g gr \<and> gr_output gr < length (tensors g)" "distinct (map gr_output gs)" "graph_wf g"
proof -
  show wf: "graph_wf g" using assms(1,2) by (simp add: fits_def built_graph_wf)
  have inv: "pass_inv g (length (nodes g)) gs" using compute_groups_inv [OF wf] assms(5) by auto
  have ids: "concat (map node_ids gs) = [0..<length (nodes g)]" using inv by (simp add: pass_inv_def)
  have ok: "node_ids gr \<noteq> []" "gr_output gr = n_output (nodes g ! last (node_ids gr))" if "gr \<in> set gs" for gr
    using inv that by (auto simp: pass_inv_def group_ok_def)
  have bnd: "i < length (nodes g)" if "gr \<in> set gs" "i \<in> set (node_ids gr)" for gr i
    using group_scope(2) [OF wf inv that(1)] that(2) by simp
  show "\<forall>gr \<in> set gs. good_group g gr \<and> gr_output gr < length (tensors g)"
  proof
    fix gr assume gr: "gr \<in> set gs"
    have "hd (node_ids gr) < length (nodes g)" "last (node_ids gr) < length (nodes g)"
      using bnd [OF gr] hd_in_set last_in_set ok(1) [OF gr] by auto
    then show "good_group g gr \<and> gr_output gr < length (tensors g)"
      using assms gr bnd [OF gr] ok(2) [OF gr] wf_n_output [OF wf] by (auto simp: good_group_def graph_emittable_def)
  qed
  have "distinct (map (last \<circ> node_ids) gs)"
  proof -
    have "distinct (concat xs) \<Longrightarrow> [] \<notin> set xs \<Longrightarrow> distinct (map last xs)" for xs :: "nat list list"
      by (induction xs) (auto, metis IntI empty_iff last_in_set UN_I)
    moreover have "distinct (concat (map node_ids gs))" unfolding ids by simp
    moreover have "[] \<notin> set (map node_ids gs)" by (metis ok(1) imageE set_map)
    ultimately have "distinct (map last (map node_ids gs))" by blast
    then show ?thesis by simp
  qed
  then have "distinct (map (\<lambda>gr. n_output (nodes g ! last (node_ids gr))) gs)"
    using bnd ok(1) wf_output_inj [OF wf] by (auto simp: distinct_map inj_on_def)
  moreover have "map gr_output gs = map (\<lambda>gr. n_output (nodes g ! last (node_ids gr))) gs" using ok(2) by simp
  ultimately show "distinct (map gr_output gs)" by (simp only:)
qed

lemma foldl_max: "a \<le> foldl (\<lambda>a t. max a (f t)) a ts \<and> (\<forall>t \<in> set ts. f t \<le> foldl (\<lambda>a t. max a (f t)) a ts)"
  for a :: nat
proof (induction ts arbitrary: a)
  case (Cons t ts)
  show ?case using Cons.IH [of "max a (f t)"] by simp
qed simp

lemma max_bytes_ge: "t \<in> set (tensors g) \<Longrightarrow> unat (shape_bytes (t_shape t)) \<le> max_bytes_of g"
  using foldl_max [of 0 "\<lambda>t. unat (shape_bytes (t_shape t))" "tensors g"] by (simp add: max_bytes_of_def)

lemma io_alloc_spec:
  assumes "graph_wf g" "build_plan g = Inr plan" "tensors g \<noteq> []"
  defines "base \<equiv> round_up (max (max_bytes_of g) 49152) 64"
    and "fit \<equiv> \<lambda>a. \<forall>x \<in> set (graph_inputs g @ graph_outputs g). stride_fits a (shape_of g x)"
  shows "\<exists>j \<le> 40960. io_alloc g plan = Inr (base + 64 * j) \<and> (\<forall>i < j. \<not> fit (base + 64 * i)) \<and> (j < 40960 \<longrightarrow> fit (base + 64 * j))"
proof -
  have ids: "plan_input_ids plan = graph_inputs g" "plan_output_ids plan = graph_outputs g"
    using assms(2) by (auto simp: build_plan_def res_simps split: if_splits)
  have t: "hd (tensors g) \<in> set (tensors g)" using assms(3) by simp
  then have "shape_ok (t_shape (hd (tensors g)))"
    using wf_shape_ok [OF assms(1), of 0] assms(3) by (simp add: hd_conv_nth)
  then have "0 < unat (shape_bytes (t_shape (hd (tensors g))))" by (simp add: unat_shape_bytes shape_ok_def)
  then have "0 < max_bytes_of g" using max_bytes_ge [OF t] by simp
  then have "io_alloc g plan = stride_search g (graph_inputs g) (graph_outputs g) 40960 base"
    by (simp add: io_alloc_def ids base_def Let_def)
  moreover have "\<forall>x \<in> set (graph_inputs g @ graph_outputs g). x < length (tensors g)"
    using wf_input_bound [OF assms(1)] wf_graph_output_bound [OF assms(1)] by auto
  ultimately show ?thesis using stride_search_spec [OF assms(1), of _ _ 40960 base] unfolding fit_def by simp
qed


lemma folded_out: "x \<notin> k ` set ts \<Longrightarrow> foldl (\<lambda>m t. m(k t \<mapsto> f t)) m ts x = m x"
  by (induction ts arbitrary: m) auto

lemma folded_at:
  assumes "distinct (map k ts)" "t \<in> set ts"
  shows "foldl (\<lambda>m t. m(k t \<mapsto> f t)) m ts (k t) = Some (f t)"
  using assms
proof (induction ts arbitrary: m)
  case (Cons u us)
  show ?case
  proof (cases "t = u")
    case True
    then have "k t \<notin> k ` set us" using Cons.prems(1) by auto
    then show ?thesis using folded_out [of "k t" k us f "m(k t \<mapsto> f t)"] True by (simp del: fun_upd_apply) simp
  next
    case False
    then show ?thesis using Cons by simp
  qed
qed simp

lemma tensor_map_at:
  assumes "graph_wf g" "x < length (tensors g)"
  shows "foldl (\<lambda>m t. m(t_id t \<mapsto> f t)) Map.empty (tensors g) x = Some (f (tensors g ! x))"
proof -
  have i: "map t_id (tensors g) = [0..<length (tensors g)]" using assms(1) by (simp add: graph_wf_def)
  then have "map t_id (tensors g) ! x = x" using assms(2) by simp
  then have "t_id (tensors g ! x) = x" using assms(2) by simp
  moreover have "distinct (map t_id (tensors g))" unfolding i by simp
  ultimately show ?thesis using folded_at [of t_id "tensors g" "tensors g ! x" f] assms(2) by simp
qed



text \<open>
  C30. The allocation size shared by all I/O tensors covers every tensor, is a multiple of 64 and at
  least 49152 bytes, and is the least such candidate at which every graph input and output gets
  a channel stride that holds its row and is a multiple of 64, provided the search does not run
  out of its 40960 candidates.
\<close>

theorem io_allocation:
  assumes "built g" "fits g" "build_plan g = Inr plan" "tensors g \<noteq> []" "base = round_up (max (max_bytes_of g) 49152) 64"
  shows "\<exists>a. io_alloc g plan = Inr a \<and> 64 dvd a \<and> 49152 \<le> a \<and> base \<le> a \<and> a \<le> base + 64 * 40960
    \<and> (\<forall>t \<in> set (tensors g). unat (shape_bytes (t_shape t)) \<le> a)
    \<and> (a < base + 64 * 40960 \<longrightarrow> (\<forall>x \<in> set (graph_inputs g @ graph_outputs g). stride_fits a (shape_of g x)))
    \<and> (\<forall>a'. base \<le> a' \<and> a' < a \<and> 64 dvd a' \<longrightarrow>
        \<not> (\<forall>x \<in> set (graph_inputs g @ graph_outputs g). stride_fits a' (shape_of g x)))"
proof -
  let ?fit = "\<lambda>a. \<forall>x \<in> set (graph_inputs g @ graph_outputs g). stride_fits a (shape_of g x)"
  have "graph_wf g" using assms(1,2) by (simp add: fits_def built_graph_wf)
  from io_alloc_spec [OF this assms(3,4), folded assms(5)] obtain j where
    j: "j \<le> 40960" "io_alloc g plan = Inr (base + 64 * j)" "\<forall>i < j. \<not> ?fit (base + 64 * i)" "j < 40960 \<longrightarrow> ?fit (base + 64 * j)"
    by blast
  have b: "64 dvd base" "49152 \<le> base" "max_bytes_of g \<le> base" unfolding assms(5) round_up_def by simp_all
  have least: "\<not> ?fit a'" if a': "base \<le> a'" "a' < base + 64 * j" "64 dvd a'" for a'
  proof -
    obtain i where "a' = base + 64 * i" using a'(1,3) b(1) by (metis dvdE dvd_diff_nat le_add_diff_inverse)
    then show ?thesis using j(3) a'(2) by simp
  qed
  have "unat (shape_bytes (t_shape t)) \<le> base + 64 * j" if "t \<in> set (tensors g)" for t
    using max_bytes_ge [OF that] b(3) by simp
  then show ?thesis using j b least by (intro exI [of _ "base + 64 * j"]) simp
qed

theorem io_allocation_witness:
  "\<exists>plan a. build_plan mm_graph = Inr plan \<and> io_alloc mm_graph plan = Inr a \<and> 64 dvd a \<and> 49152 \<le> a"
proof -
  obtain plan where "build_plan mm_graph = Inr plan"
    using mm_validated(2) mm_groups by (simp add: build_plan_def)
  moreover have "tensors mm_graph \<noteq> []" by (simp add: mm_graph_def)
  ultimately show ?thesis using io_allocation [OF mm_built mm_validated(1) _ _ refl] by blast
qed

definition wide_shape :: "int \<Rightarrow> TensorShape" where
  "wide_shape c = mk_shape 1 c 1 16"

definition wide_calls :: "build_call list" where
  "wide_calls = [Add_input ''x'' (wide_shape 16384), Add_input ''y'' (wide_shape 12000),
     Add_op LIBANE_OP_RELU [0] (wide_shape 16384) None, Add_op LIBANE_OP_RELU [1] (wide_shape 12000) None,
     Mark_output 2 [], Mark_output 3 [] ]"

definition wide_graph :: AneGraph where
  "wide_graph = \<lparr>
     tensors =
       [\<lparr>t_id = 0, t_name = ''x'', t_shape = wide_shape 16384, t_producer = kInvalidNodeId\<rparr>,
        \<lparr>t_id = 1, t_name = ''y'', t_shape = wide_shape 12000, t_producer = kInvalidNodeId\<rparr>,
        \<lparr>t_id = 2, t_name = ''t2'', t_shape = wide_shape 16384, t_producer = 0\<rparr>,
        \<lparr>t_id = 3, t_name = ''t3'', t_shape = wide_shape 12000, t_producer = 1\<rparr>],
     nodes = [\<lparr>n_id = 0, n_op = LIBANE_OP_RELU, n_inputs = [0], n_output = 2, n_weights = [], n_weight_file = []\<rparr>,
       \<lparr>n_id = 1, n_op = LIBANE_OP_RELU, n_inputs = [1], n_output = 3, n_weights = [], n_weight_file = []\<rparr>],
     graph_inputs = [0, 1], graph_outputs = [2, 3], next_tensor_id = 4, next_node_id = 2\<rparr>"

lemma wide_built: "built wide_graph"
proof (rule run_build_built [OF built.built_empty])
  show "run_build wide_calls empty_graph = Inr wide_graph"
    by (simp add: wide_calls_def wide_graph_def add_input_def add_op_def mark_output_def validate_def
      wide_shape_def alloc_tensor_def empty_graph_def Let_def to_u32_def decimal_eval kInvalidNodeId_def
      signed_modulo_int_def)
qed

lemma wide_validated: "fits wide_graph" "validate_graph wide_graph = Inr []"
proof -
  show f: "fits wide_graph" by (simp add: fits_def wide_graph_def weights_fit_def)
  show "validate_graph wide_graph = Inr []"
    unfolding validate_graph_iff [OF wide_built f]
    by (simp add: wide_graph_def node_requires_def op_requires_def shape_of_def wide_shape_def unary_ops_def)
qed

lemma no_common_stride:
  assumes "524288 \<le> t" "t < 3145728" "64 dvd t div 16384"
  shows "\<not> 64 dvd t div (12000 :: nat)"
proof
  obtain q where q: "t div 16384 = 64 * q" using assms(3) by (elim dvdE)
  have b: "t div 16384 * 16384 \<le> t" "t < t div 16384 * 16384 + 16384" by (simp_all add: dividend_less_div_times)
  then have "q = 1 \<or> q = 2" using q assms(1,2) by linarith
  then have range: "1048576 \<le> t \<and> t < 1064960 \<or> 2097152 \<le> t \<and> t < 2113536" using b q by auto
  assume "64 dvd t div 12000"
  then obtain r where r: "t div 12000 = 64 * r" by (elim dvdE)
  have d: "t div 12000 * 12000 \<le> t" "t < t div 12000 * 12000 + 12000" by (simp_all add: dividend_less_div_times)
  have "r \<le> 1 \<or> r = 2 \<or> 3 \<le> r" by linarith
  then show False using d range unfolding r by (elim disjE conjE) linarith+
qed

text \<open>
  C31. The search can give up: on the validated graph of two independent activations with 16384 and
  12000 channels no candidate fits both, and the size it is left with violates the
  stride rule for the second input.
\<close>

theorem stride_search_gives_up:
  "built wide_graph \<and> validate_graph wide_graph = Inr []
   \<and> (\<exists>plan a. build_plan wide_graph = Inr plan \<and> io_alloc wide_graph plan = Inr a
        \<and> 1 \<in> set (graph_inputs wide_graph) \<and> \<not> stride_fits a (shape_of wide_graph 1))"
proof -
  have wf: "graph_wf wide_graph" using wide_built wide_validated(1) by (simp add: fits_def built_graph_wf)
  obtain gs where "compute_groups wide_graph = Inr gs" using compute_groups_inv [OF wf] by blast
  then obtain plan where plan: "build_plan wide_graph = Inr plan" using wide_validated(2) by (simp add: build_plan_def)
  have ok: "shape_ok (wide_shape 16384)" "shape_ok (wide_shape 12000)" by (simp_all add: shape_ok_def wide_shape_def)
  have "max_bytes_of wide_graph = 524288"
    using unat_shape_bytes [OF ok(1)] unat_shape_bytes [OF ok(2)]
    by (simp add: max_bytes_of_def wide_graph_def) (simp add: wide_shape_def)
  then have base: "round_up (max (max_bytes_of wide_graph) 49152) 64 = 524288" by (simp add: round_up_def)
  have ids: "graph_inputs wide_graph = [0, 1]" "tensors wide_graph \<noteq> []" by (simp_all add: wide_graph_def)
  let ?fit = "\<lambda>a. \<forall>x \<in> set (graph_inputs wide_graph @ graph_outputs wide_graph). stride_fits a (shape_of wide_graph x)"
  obtain j where j: "j \<le> 40960" "io_alloc wide_graph plan = Inr (524288 + 64 * j)" "j < 40960 \<longrightarrow> ?fit (524288 + 64 * j)"
    using io_alloc_spec [OF wf plan ids(2)] unfolding base by blast
  have sh: "shape_of wide_graph 0 = wide_shape 16384" "shape_of wide_graph 1 = wide_shape 12000"
    by (simp_all add: wide_graph_def shape_of_def)
  have "\<not> ?fit t" if "524288 \<le> t" "t < 3145728" for t
  proof
    assume "?fit t"
    then have "stride_fits t (wide_shape 16384)" "stride_fits t (wide_shape 12000)" unfolding ids by (simp_all add: sh [unfolded One_nat_def])
    then show False using no_common_stride [OF that] by (simp add: stride_fits_def wide_shape_def)
  qed
  from this [of "524288 + 64 * j"] have "j = 40960" using j(1,3) by linarith
  then have "io_alloc wide_graph plan = Inr 3145728" using j(2) by simp
  moreover have "\<not> stride_fits 3145728 (shape_of wide_graph 1)" using sh by (simp add: stride_fits_def wide_shape_def)
  ultimately show ?thesis using wide_built wide_validated(2) plan ids(1) by simp
qed

end
