(* ===== verification/GraphExecutor.thy ===== *)
theory GraphExecutor
  imports GraphCompiler
begin

text \<open>
  \<open>GraphExecutor::execute\<close> (src/graph/graph_executor.cpp) in a build with IOSurface. The two
  dispatch calls of the runtime are parameters over memory contents: the surfaces of a program in
  and, unless it fails, the contents of its output surfaces back; the null surface of a buffer
  without IOSurface is \<open>None\<close>. A caller's input pointer is the bytes it points to, and the
  result lists the bytes written to the output pointers. \<open>tmp_input_bufs\<close> is an association list
  in insertion order; the iteration order of the code's \<open>unordered_map\<close> decides only
  the order of the final releases. Client sequence lengths are not negative.
\<close>

record exec_env =
  ane_execute_multi :: "AneProgram \<Rightarrow> byte list option list \<Rightarrow> byte list option list \<Rightarrow> byte list list option"
  ane_execute_client :: "AneProgram \<Rightarrow> byte list \<Rightarrow> nat \<Rightarrow> byte list option"

type_synonym tmp_bufs = "(TensorId \<times> AneBuffer) list"

definition iosurface :: "AneBuffer \<Rightarrow> byte list option" where
  "iosurface b = (if b_iosurface b then b_mem b else None)"

section \<open>Graph inputs\<close>

text \<open>\<open>tmp_input_bufs[tid] = std::move(buf)\<close> destroys a buffer already stored under the id.\<close>

definition put_tmp :: "TensorId \<Rightarrow> AneBuffer \<Rightarrow> tmp_bufs \<times> BufferPool \<Rightarrow> tmp_bufs \<times> BufferPool" where
  "put_tmp x b tp = (let (tmp, p) = tp in case map_of tmp x of
       None \<Rightarrow> (tmp @ [(x, b)], p)
     | Some old \<Rightarrow> (map (\<lambda>(y, c). (y, if y = x then b else c)) tmp, p\<lparr>freed := insert (b_id old) (freed p)\<rparr>))"

fun acquire_inputs ::
  "alloc_env \<Rightarrow> CompiledGraph \<Rightarrow> (TensorId \<times> byte list \<times> size_t) list \<Rightarrow> tmp_bufs \<times> BufferPool
     \<Rightarrow> (bool \<times> tmp_bufs \<times> BufferPool) res" where
  "acquire_inputs env cg [] (tmp, p) = Inr (True, tmp, p)"
| "acquire_inputs env cg ((x, src, n) # ins) (tmp, p) =
     (if cg_tensor_bytes cg x = None then Inr (False, tmp, p)
      else case tensor_shape cg x of
        None \<Rightarrow> Inr (False, tmp, p)
      | Some sh \<Rightarrow>
          bind_res (acquire_tensor_padded env (channels sh) (seq sh) (of_nat (cg_io_alloc_bytes cg)) p) (\<lambda>(b, p).
          bind_res (copy_from src n b) (\<lambda>b. acquire_inputs env cg ins (put_tmp x b (tmp, p)))))"

text \<open>The destructor of \<open>PoolGuard\<close>.\<close>

definition release_tmp :: "tmp_bufs \<Rightarrow> BufferPool \<Rightarrow> BufferPool" where
  "release_tmp tmp p = foldl (\<lambda>p xb. release (Some (snd xb)) p) p tmp"

section \<open>Groups\<close>

text \<open>The buffer of a group input: a temporary one, or that of an earlier group.\<close>

definition input_buf :: "CompiledGraph \<Rightarrow> tmp_bufs \<Rightarrow> TensorId \<Rightarrow> AneBuffer option" where
  "input_buf cg tmp x = (case map_of tmp x of Some b \<Rightarrow> Some b | None \<Rightarrow> ane_buf cg x)"

text \<open>Copying the first \<open>n\<close> bytes of each of \<open>rows\<close> rows out of, and back into, rows of \<open>stride\<close> bytes.\<close>

definition extract_rows :: "nat \<Rightarrow> nat \<Rightarrow> nat \<Rightarrow> byte list \<Rightarrow> byte list res" where
  "extract_rows rows stride n full =
     bind_res (map_res (\<lambda>c. if c * stride + n \<le> length full then Inr (get_bytes (c * stride) n full)
                         else Inl (Undefined_behaviour ''memcpy out of bounds'')) [0..<rows])
       (\<lambda>xs. Inr (concat xs))"

fun insert_rows :: "nat list \<Rightarrow> nat \<Rightarrow> nat \<Rightarrow> byte list \<Rightarrow> byte list \<Rightarrow> byte list res" where
  "insert_rows [] stride n src full = Inr full"
| "insert_rows (j # js) stride n src full =
     (if j * n + n \<le> length src \<and> j * stride + n \<le> length full
      then insert_rows js stride n src (put_bytes (j * stride) (get_bytes (j * n) n src) full)
      else Inl (Undefined_behaviour ''memcpy out of bounds''))"

text \<open>Path B, the dispatch through the client.\<close>

definition exec_client :: "exec_env \<Rightarrow> CompiledPlanGroup \<Rightarrow> tmp_bufs \<Rightarrow> CompiledGraph \<Rightarrow> (bool \<times> CompiledGraph) res" where
  "exec_client ee gr tmp cg =
     (if cpg_inputs gr = [] then Inl (Undefined_behaviour ''group.inputs[0]'')
      else let prog = cpg_program gr; in_tid = cpg_inputs gr ! 0 in
        case (tensor_shape cg in_tid, tensor_shape cg (cpg_output gr)) of
          (Some ish, Some osh) \<Rightarrow>
            (let in_ch = nat (channels ish); out_ch = nat (channels osh);
                 in_stride = nat (seq ish) * 2; out_stride = nat (seq osh) * 2;
                 cl_in = nat (client_in_seq prog) * 2; cl_out = nat (client_out_seq prog) * 2
             in case input_buf cg tmp in_tid of
                  None \<Rightarrow> Inr (False, cg)
                | Some b \<Rightarrow>
                    bind_res (copy_to (of_nat (in_ch * in_stride)) b) (\<lambda>full_in.
                    bind_res (extract_rows in_ch in_stride cl_in full_in) (\<lambda>cl_in_data.
                    case ane_execute_client ee prog cl_in_data (out_ch * cl_out) of
                      None \<Rightarrow> Inr (False, cg)
                    | Some cl_out_data \<Rightarrow>
                        bind_res (insert_rows [0..<out_ch] out_stride cl_out cl_out_data (replicate (out_ch * out_stride) 0)) (\<lambda>full_out.
                        case ane_buf cg (cpg_output gr) of
                          None \<Rightarrow> Inr (False, cg)
                        | Some ob \<Rightarrow>
                            bind_res (copy_from full_out (of_nat (out_ch * out_stride)) ob) (\<lambda>ob.
                              Inr (True, put_buf cg (cpg_output gr) ob))))))
        | _ \<Rightarrow> Inr (False, cg))"

fun collect :: "'a option list \<Rightarrow> 'a list option" where
  "collect [] = Some []"
| "collect (None # xs) = None"
| "collect (Some x # xs) = (case collect xs of None \<Rightarrow> None | Some ys \<Rightarrow> Some (x # ys))"

text \<open>Path A, the dispatch over surfaces.\<close>

definition set_surface :: "byte list list \<Rightarrow> AneBuffer \<Rightarrow> AneBuffer" where
  "set_surface ms b = (if b_iosurface b \<and> ms \<noteq> [] then b\<lparr>b_mem := Some (hd ms)\<rparr> else b)"

definition exec_surfaces :: "exec_env \<Rightarrow> CompiledPlanGroup \<Rightarrow> tmp_bufs \<Rightarrow> CompiledGraph \<Rightarrow> (bool \<times> CompiledGraph) res" where
  "exec_surfaces ee gr tmp cg =
     (case collect (map (input_buf cg tmp) (cpg_inputs gr)) of
        None \<Rightarrow> Inr (False, cg)
      | Some bufs \<Rightarrow> (case ane_buf cg (cpg_output gr) of
          None \<Rightarrow> Inr (False, cg)
        | Some ob \<Rightarrow> (case ane_execute_multi ee (cpg_program gr) (map iosurface bufs) [iosurface ob] of
            None \<Rightarrow> Inr (False, cg)
          | Some ms \<Rightarrow> Inr (True, put_buf cg (cpg_output gr) (set_surface ms ob)))))"

fun exec_groups :: "exec_env \<Rightarrow> CompiledPlanGroup list \<Rightarrow> tmp_bufs \<Rightarrow> CompiledGraph \<Rightarrow> (bool \<times> CompiledGraph) res" where
  "exec_groups ee [] tmp cg = Inr (True, cg)"
| "exec_groups ee (gr # grs) tmp cg =
     bind_res (if objc_client_model (cpg_program gr) then exec_client ee gr tmp cg else exec_surfaces ee gr tmp cg)
       (\<lambda>(ok, cg). if ok then exec_groups ee grs tmp cg else Inr (False, cg))"

section \<open>Execution\<close>

fun copy_outputs :: "CompiledGraph \<Rightarrow> (TensorId \<times> size_t) list \<Rightarrow> (bool \<times> byte list list) res" where
  "copy_outputs cg [] = Inr (True, [])"
| "copy_outputs cg ((x, n) # outs) =
     (case ane_buf cg x of
        None \<Rightarrow> Inr (False, [])
      | Some b \<Rightarrow> bind_res (copy_to n b) (\<lambda>d. bind_res (copy_outputs cg outs) (\<lambda>(ok, ds). Inr (ok, d # ds))))"

definition execute ::
  "exec_env \<Rightarrow> alloc_env \<Rightarrow> CompiledGraph \<Rightarrow> byte list list \<Rightarrow> size_t list \<Rightarrow> nat \<Rightarrow> size_t list \<Rightarrow> BufferPool
     \<Rightarrow> (bool \<times> byte list list \<times> CompiledGraph \<times> BufferPool) res" where
  "execute ee env cg input_ptrs input_bytes output_count output_bytes p =
     (if length input_ptrs \<noteq> length (cg_input_ids cg) \<or> length input_bytes \<noteq> length (cg_input_ids cg)
        \<or> output_count \<noteq> length (cg_output_ids cg) \<or> length output_bytes \<noteq> length (cg_output_ids cg)
      then Inr (False, [], cg, p)
      else bind_res (acquire_inputs env cg (zip (cg_input_ids cg) (zip input_ptrs input_bytes)) ([], p)) (\<lambda>(ok, tmp, p).
        if \<not> ok then Inr (False, [], cg, release_tmp tmp p)
        else bind_res (exec_groups ee (cg_groups cg) tmp cg) (\<lambda>(ok, cg).
          if \<not> ok then Inr (False, [], cg, release_tmp tmp p)
          else bind_res (copy_outputs cg (zip (cg_output_ids cg) output_bytes)) (\<lambda>(ok, outs).
            Inr (ok, outs, cg, release_tmp tmp p)))))"


section \<open>Buffers that hold a tensor\<close>

definition tbytes :: "AneGraph \<Rightarrow> TensorId \<Rightarrow> size_t" where
  "tbytes g x = shape_bytes (shape_of g x)"

definition holds_tensor :: "AneGraph \<Rightarrow> TensorId \<Rightarrow> AneBuffer \<Rightarrow> bool" where
  "holds_tensor g x b \<longleftrightarrow> b_tensor_layout b \<and> b_tensor_channels b = channels (shape_of g x)
     \<and> b_tensor_seq b = seq (shape_of g x) \<and> tbytes g x \<le> b_bytes b \<and> buf_ok b"

definition contents :: "AneGraph \<Rightarrow> TensorId \<Rightarrow> AneBuffer \<Rightarrow> byte list" where
  "contents g x b = take (unat (tbytes g x)) (the (b_mem b))"

lemma holds_mem:
  assumes "holds_tensor g x b"
  obtains m where "b_mem b = Some m" "unat (tbytes g x) \<le> length m" "unat (b_bytes b) \<le> length m"
proof -
  have "unat (tbytes g x) \<le> unat (b_bytes b)" "buf_ok b" using assms by (simp_all add: holds_tensor_def word_le_nat_alt)
  then show ?thesis using that by (auto simp: buf_ok_def)
qed

lemma length_contents: "holds_tensor g x b \<Longrightarrow> length (contents g x b) = unat (tbytes g x)"
  by (erule holds_mem) (simp add: contents_def)

lemma tensor_copy_to:
  assumes "holds_tensor g x b" "shape_ok (shape_of g x)"
  shows "copy_to (tbytes g x) b = Inr (contents g x b)"
proof -
  obtain m where "b_mem b = Some m" "unat (tbytes g x) \<le> length m" using holds_mem [OF assms(1)] .
  then show ?thesis
    using assms(1) tensor_bytes_shape [OF assms(2)]
    by (simp add: copy_to_def contents_def holds_tensor_def tbytes_def Let_def)
qed

lemma tensor_copy_from:
  assumes "holds_tensor g x b" "shape_ok (shape_of g x)" "length src = unat (tbytes g x)"
  obtains b' where "copy_from src (tbytes g x) b = Inr b'" "b_id b' = b_id b" "b_iosurface b' = b_iosurface b"
    "holds_tensor g x b'" "contents g x b' = src"
proof -
  obtain m where m: "b_mem b = Some m" "unat (tbytes g x) \<le> length m" "unat (b_bytes b) \<le> length m"
    using holds_mem [OF assms(1)] .
  have "copy_from src (tbytes g x) b = Inr (b\<lparr>b_mem := Some (src @ drop (length src) m)\<rparr>)"
    using assms m tensor_bytes_shape [OF assms(2)]
    by (simp add: copy_from_def holds_tensor_def memcpy_into_def tbytes_def Let_def)
  then show ?thesis
    using that assms m by (simp add: holds_tensor_def contents_def buf_ok_def)
qed

section \<open>Refilled buffers\<close>

text \<open>The same graph with other buffer contents.\<close>

definition buf_key :: "CompiledGraph \<Rightarrow> TensorId \<Rightarrow> (nat \<times> bool) option" where
  "buf_key cg x = map_option (\<lambda>b. (b_id b, b_iosurface b)) (cg_ane_bufs cg x)"

definition refilled :: "AneGraph \<Rightarrow> CompiledGraph \<Rightarrow> CompiledGraph \<Rightarrow> bool" where
  "refilled g cg cg' \<longleftrightarrow> (\<exists>bufs. cg' = cg\<lparr>cg_ane_bufs := bufs\<rparr>) \<and> (\<forall>x. buf_key cg' x = buf_key cg x)
     \<and> (\<forall>x b. cg_ane_bufs cg' x = Some b \<longrightarrow> holds_tensor g x b)"

lemma buf_key_Some: "cg_ane_bufs cg x = Some b \<Longrightarrow> buf_key cg x = Some (b_id b, b_iosurface b)"
  by (simp add: buf_key_def)

lemma buf_key_None: "buf_key cg x = None \<longleftrightarrow> cg_ane_bufs cg x = None"
  by (simp add: buf_key_def)

lemma buf_key_put: "buf_key (put_buf cg x b) y = (if y = x then Some (b_id b, b_iosurface b) else buf_key cg y)"
  by (simp add: buf_key_def put_buf_def)

lemma loaded_holds: "loaded g cg \<Longrightarrow> cg_ane_bufs cg x = Some b \<Longrightarrow> holds_tensor g x b"
proof -
  assume l: "loaded g cg" and b: "cg_ane_bufs cg x = Some b"
  have ok: "cg_ok g cg" using l by (simp add: loaded_def)
  have "b \<in> set (held cg)" using b unfolding held_ran [OF ok, symmetric] by (auto simp: ran_def)
  then show ?thesis using l ok b by (auto simp: loaded_def cg_ok_def holds_tensor_def tbytes_def)
qed

lemma refilled_refl: "loaded g cg \<Longrightarrow> refilled g cg cg"
  using loaded_holds by (auto simp: refilled_def intro: exI [of _ "cg_ane_bufs cg"])

lemma refilled_trans: "refilled g a b \<Longrightarrow> refilled g b c \<Longrightarrow> refilled g a c"
  by (auto simp: refilled_def)

lemma refilled_put:
  assumes "refilled g cg cg1" "cg_ane_bufs cg1 x = Some b" "b_id b' = b_id b" "b_iosurface b' = b_iosurface b" "holds_tensor g x b'"
  shows "refilled g cg (put_buf cg1 x b')"
  unfolding refilled_def
proof (intro conjI allI impI)
  show "\<exists>bufs. put_buf cg1 x b' = cg\<lparr>cg_ane_bufs := bufs\<rparr>" using assms(1) by (auto simp: refilled_def put_buf_def)
  show "buf_key (put_buf cg1 x b') y = buf_key cg y" for y
    using assms(1) buf_key_Some [OF assms(2)] assms(3,4) by (auto simp: refilled_def buf_key_put)
  show "holds_tensor g y c" if "cg_ane_bufs (put_buf cg1 x b') y = Some c" for y c
    using that assms(1,5) by (auto simp: refilled_def put_buf_def split: if_splits)
qed

lemma refilled_fields:
  assumes "refilled g cg cg'"
  shows "cg_groups cg' = cg_groups cg" "cg_tensor_bytes cg' = cg_tensor_bytes cg" "cg_tensor_shapes cg' = cg_tensor_shapes cg"
    "cg_input_ids cg' = cg_input_ids cg" "cg_output_ids cg' = cg_output_ids cg" "dom (cg_ane_bufs cg') = dom (cg_ane_bufs cg)"
proof -
  obtain bufs where eq: "cg' = cg\<lparr>cg_ane_bufs := bufs\<rparr>" using assms by (auto simp: refilled_def)
  show "cg_groups cg' = cg_groups cg" "cg_tensor_bytes cg' = cg_tensor_bytes cg" "cg_tensor_shapes cg' = cg_tensor_shapes cg"
    "cg_input_ids cg' = cg_input_ids cg" "cg_output_ids cg' = cg_output_ids cg"
    by (simp_all add: eq)
  show "dom (cg_ane_bufs cg') = dom (cg_ane_bufs cg)"
    using assms by (auto simp: refilled_def dom_def simp flip: buf_key_None)
qed

lemma refilled_held:
  assumes "refilled g cg cg'" "cg_ok g cg"
  shows "map b_id (held cg') = map b_id (held cg)" "\<forall>b \<in> set (held cg'). buf_ok b" "cg_ok g cg'"
proof -
  note f = refilled_fields [OF assms(1)]
  have one: "b_id (the (cg_ane_bufs cg' (cpg_output c))) = b_id (the (cg_ane_bufs cg (cpg_output c)))" if "c \<in> set (cg_groups cg)" for c
  proof -
    have "cpg_output c \<in> dom (cg_ane_bufs cg)" using assms(2) that by (simp add: cg_ok_def)
    then obtain b where "buf_key cg (cpg_output c) = Some (b_id b, b_iosurface b)" "cg_ane_bufs cg (cpg_output c) = Some b"
      using buf_key_Some by blast
    then have "buf_key cg' (cpg_output c) = Some (b_id b, b_iosurface b)" "cg_ane_bufs cg (cpg_output c) = Some b"
      using assms(1) by (simp_all add: refilled_def)
    then show ?thesis by (auto simp: buf_key_def)
  qed
  then show "map b_id (held cg') = map b_id (held cg)" by (simp add: held_def f(1) rev_map [symmetric])
  show ok: "cg_ok g cg'"
    using assms f by (simp add: cg_ok_def refilled_def holds_tensor_def tbytes_def)
  show "\<forall>b \<in> set (held cg'). buf_ok b"
    using assms(1) unfolding held_ran [OF ok, symmetric] by (auto simp: ran_def refilled_def holds_tensor_def)
qed

lemma refilled_loaded: "refilled g cg cg' \<Longrightarrow> loaded g cg \<Longrightarrow> loaded g cg'"
  using refilled_held [of g cg cg'] refilled_fields [of g cg cg'] by (simp add: loaded_def)

lemma pool_ok_refill:
  assumes "pool_ok p H" "map b_id H' = map b_id H" "\<forall>b \<in> set H'. buf_ok b"
  shows "pool_ok p H'"
proof -
  have "b_id ` set H' = b_id ` set H" by (metis assms(2) set_map)
  then show ?thesis using assms by (auto simp: pool_ok_def pool_at_def)
qed

lemma pool_ok_perm: "mset H' = mset H \<Longrightarrow> pool_ok p H \<Longrightarrow> pool_ok p H'"
proof -
  assume m: "mset H' = mset H" and ok: "pool_ok p H"
  have "set H' = set H" "distinct (map b_id H') = distinct (map b_id H)"
    using m by (metis set_mset_mset) (metis m mset_eq_imp_distinct_iff mset_map)
  then show ?thesis using ok by (simp add: pool_ok_def pool_at_def)
qed


section \<open>Running the groups\<close>

lemma extract_rows_eq:
  assumes "n \<le> stride" "length full = rows * stride"
  shows "extract_rows rows stride n full = Inr (concat (map (\<lambda>c. get_bytes (c * stride) n full) [0..<rows]))"
proof -
  have "c * stride + n \<le> length full" if "c < rows" for c
  proof -
    have "Suc c * stride \<le> rows * stride" using that by (intro mult_le_mono1) simp
    then show ?thesis using assms by simp
  qed
  then show ?thesis unfolding extract_rows_def by (subst map_res_total) simp_all
qed

text \<open>A result of \<open>n\<close> bytes per row, spread over rows of \<open>stride\<close> bytes.\<close>

definition padded_rows :: "nat list \<Rightarrow> nat \<Rightarrow> nat \<Rightarrow> byte list \<Rightarrow> byte list" where
  "padded_rows js stride n src = concat (map (\<lambda>j. get_bytes (j * n) n src @ replicate (stride - n) 0) js)"

lemma insert_rows_from:
  assumes "n \<le> stride" "length src = rows * n" "length pre = i * stride" "i \<le> rows"
  shows "insert_rows [i..<rows] stride n src (pre @ replicate ((rows - i) * stride) 0)
    = Inr (pre @ padded_rows [i..<rows] stride n src)"
  using assms(3,4)
proof (induction "rows - i" arbitrary: i pre)
  case 0
  then show ?case by (simp add: padded_rows_def)
next
  case (Suc k)
  then have i: "i < rows" by simp
  let ?row = "get_bytes (i * n) n src @ replicate (stride - n) 0"
  have "Suc i * n \<le> rows * n" using i by (intro mult_le_mono1) simp
  then have src: "i * n + n \<le> length src" using assms(2) by simp
  have split: "replicate ((rows - i) * stride) 0 = replicate n 0 @ replicate (stride - n) 0 @ replicate ((rows - Suc i) * stride) (0 :: byte)"
  proof -
    have "(rows - i) * stride = n + ((stride - n) + (rows - Suc i) * stride)"
      using i assms(1) by (metis Suc_diff_Suc add.assoc le_add_diff_inverse mult_Suc)
    then show ?thesis by (simp only: replicate_add)
  qed
  have put: "put_bytes (i * stride) (get_bytes (i * n) n src) (pre @ replicate ((rows - i) * stride) 0)
      = (pre @ ?row) @ replicate ((rows - Suc i) * stride) 0"
    unfolding split using src Suc.prems(1) by (subst put_bytes_mid) simp_all
  have "n \<le> (rows - i) * stride" using i assms(1) by (cases "rows - i") auto
  then have room: "i * stride + n \<le> length (pre @ replicate ((rows - i) * stride) (0 :: byte))"
    by (simp only: length_append length_replicate Suc.prems(1) add_le_cancel_left)
  have len: "length (pre @ ?row) = Suc i * stride" using Suc.prems(1) src assms(1) by simp
  have "insert_rows [Suc i..<rows] stride n src ((pre @ ?row) @ replicate ((rows - Suc i) * stride) 0)
      = Inr ((pre @ ?row) @ padded_rows [Suc i..<rows] stride n src)"
    using Suc.hyps(1) [OF _ len] Suc.hyps(2) i by simp
  then show ?case using src room put i by (simp add: upt_conv_Cons padded_rows_def)
qed

lemma insert_rows_eq:
  assumes "n \<le> stride" "length src = rows * n"
  shows "insert_rows [0..<rows] stride n src (replicate (rows * stride) 0) = Inr (padded_rows [0..<rows] stride n src)"
  using insert_rows_from [OF assms, of "[]" 0] by simp

lemma length_padded_rows: "n \<le> stride \<Longrightarrow> \<forall>j \<in> set js. j * n + n \<le> length src \<Longrightarrow> length (padded_rows js stride n src) = length js * stride"
  by (induction js) (auto simp: padded_rows_def)

text \<open>What the runtime documents: outputs have the size of the buffers passed for them.\<close>

definition runtime_sized :: "exec_env \<Rightarrow> bool" where
  "runtime_sized ee \<longleftrightarrow>
     (\<forall>prog ins outs ms. ane_execute_multi ee prog ins outs = Some ms \<longrightarrow>
        list_all2 (\<lambda>out m. \<forall>old. out = Some old \<longrightarrow> length m = length old) outs ms)
   \<and> (\<forall>prog src n d. ane_execute_client ee prog src n = Some d \<longrightarrow> length d = n)"

definition client_fits :: "AneGraph \<Rightarrow> CompiledPlanGroup \<Rightarrow> bool" where
  "client_fits g gr \<longleftrightarrow> (objc_client_model (cpg_program gr) \<longrightarrow> cpg_inputs gr \<noteq> []
     \<and> client_in_seq (cpg_program gr) \<le> seq (shape_of g (cpg_inputs gr ! 0))
     \<and> client_out_seq (cpg_program gr) \<le> seq (shape_of g (cpg_output gr)))"

definition tmp_holds :: "AneGraph \<Rightarrow> tmp_bufs \<Rightarrow> bool" where
  "tmp_holds g tmp \<longleftrightarrow> (\<forall>(x, b) \<in> set tmp. holds_tensor g x b)"

lemma input_buf_holds: "loaded g cg \<Longrightarrow> tmp_holds g tmp \<Longrightarrow> input_buf cg tmp x = Some b \<Longrightarrow> holds_tensor g x b"
  using loaded_holds map_of_SomeD by (fastforce simp: input_buf_def tmp_holds_def ane_buf_def split: option.splits)

lemma tbytes_rows:
  assumes "shape_ok (shape_of g x)"
  shows "of_nat (nat (channels (shape_of g x)) * (nat (seq (shape_of g x)) * 2)) = tbytes g x"
    "unat (tbytes g x) = nat (channels (shape_of g x)) * (nat (seq (shape_of g x)) * 2)"
proof -
  show u: "unat (tbytes g x) = nat (channels (shape_of g x)) * (nat (seq (shape_of g x)) * 2)"
    using assms unat_shape_bytes [OF assms] by (simp add: tbytes_def shape_ok_def nat_mult_distrib)
  show "of_nat (nat (channels (shape_of g x)) * (nat (seq (shape_of g x)) * 2)) = tbytes g x"
    unfolding u [symmetric] by simp
qed


definition first_columns :: "AneGraph \<Rightarrow> TensorId \<Rightarrow> nat \<Rightarrow> byte list \<Rightarrow> byte list" where
  "first_columns g x n d = concat (map (\<lambda>c. get_bytes (c * (nat (seq (shape_of g x)) * 2)) n d) [0..<nat (channels (shape_of g x))])"

lemma exec_client_spec:
  assumes "graph_wf g" "loaded g cg" "tmp_holds g tmp" "runtime_sized ee" "client_fits g gr" "objc_client_model (cpg_program gr)"
    "\<forall>x \<in> set (cpg_inputs gr). x < length (tensors g)" "cpg_output gr < length (tensors g)"
  defines "x \<equiv> cpg_inputs gr ! 0" and "y \<equiv> cpg_output gr" and "prog \<equiv> cpg_program gr"
  shows "\<exists>ok cg'. exec_client ee gr tmp cg = Inr (ok, cg') \<and> refilled g cg cg' \<and> (ok \<longrightarrow>
    (\<exists>b b' r. input_buf cg tmp x = Some b
      \<and> ane_execute_client ee prog (first_columns g x (nat (client_in_seq prog) * 2) (contents g x b))
          (nat (channels (shape_of g y)) * (nat (client_out_seq prog) * 2)) = Some r
      \<and> cg_ane_bufs cg' y = Some b' \<and> contents g y b'
          = padded_rows [0..<nat (channels (shape_of g y))] (nat (seq (shape_of g y)) * 2) (nat (client_out_seq prog) * 2) r))"
proof -
  have fit: "cpg_inputs gr \<noteq> []" "client_in_seq prog \<le> seq (shape_of g x)" "client_out_seq prog \<le> seq (shape_of g y)"
    using assms(5,6) by (simp_all add: client_fits_def x_def y_def prog_def)
  have bnd: "x < length (tensors g)" "y < length (tensors g)" using assms(7,8) fit(1) by (simp_all add: x_def y_def)
  have sh: "tensor_shape cg x = Some (shape_of g x)" "tensor_shape cg y = Some (shape_of g y)"
    using assms(2) bnd by (simp_all add: loaded_def tensor_shape_def)
  have ok: "shape_ok (shape_of g x)" "shape_ok (shape_of g y)"
    using wf_shape_ok [OF assms(1)] bnd by (simp_all add: shape_of_def)
  let ?ic = "nat (channels (shape_of g x))" and ?oc = "nat (channels (shape_of g y))"
    and ?is = "nat (seq (shape_of g x)) * 2" and ?os = "nat (seq (shape_of g y)) * 2"
    and ?ci = "nat (client_in_seq prog) * 2" and ?co = "nat (client_out_seq prog) * 2"
  have le: "?ci \<le> ?is" "?co \<le> ?os" using fit(2,3) by (simp_all add: nat_mono)
  note unf = exec_client_def fit(1) x_def [symmetric] y_def [symmetric] prog_def [symmetric] sh Let_def
  note refl = refilled_refl [OF assms(2)]
  show ?thesis
  proof (cases "input_buf cg tmp x")
    case None
    then show ?thesis using refl by (simp add: ex_bool_eq unf)
  next
    case (Some b)
    have hb: "holds_tensor g x b" using input_buf_holds [OF assms(2,3) Some] .
    note cp = tensor_copy_to [OF hb ok(1)]
    have ex: "extract_rows ?ic ?is ?ci (contents g x b) = Inr (first_columns g x ?ci (contents g x b))"
      unfolding first_columns_def using extract_rows_eq [OF le(1)] length_contents [OF hb] tbytes_rows(2) [OF ok(1)] by simp
    let ?run = "ane_execute_client ee prog (first_columns g x ?ci (contents g x b)) (?oc * ?co)"
    show ?thesis
    proof (cases ?run)
      case None
      then show ?thesis using refl \<open>input_buf cg tmp x = Some b\<close> by (simp add: ex_bool_eq unf tbytes_rows(1) [OF ok(1), simplified] cp ex)
    next
      case r: (Some r)
      have len: "length r = ?oc * ?co" using assms(4) r by (simp add: runtime_sized_def)
      let ?full = "padded_rows [0..<?oc] ?os ?co r"
      have "j * ?co + ?co \<le> length r" if "j < ?oc" for j
        using mult_le_mono1 [of "Suc j" ?oc ?co] that len by simp
      then have flen: "length ?full = unat (tbytes g y)"
        using length_padded_rows [OF le(2), of "[0..<?oc]" r] tbytes_rows(2) [OF ok(2)] by simp
      show ?thesis
      proof (cases "cg_ane_bufs cg y")
        case None
        then show ?thesis using refl \<open>input_buf cg tmp x = Some b\<close> r len
          by (simp add: ex_bool_eq unf tbytes_rows(1) [OF ok(1), simplified] cp ex insert_rows_eq [OF le(2)] ane_buf_def)
      next
        case (Some ob)
        obtain b' where b': "copy_from ?full (tbytes g y) ob = Inr b'" "b_id b' = b_id ob" "b_iosurface b' = b_iosurface ob"
          "holds_tensor g y b'" "contents g y b' = ?full"
          using tensor_copy_from [OF loaded_holds [OF assms(2) Some] ok(2) flen] .
        have "exec_client ee gr tmp cg = Inr (True, put_buf cg y b')"
          using \<open>input_buf cg tmp x = Some b\<close> r len Some b'(1)
          by (simp add: ex_bool_eq unf tbytes_rows(1) [OF ok(1), simplified] tbytes_rows(1) [OF ok(2), simplified] cp ex insert_rows_eq [OF le(2)] ane_buf_def)
        moreover have "refilled g cg (put_buf cg y b')" using refilled_put [OF refl Some b'(2-4)] .
        moreover have "cg_ane_bufs (put_buf cg y b') y = Some b'" by (simp add: put_buf_def)
        ultimately show ?thesis using \<open>input_buf cg tmp x = Some b\<close> r b'(5) by blast
      qed
    qed
  qed
qed

lemma exec_surfaces_spec:
  assumes "loaded g cg" "runtime_sized ee"
  shows "\<exists>ok cg'. exec_surfaces ee gr tmp cg = Inr (ok, cg') \<and> refilled g cg cg'"
proof -
  note refl = refilled_refl [OF assms(1)]
  show ?thesis
  proof (cases "collect (map (input_buf cg tmp) (cpg_inputs gr))")
    case (Some bufs)
    show ?thesis
    proof (cases "cg_ane_bufs cg (cpg_output gr)")
      case ob: (Some ob)
      let ?run = "ane_execute_multi ee (cpg_program gr) (map iosurface bufs) [iosurface ob]"
      show ?thesis
      proof (cases ?run)
        case None
        then show ?thesis using Some ob refl by (simp add: ex_bool_eq exec_surfaces_def ane_buf_def)
      next
        case ms: (Some ms)
        have h: "holds_tensor g (cpg_output gr) ob" using loaded_holds [OF assms(1) ob] .
        have "list_all2 (\<lambda>out m. \<forall>old. out = Some old \<longrightarrow> length m = length old) [iosurface ob] ms"
          using assms(2) ms unfolding runtime_sized_def by blast
        then have "holds_tensor g (cpg_output gr) (set_surface ms ob)"
          using h by (auto simp: list_all2_Cons1 set_surface_def holds_tensor_def buf_ok_def iosurface_def)
        then have "refilled g cg (put_buf cg (cpg_output gr) (set_surface ms ob))"
          by (intro refilled_put [OF refl ob]) (simp_all add: set_surface_def)
        then show ?thesis using Some ob ms by (simp add: ex_bool_eq exec_surfaces_def ane_buf_def)
      qed
    qed (simp add: ex_bool_eq exec_surfaces_def ane_buf_def Some refl)
  qed (simp add: ex_bool_eq exec_surfaces_def refl)
qed

definition group_bounded :: "AneGraph \<Rightarrow> CompiledPlanGroup \<Rightarrow> bool" where
  "group_bounded g gr \<longleftrightarrow> (\<forall>x \<in> set (cpg_inputs gr). x < length (tensors g)) \<and> cpg_output gr < length (tensors g)"

lemma exec_groups_spec:
  assumes "graph_wf g" "tmp_holds g tmp" "runtime_sized ee" "loaded g cg" "\<forall>gr \<in> set grs. client_fits g gr \<and> group_bounded g gr"
  shows "\<exists>ok cg'. exec_groups ee grs tmp cg = Inr (ok, cg') \<and> refilled g cg cg'"
  using assms(4,5)
proof (induction grs arbitrary: cg)
  case Nil
  then show ?case using refilled_refl by (simp add: ex_bool_eq)
next
  case (Cons gr grs)
  have b: "client_fits g gr" "\<forall>x \<in> set (cpg_inputs gr). x < length (tensors g)" "cpg_output gr < length (tensors g)"
    using Cons.prems(2) by (simp_all add: group_bounded_def)
  obtain ok cg1 where one: "(if objc_client_model (cpg_program gr) then exec_client ee gr tmp cg else exec_surfaces ee gr tmp cg) = Inr (ok, cg1)"
    "refilled g cg cg1"
  proof (cases "objc_client_model (cpg_program gr)")
    case True
    from exec_client_spec [OF assms(1) Cons.prems(1) assms(2,3) b(1) True b(2,3)] that show ?thesis using True by auto
  next
    case False
    from exec_surfaces_spec [OF Cons.prems(1) assms(3), of gr tmp] that show ?thesis using False by auto
  qed
  obtain ok' cg' where rest: "exec_groups ee grs tmp cg1 = Inr (ok', cg')" "refilled g cg1 cg'"
    using Cons.IH [OF refilled_loaded [OF one(2) Cons.prems(1)]] Cons.prems(2) by auto
  show ?case
  proof (cases ok)
    case True
    then show ?thesis using one(1) rest refilled_trans [OF one(2) rest(2)] by simp
  next
    case False
    then show ?thesis using one by (simp add: ex_bool_eq)
  qed
qed


section \<open>Inputs and outputs\<close>

text \<open>An environment where every allocation is a surface.\<close>

definition all_surfaces :: "alloc_env \<Rightarrow> BufferPool \<Rightarrow> bool" where
  "all_surfaces env p \<longleftrightarrow> use_iosurface p \<and> (\<forall>n. io_create env n \<noteq> None) \<and> (\<forall>n. \<forall>b \<in> set (idle_at p n). b_iosurface b)"

lemma all_surfaces_tensor:
  assumes "all_surfaces env p" "0 < c" "0 < s"
  shows "\<exists>b p'. acquire_tensor_padded env c s n p = Inr (b, p') \<and> b_iosurface b \<and> all_surfaces env p'"
proof -
  let ?n = "max (tensor_bytes c s) n"
  have "\<exists>b p'. acquire env ?n p = Inr (b, p') \<and> b_iosurface b \<and> all_surfaces env p'"
  proof (cases "idle_at p ?n" rule: rev_cases)
    case Nil
    have "io_create env (unat (max ?n kMinIOSurface)) \<noteq> None" using assms(1) unfolding all_surfaces_def by blast
    then obtain m where "io_create env (unat (max ?n kMinIOSurface)) = Some m" by blast
    then have "\<exists>b. allocate env ?n p = Inr (b, p\<lparr>next_buf := next_buf p + 1\<rparr>) \<and> b_iosurface b"
      using assms(1) by (simp add: allocate_def all_surfaces_def Let_def)
    moreover have "acquire env ?n p = bind_res (allocate env ?n p) (\<lambda>(b, p'). Inr (reset_tensor b, p'))"
      using Nil by (auto simp: acquire_def idle_at_def split: option.splits list.splits)
    ultimately show ?thesis using assms(1) by (auto simp: all_surfaces_def reset_tensor_def)
  next
    case (snoc v b)
    then have i: "idle p ?n = Some (v @ [b])" by (auto simp: idle_at_def split: option.splits)
    have "b_iosurface b'" if "b' \<in> set (v @ [b])" for b' using assms(1) that unfolding snoc [symmetric] by (auto simp: all_surfaces_def)
    then have "b_iosurface (reset_tensor b)" "all_surfaces env (p\<lparr>idle := (idle p)(?n \<mapsto> v)\<rparr>)"
      using assms(1) by (auto simp: all_surfaces_def reset_tensor_def)
    moreover have "acquire env ?n p = Inr (reset_tensor b, p\<lparr>idle := (idle p)(?n \<mapsto> v)\<rparr>)"
      using i by (cases v) (simp_all add: acquire_def)
    ultimately show ?thesis by blast
  qed
  then show ?thesis using assms(2,3) by (auto simp: acquire_tensor_padded_def)
qed

definition input_ok :: "AneGraph \<Rightarrow> CompiledGraph \<Rightarrow> TensorId \<times> byte list \<times> size_t \<Rightarrow> bool" where
  "input_ok g cg i = (case i of (x, src, n) \<Rightarrow> cg_tensor_bytes cg x \<noteq> None \<and> tensor_shape cg x = Some (shape_of g x)
     \<and> shape_ok (shape_of g x) \<and> n = tbytes g x \<and> length src = unat (tbytes g x))"

definition filled :: "AneGraph \<Rightarrow> bool \<Rightarrow> TensorId \<times> AneBuffer \<Rightarrow> TensorId \<times> byte list \<times> size_t \<Rightarrow> bool" where
  "filled g io xb i \<longleftrightarrow> fst xb = fst i \<and> contents g (fst xb) (snd xb) = fst (snd i) \<and> (io \<longrightarrow> b_iosurface (snd xb))"

lemma acquire_inputs_spec:
  assumes "env_ok env" "\<forall>i \<in> set ins. input_ok g cg i" "pool_ok p (map snd tmp @ K)" "tmp_holds g tmp"
    "distinct (map fst tmp @ map fst ins)"
  shows "case acquire_inputs env cg ins (tmp, p) of
      Inl e \<Rightarrow> e = Bad_alloc \<and> \<not> all_surfaces env p
    | Inr (ok, tmp', p') \<Rightarrow> ok \<and> pool_ok p' (map snd tmp' @ K) \<and> tmp_holds g tmp'
        \<and> (\<exists>new. tmp' = tmp @ new \<and> list_all2 (filled g (all_surfaces env p)) new ins)"
  using assms(2-5)
proof (induction ins arbitrary: tmp p)
  case Nil
  then show ?case by simp
next
  case (Cons i ins)
  obtain x src n where i: "i = (x, src, n)" by (cases i)
  have ok: "cg_tensor_bytes cg x \<noteq> None" "tensor_shape cg x = Some (shape_of g x)" "shape_ok (shape_of g x)"
    "n = tbytes g x" "length src = unat (tbytes g x)" using Cons.prems(1) i by (simp_all add: input_ok_def)
  have pos: "0 < channels (shape_of g x)" "0 < seq (shape_of g x)" using ok(3) by (simp_all add: shape_ok_def)
  let ?acq = "acquire_tensor_padded env (channels (shape_of g x)) (seq (shape_of g x)) (of_nat (cg_io_alloc_bytes cg)) p"
  show ?case
  proof (cases ?acq)
    case (Inl e)
    then show ?thesis
      using acquire_tensor_fails [OF pos Inl] all_surfaces_tensor [OF _ pos, of env p "of_nat (cg_io_alloc_bytes cg)"] i ok by auto
  next
    case (Inr bp)
    obtain b p1 where bp: "bp = (b, p1)" by (cases bp)
    note acq = Inr [unfolded bp]
    note b = pool_ok_tensor [OF assms(1) Cons.prems(2) acq]
    have io: "b_iosurface b \<and> all_surfaces env p1" if "all_surfaces env p"
      using all_surfaces_tensor [OF that pos, of "of_nat (cg_io_alloc_bytes cg)"] acq by auto
    have "b \<in> set (b # map snd tmp @ K)" by simp
    then have "buf_ok b" using b(1) pool_atD(10) unfolding pool_ok_def by blast
    then have hb: "holds_tensor g x b"
      using b(2-5) tensor_bytes_shape [OF ok(3)] by (simp add: holds_tensor_def tbytes_def)
    obtain b' where b': "copy_from src n b = Inr b'" "b_id b' = b_id b" "b_iosurface b' = b_iosurface b"
      "holds_tensor g x b'" "contents g x b' = src" using tensor_copy_from [OF hb ok(3,5)] ok(4) by blast
    have fresh: "map_of tmp x = None" using Cons.prems(4) i by (auto simp: map_of_eq_None_iff)
    let ?tmp = "tmp @ [(x, b')]"
    have step: "acquire_inputs env cg (i # ins) (tmp, p) = acquire_inputs env cg ins (?tmp, p1)"
      using ok acq b'(1) fresh by (auto simp: i put_tmp_def)
    have "pool_ok p1 (b' # map snd tmp @ K)"
      using pool_ok_refill [OF b(1), of "b' # map snd tmp @ K"] b'(2,4) b(1)
      by (auto simp: holds_tensor_def pool_ok_def pool_at_def)
    then have "pool_ok p1 (map snd ?tmp @ K)" by (rule pool_ok_perm [rotated]) simp
    moreover have "tmp_holds g ?tmp" using Cons.prems(3) b'(4) by (auto simp: tmp_holds_def)
    moreover have "distinct (map fst ?tmp @ map fst ins)" using Cons.prems(4) i by auto
    ultimately have IH: "case acquire_inputs env cg ins (?tmp, p1) of
        Inl e \<Rightarrow> e = Bad_alloc \<and> \<not> all_surfaces env p1
      | Inr (ok, tmp', p') \<Rightarrow> ok \<and> pool_ok p' (map snd tmp' @ K) \<and> tmp_holds g tmp'
          \<and> (\<exists>new. tmp' = ?tmp @ new \<and> list_all2 (filled g (all_surfaces env p1)) new ins)"
      using Cons.IH [of p1 ?tmp] Cons.prems(1) by simp
    have mono: "list_all2 (filled g (all_surfaces env p)) new ins" if "list_all2 (filled g (all_surfaces env p1)) new ins" for new
      using that by (rule list_all2_mono) (use io in \<open>auto simp: filled_def\<close>)
    have hd: "filled g (all_surfaces env p) (x, b') i" using b'(3,5) io i by (simp add: filled_def)
    show ?thesis
      unfolding step
    proof (cases "acquire_inputs env cg ins (?tmp, p1)")
      case (Inl e)
      then show "case acquire_inputs env cg ins (?tmp, p1) of Inl e \<Rightarrow> e = Bad_alloc \<and> \<not> all_surfaces env p
        | Inr (ok, tmp', p') \<Rightarrow> ok \<and> pool_ok p' (map snd tmp' @ K) \<and> tmp_holds g tmp'
          \<and> (\<exists>new. tmp' = tmp @ new \<and> list_all2 (filled g (all_surfaces env p)) new (i # ins))"
        using IH io by auto
    next
      case (Inr r)
      obtain ok' tmp' p' where r: "r = (ok', tmp', p')" by (cases r)
      obtain new where new: "tmp' = ?tmp @ new" "list_all2 (filled g (all_surfaces env p1)) new ins"
        and fin: "ok'" "pool_ok p' (map snd tmp' @ K)" "tmp_holds g tmp'"
        using IH unfolding Inr r by auto
      have "tmp' = tmp @ (x, b') # new" "list_all2 (filled g (all_surfaces env p)) ((x, b') # new) (i # ins)"
        using new mono hd by simp_all
      then show "case acquire_inputs env cg ins (?tmp, p1) of Inl e \<Rightarrow> e = Bad_alloc \<and> \<not> all_surfaces env p
        | Inr (ok, tmp', p') \<Rightarrow> ok \<and> pool_ok p' (map snd tmp' @ K) \<and> tmp_holds g tmp'
          \<and> (\<exists>new. tmp' = tmp @ new \<and> list_all2 (filled g (all_surfaces env p)) new (i # ins))"
        unfolding Inr r sum.case prod.case using fin by blast
    qed
  qed
qed

lemma release_tmp_ok: "pool_ok p (map snd tmp @ K) \<Longrightarrow> pool_ok (release_tmp tmp p) K"
proof (induction tmp arbitrary: p)
  case (Cons xb tmp)
  obtain loc where "pool_at loc p ([] @ snd xb # map snd tmp @ K)" using Cons.prems by (auto simp: pool_ok_def)
  from pool_at_release [OF this] have "pool_ok (release (Some (snd xb)) p) (map snd tmp @ K)" by (auto simp: pool_ok_def)
  from Cons.IH [OF this] show ?case by (simp add: release_tmp_def)
qed (simp add: release_tmp_def)

lemma copy_outputs_spec:
  assumes "loaded g cg" "\<forall>(y, n) \<in> set outs. shape_ok (shape_of g y) \<and> n = tbytes g y"
  shows "\<exists>ok ds. copy_outputs cg outs = Inr (ok, ds)
    \<and> (ok \<longleftrightarrow> (\<forall>(y, n) \<in> set outs. cg_ane_bufs cg y \<noteq> None))
    \<and> (ok \<longrightarrow> ds = map (\<lambda>(y, n). contents g y (the (cg_ane_bufs cg y))) outs)"
  using assms(2)
proof (induction outs)
  case (Cons o' outs)
  obtain y n where o': "o' = (y, n)" by (cases o')
  obtain ok ds where IH: "copy_outputs cg outs = Inr (ok, ds)" "ok \<longleftrightarrow> (\<forall>(y, n) \<in> set outs. cg_ane_bufs cg y \<noteq> None)"
    "ok \<longrightarrow> ds = map (\<lambda>(y, n). contents g y (the (cg_ane_bufs cg y))) outs" using Cons by (elim meta_impE exE conjE) simp_all
  show ?case
  proof (cases "cg_ane_bufs cg y")
    case (Some b)
    have "copy_to (tbytes g y) b = Inr (contents g y b)"
      using tensor_copy_to [OF loaded_holds [OF assms(1) Some]] Cons.prems o' by simp
    then show ?thesis using IH Some Cons.prems o' by (simp add: ane_buf_def)
  qed (simp add: o' ane_buf_def ex_bool_eq)
qed (simp add: ex_bool_eq)


section \<open>Executing a compiled graph\<close>

lemma loaded_groups:
  assumes "graph_wf g" "loaded g cg"
  obtains gs where "compute_groups g = Inr gs" "list_all2 same_group (cg_groups cg) gs" "\<forall>gr \<in> set (cg_groups cg). group_bounded g gr"
    "\<forall>gr \<in> set (cg_groups cg). cpg_output gr \<notin> set (graph_inputs g)"
proof -
  obtain gs where gs: "compute_groups g = Inr gs" "list_all2 same_group (cg_groups cg) gs" using assms(2) by (auto simp: loaded_def)
  have inv: "pass_inv g (length (nodes g)) gs" using compute_groups_inv [OF assms(1)] gs(1) by auto
  have "(\<forall>x \<in> set (gr_inputs gr). x < length (tensors g)) \<and> gr_output gr < length (tensors g) \<and> gr_output gr \<notin> set (graph_inputs g)"
    if gr: "gr \<in> set gs" for gr
  proof -
    have ok: "node_ids gr \<noteq> []" "gr_output gr = n_output (nodes g ! last (node_ids gr))"
      using inv gr by (simp_all add: pass_inv_def group_ok_def)
    have "last (node_ids gr) < length (nodes g)" using group_scope(2) [OF assms(1) inv gr] ok(1) by simp
    then show ?thesis
      using group_scope(3) [OF assms(1) inv gr] ok(2) wf_n_output [OF assms(1)] wf_input_not_output [OF assms(1)] by auto
  qed
  moreover have "\<exists>gr \<in> set gs. same_group c gr" if "c \<in> set (cg_groups cg)" for c
    using gs(2) that by (metis in_set_conv_nth list_all2_conv_all_nth)
  ultimately have "group_bounded g c \<and> cpg_output c \<notin> set (graph_inputs g)" if "c \<in> set (cg_groups cg)" for c
    using that unfolding group_bounded_def same_group_def by metis
  then show ?thesis using that gs by blast
qed

text \<open>A call with the sizes the graph declares.\<close>

definition call_ok :: "AneGraph \<Rightarrow> byte list list \<Rightarrow> size_t list \<Rightarrow> nat \<Rightarrow> size_t list \<Rightarrow> bool" where
  "call_ok g ptrs ins n outs \<longleftrightarrow> map length ptrs = map (unat \<circ> tbytes g) (graph_inputs g)
     \<and> ins = map (tbytes g) (graph_inputs g) \<and> n = length (graph_outputs g) \<and> outs = map (tbytes g) (graph_outputs g)"

lemma execute_cases:
  assumes "graph_wf g" "loaded g cg" "env_ok env" "runtime_sized ee" "\<forall>gr \<in> set (cg_groups cg). client_fits g gr"
    "pool_ok p (held cg @ H)" "call_ok g ptrs ins n outs"
  obtains (fails) "execute ee env cg ptrs ins n outs p = Inl Bad_alloc" "\<not> all_surfaces env p"
  | (runs) tmp p1 ok cg1 r ds where "tmp_holds g tmp"
      "list_all2 (filled g (all_surfaces env p)) tmp (zip (graph_inputs g) (zip ptrs ins))"
      "exec_groups ee (cg_groups cg) tmp cg = Inr (ok, cg1)" "refilled g cg cg1"
      "execute ee env cg ptrs ins n outs p = Inr (r, ds, cg1, p1)" "pool_ok p1 (held cg1 @ H)"
      "r \<longleftrightarrow> ok \<and> (\<forall>y \<in> set (graph_outputs g). cg_ane_bufs cg1 y \<noteq> None)"
      "r \<longrightarrow> ds = map (\<lambda>y. contents g y (the (cg_ane_bufs cg1 y))) (graph_outputs g)"
proof -
  have sz: "map length ptrs = map (unat \<circ> tbytes g) (graph_inputs g)" "ins = map (tbytes g) (graph_inputs g)"
    "n = length (graph_outputs g)" "outs = map (tbytes g) (graph_outputs g)" using assms(7) by (simp_all add: call_ok_def)
  have len: "length ptrs = length (graph_inputs g)" using sz(1) by (metis length_map)
  have ids: "cg_input_ids cg = graph_inputs g" "cg_output_ids cg = graph_outputs g" using assms(2) by (simp_all add: loaded_def)
  let ?ins = "zip (graph_inputs g) (zip ptrs ins)"
  have iok: "\<forall>i \<in> set ?ins. input_ok g cg i"
  proof
    fix i assume "i \<in> set ?ins"
    then obtain k where k: "k < length (graph_inputs g)" "i = (graph_inputs g ! k, ptrs ! k, tbytes g (graph_inputs g ! k))"
      using len sz(2) by (auto simp: set_zip)
    have x: "graph_inputs g ! k < length (tensors g)" using wf_input_bound [OF assms(1)] k(1) by simp
    have "length (ptrs ! k) = unat (tbytes g (graph_inputs g ! k))"
      using arg_cong [OF sz(1), of "\<lambda>xs. xs ! k"] k(1) len by simp
    then show "input_ok g cg i"
      using k(2) x assms(2) wf_shape_ok [OF assms(1) x] by (simp add: input_ok_def loaded_def tensor_shape_def shape_of_def)
  qed
  have fst_ins: "map fst ?ins = graph_inputs g" using len sz(2) by simp
  have "distinct (graph_inputs g)" using assms(1) by (simp add: graph_wf_def strict_sorted_iff)
  then have acq: "case acquire_inputs env cg ?ins ([], p) of
      Inl e \<Rightarrow> e = Bad_alloc \<and> \<not> all_surfaces env p
    | Inr (ok, tmp', p') \<Rightarrow> ok \<and> pool_ok p' (map snd tmp' @ held cg @ H) \<and> tmp_holds g tmp'
        \<and> (\<exists>new. tmp' = [] @ new \<and> list_all2 (filled g (all_surfaces env p)) new ?ins)"
    using acquire_inputs_spec [OF assms(3) iok, of p "[]" "held cg @ H"] assms(6) fst_ins by (simp add: tmp_holds_def)
  have ex: "execute ee env cg ptrs ins n outs p = bind_res (acquire_inputs env cg ?ins ([], p)) (\<lambda>(ok, tmp, p).
        if \<not> ok then Inr (False, [], cg, release_tmp tmp p)
        else bind_res (exec_groups ee (cg_groups cg) tmp cg) (\<lambda>(ok, cg).
          if \<not> ok then Inr (False, [], cg, release_tmp tmp p)
          else bind_res (copy_outputs cg (zip (cg_output_ids cg) outs)) (\<lambda>(ok, outs).
            Inr (ok, outs, cg, release_tmp tmp p))))"
    unfolding sz(2-4) by (simp add: execute_def len ids)
  show ?thesis
  proof (cases "acquire_inputs env cg ?ins ([], p)")
    case (Inl e)
    then show ?thesis using fails acq ex by simp
  next
    case (Inr a)
    obtain b tmp p0 where a: "a = (b, tmp, p0)" by (cases a)
    have t: "b" "pool_ok p0 (map snd tmp @ held cg @ H)" "tmp_holds g tmp" "list_all2 (filled g (all_surfaces env p)) tmp ?ins"
      using acq unfolding Inr a by auto
    obtain gs where "\<forall>gr \<in> set (cg_groups cg). group_bounded g gr" using loaded_groups [OF assms(1,2)] by blast
    then obtain ok cg1 where g1: "exec_groups ee (cg_groups cg) tmp cg = Inr (ok, cg1)" "refilled g cg cg1"
      using exec_groups_spec [OF assms(1) t(3) assms(4,2)] assms(5) by blast
    note l1 = refilled_loaded [OF g1(2) assms(2)]
    have ok: "cg_ok g cg" using assms(2) by (simp add: loaded_def)
    have pool: "pool_ok (release_tmp tmp p0) (held cg1 @ H)"
    proof (rule release_tmp_ok, rule pool_ok_refill [OF t(2)])
      show "map b_id (map snd tmp @ held cg1 @ H) = map b_id (map snd tmp @ held cg @ H)"
        using refilled_held(1) [OF g1(2) ok] by simp
      have "\<forall>b \<in> set (map snd tmp @ held cg @ H). buf_ok b" using t(2) by (auto simp: pool_ok_def pool_at_def)
      then show "\<forall>b \<in> set (map snd tmp @ held cg1 @ H). buf_ok b" using refilled_held(2) [OF g1(2) ok] by auto
    qed
    have out_ids: "cg_output_ids cg1 = graph_outputs g" using refilled_fields(5) [OF g1(2)] ids(2) by simp
    have oz: "zip (graph_outputs g) outs = map (\<lambda>y. (y, tbytes g y)) (graph_outputs g)"
      using sz(4) by (simp add: zip_map2 zip_same_conv_map)
    have "\<forall>(y, n) \<in> set (zip (graph_outputs g) outs). shape_ok (shape_of g y) \<and> n = tbytes g y"
      unfolding oz using wf_shape_ok [OF assms(1)] wf_graph_output_bound [OF assms(1)] by (auto simp: shape_of_def)
    from copy_outputs_spec [OF l1 this] obtain r ds where o': "copy_outputs cg1 (zip (graph_outputs g) outs) = Inr (r, ds)"
      "r \<longleftrightarrow> (\<forall>y \<in> set (graph_outputs g). cg_ane_bufs cg1 y \<noteq> None)"
      "r \<longrightarrow> ds = map (\<lambda>y. contents g y (the (cg_ane_bufs cg1 y))) (graph_outputs g)"
      unfolding oz by (auto simp: comp_def)
    have "execute ee env cg ptrs ins n outs p = Inr (ok \<and> r, if ok then ds else [], cg1, release_tmp tmp p0)"
      using ex Inr a t(1) g1(1) o'(1) out_ids by simp
    from runs [OF t(3,4) g1 this pool] o'(2,3) show ?thesis by auto
  qed
qed

lemma filled_keys:
  assumes "list_all2 (filled g io) tmp (zip xs (zip ptrs ins))" "length ptrs = length xs" "length ins = length ptrs"
  shows "fst ` set tmp = set xs"
proof -
  have "map fst tmp = map fst (zip xs (zip ptrs ins))"
    using assms(1) by (auto simp: list_all2_conv_all_nth filled_def intro: nth_equalityI)
  also have "\<dots> = xs" using assms(2,3) by simp
  finally show ?thesis by (metis set_map)
qed

lemma filled_lookup:
  assumes "list_all2 (filled g (all_surfaces env p)) tmp (zip xs (zip ptrs ins))" "tmp_holds g tmp" "all_surfaces env p"
    "length ptrs = length xs" "length ins = length ptrs" "map_of (zip xs ptrs) x = Some d"
  shows "\<exists>b. map_of tmp x = Some b \<and> b_iosurface b \<and> holds_tensor g x b \<and> contents g x b = d"
  using assms
proof (induction xs arbitrary: tmp ptrs ins)
  case (Cons y xs)
  obtain d' ptrs' n ins' where p: "ptrs = d' # ptrs'" "ins = n # ins'" using Cons.prems(4,5) by (cases ptrs; cases ins) auto
  obtain b tmp' where t: "tmp = (y, b) # tmp'" "contents g y b = d'" "b_iosurface b"
      "list_all2 (filled g (all_surfaces env p)) tmp' (zip xs (zip ptrs' ins'))"
  proof -
    obtain c tmp' where c: "tmp = c # tmp'" "filled g (all_surfaces env p) c (y, d', n)"
      "list_all2 (filled g (all_surfaces env p)) tmp' (zip xs (zip ptrs' ins'))"
      using Cons.prems(1) p by (auto simp: list_all2_Cons2)
    obtain y' b where "c = (y', b)" by (cases c)
    then have "c = (y, b)" "contents g y b = d'" "b_iosurface b" using c(2) Cons.prems(3) by (auto simp: filled_def)
    then show ?thesis using that c(1,3) by simp
  qed
  show ?case
  proof (cases "x = y")
    case True
    then show ?thesis using t p Cons.prems(2,6) by (auto simp: tmp_holds_def)
  next
    case False
    then show ?thesis using Cons.IH [OF t(4) _ Cons.prems(3)] Cons.prems(2,4,5,6) t(1) p by (simp add: tmp_holds_def)
  qed
qed simp

text \<open>
  C32. Running a compiled graph is memory safe and gives every buffer back: called with the
  sizes the graph declares, \<open>execute\<close> makes no out-of-bounds copy on either dispatch path and
  throws nothing but \<open>std::bad_alloc\<close>; whether it returns true or false, the temporary input buffers are
  back in the pool, the graph still holds exactly its own buffers, and on success every output has
  its declared size.
\<close>

theorem execute_gives_back:
  assumes "built g" "fits g" "loaded g cg" "env_ok env" "runtime_sized ee" "\<forall>gr \<in> set (cg_groups cg). client_fits g gr"
    "pool_ok p (held cg @ H)" "call_ok g ptrs ins n outs"
  shows "case execute ee env cg ptrs ins n outs p of
      Inl e \<Rightarrow> e = Bad_alloc
    | Inr (ok, ds, cg', p') \<Rightarrow> pool_ok p' (held cg' @ H) \<and> loaded g cg' \<and> cg_groups cg' = cg_groups cg
        \<and> map b_id (held cg') = map b_id (held cg) \<and> (ok \<longrightarrow> map length ds = map (unat \<circ> tbytes g) (graph_outputs g))"
proof -
  have wf: "graph_wf g" using assms(1,2) by (simp add: fits_def built_graph_wf)
  from wf assms(3-8) show ?thesis
  proof (cases rule: execute_cases)
    case fails
    then show ?thesis by simp
  next
    case (runs tmp p1 ok cg1 r ds)
    have l: "loaded g cg1" "cg_ok g cg" using refilled_loaded [OF runs(4) assms(3)] assms(3) by (simp_all add: loaded_def)
    have "length (contents g y (the (cg_ane_bufs cg1 y))) = unat (tbytes g y)" if "r" "y \<in> set (graph_outputs g)" for y
      using that runs(7) length_contents [OF loaded_holds [OF l(1)]] by auto
    then show ?thesis
      using runs(5,6,8) l refilled_fields(1) [OF runs(4)] refilled_held(1) [OF runs(4) l(2)] by auto
  qed
qed

section \<open>Data flow\<close>

text \<open>The abstract semantics of a compiled graph: a store of tensor values, without buffers,
  surfaces or a pool; \<open>ev\<close> is the function a program computes.\<close>

fun dataflow :: "(AneProgram \<Rightarrow> byte list list \<Rightarrow> byte list) \<Rightarrow> CompiledPlanGroup list \<Rightarrow> (TensorId \<rightharpoonup> byte list) \<Rightarrow> (TensorId \<rightharpoonup> byte list)" where
  "dataflow ev [] v = v"
| "dataflow ev (gr # grs) v = dataflow ev grs (v(cpg_output gr \<mapsto> ev (cpg_program gr) (map (\<lambda>x. the (v x)) (cpg_inputs gr))))"

text \<open>The program of a group, given surfaces at least as large as the tensors, reads no more than the
  tensors and writes the value of \<open>ev\<close> to the front of the output surface.\<close>

definition computes :: "exec_env \<Rightarrow> (AneProgram \<Rightarrow> byte list list \<Rightarrow> byte list) \<Rightarrow> AneGraph \<Rightarrow> CompiledPlanGroup \<Rightarrow> bool" where
  "computes ee ev g gr \<longleftrightarrow> \<not> objc_client_model (cpg_program gr) \<and> (\<forall>mems old.
     list_all2 (\<lambda>x m. unat (tbytes g x) \<le> length m) (cpg_inputs gr) mems \<and> unat (tbytes g (cpg_output gr)) \<le> length old \<longrightarrow>
     (\<exists>m. ane_execute_multi ee (cpg_program gr) (map Some mems) [Some old] = Some [m] \<and> length m = length old
        \<and> take (unat (tbytes g (cpg_output gr))) m
          = ev (cpg_program gr) (map2 (\<lambda>x m. take (unat (tbytes g x)) m) (cpg_inputs gr) mems)))"

definition represents :: "AneGraph \<Rightarrow> CompiledGraph \<Rightarrow> tmp_bufs \<Rightarrow> (TensorId \<rightharpoonup> byte list) \<Rightarrow> bool" where
  "represents g cg tmp v \<longleftrightarrow> (\<forall>x d. v x = Some d \<longrightarrow>
     (\<exists>b. input_buf cg tmp x = Some b \<and> b_iosurface b \<and> holds_tensor g x b \<and> contents g x b = d))"

lemma collect_total: "(\<forall>x \<in> set xs. f x = Some (h x)) \<Longrightarrow> collect (map f xs) = Some (map h xs)"
  by (induction xs) auto

lemma map2_same: "map2 f xs (map h xs) = map (\<lambda>x. f x (h x)) xs"
  by (simp add: zip_map2 zip_same_conv_map)

lemma exec_surfaces_value:
  assumes "loaded g cg" "computes ee ev g gr" "represents g cg tmp v" "set (cpg_inputs gr) \<subseteq> dom v"
    "cg_ane_bufs cg (cpg_output gr) = Some ob" "b_iosurface ob" "map_of tmp (cpg_output gr) = None"
  shows "\<exists>cg'. exec_surfaces ee gr tmp cg = Inr (True, cg') \<and> refilled g cg cg'
    \<and> represents g cg' tmp (v(cpg_output gr \<mapsto> ev (cpg_program gr) (map (\<lambda>x. the (v x)) (cpg_inputs gr))))"
proof -
  let ?y = "cpg_output gr" and ?prog = "cpg_program gr"
  let ?b = "\<lambda>x. the (input_buf cg tmp x)"
  have b: "input_buf cg tmp x = Some (?b x)" "b_iosurface (?b x)" "holds_tensor g x (?b x)" "contents g x (?b x) = the (v x)"
    if "x \<in> set (cpg_inputs gr)" for x
    using that assms(3,4) unfolding represents_def by fastforce+
  have col: "collect (map (input_buf cg tmp) (cpg_inputs gr)) = Some (map ?b (cpg_inputs gr))"
    using b(1) by (intro collect_total) simp
  let ?mems = "map (\<lambda>x. the (b_mem (?b x))) (cpg_inputs gr)"
  have mem: "b_mem (?b x) = Some (the (b_mem (?b x)))" "unat (tbytes g x) \<le> length (the (b_mem (?b x)))"
    if "x \<in> set (cpg_inputs gr)" for x
    by (rule holds_mem [OF b(3) [OF that]], simp)+
  have surf: "map iosurface (map ?b (cpg_inputs gr)) = map Some ?mems"
    using b(2) mem(1) by (simp add: iosurface_def)
  have ho: "holds_tensor g ?y ob" using loaded_holds [OF assms(1,5)] .
  then obtain old where old: "b_mem ob = Some old" "unat (tbytes g ?y) \<le> length old" "unat (b_bytes ob) \<le> length old"
    by (rule holds_mem)
  have "list_all2 (\<lambda>x m. unat (tbytes g x) \<le> length m) (cpg_inputs gr) ?mems"
    using mem(2) by (simp add: list_all2_map2 list_all2_same)
  then obtain m where m: "ane_execute_multi ee ?prog (map Some ?mems) [Some old] = Some [m]" "length m = length old"
    "take (unat (tbytes g ?y)) m = ev ?prog (map2 (\<lambda>x m. take (unat (tbytes g x)) m) (cpg_inputs gr) ?mems)"
    using assms(2) old(2) unfolding computes_def by blast
  have val: "take (unat (tbytes g ?y)) m = ev ?prog (map (\<lambda>x. the (v x)) (cpg_inputs gr))"
    using m(3) b(4) by (simp add: map2_same contents_def cong: map_cong)
  let ?ob = "ob\<lparr>b_mem := Some m\<rparr>"
  have hob: "holds_tensor g ?y ?ob" "contents g ?y ?ob = ev ?prog (map (\<lambda>x. the (v x)) (cpg_inputs gr))"
    using ho m(2) old val by (simp_all add: holds_tensor_def buf_ok_def contents_def)
  have io: "iosurface ob = Some old" using assms(6) old(1) by (simp add: iosurface_def)
  have run: "exec_surfaces ee gr tmp cg = Inr (True, put_buf cg ?y ?ob)"
    unfolding exec_surfaces_def ane_buf_def col assms(5) option.case surf io m(1) by (simp add: set_surface_def assms(6))
  have "refilled g cg (put_buf cg ?y ?ob)" using refilled_put [OF refilled_refl [OF assms(1)] assms(5), of ?ob] hob(1) by simp
  moreover have inb: "input_buf (put_buf cg ?y ?ob) tmp x = (if x = ?y then Some ?ob else input_buf cg tmp x)" for x
    using assms(7) by (auto simp: input_buf_def ane_buf_def put_buf_def split: option.splits)
  have "represents g (put_buf cg ?y ?ob) tmp (v(?y \<mapsto> ev ?prog (map (\<lambda>x. the (v x)) (cpg_inputs gr))))"
    using assms(3,6) hob unfolding represents_def inb by simp
  ultimately show ?thesis using run by blast
qed

lemma exec_dataflow:
  assumes "\<forall>gr \<in> set grs. computes ee ev g gr \<and> cg_ane_bufs cg (cpg_output gr) \<noteq> None \<and> map_of tmp (cpg_output gr) = None"
    "loaded g cg" "\<forall>x b. cg_ane_bufs cg x = Some b \<longrightarrow> b_iosurface b" "represents g cg tmp v"
    "\<forall>i < length grs. \<forall>x \<in> set (cpg_inputs (grs ! i)). x \<in> dom v \<or> (\<exists>j < i. cpg_output (grs ! j) = x)"
  shows "\<exists>cg'. exec_groups ee grs tmp cg = Inr (True, cg') \<and> refilled g cg cg' \<and> represents g cg' tmp (dataflow ev grs v)"
  using assms
proof (induction grs arbitrary: cg v)
  case Nil
  then show ?case using refilled_refl by simp
next
  case (Cons gr grs)
  have c: "computes ee ev g gr" "map_of tmp (cpg_output gr) = None" using Cons.prems(1) by simp_all
  obtain ob where ob: "cg_ane_bufs cg (cpg_output gr) = Some ob" "b_iosurface ob" using Cons.prems(1,3) by auto
  have sub: "set (cpg_inputs gr) \<subseteq> dom v" using spec [OF Cons.prems(5), of 0] by auto
  let ?v = "v(cpg_output gr \<mapsto> ev (cpg_program gr) (map (\<lambda>x. the (v x)) (cpg_inputs gr)))"
  obtain cg1 where one: "exec_surfaces ee gr tmp cg = Inr (True, cg1)" "refilled g cg cg1" "represents g cg1 tmp ?v"
    using exec_surfaces_value [OF Cons.prems(2) c(1) Cons.prems(4) sub ob c(2)] by blast
  have key: "buf_key cg1 x = buf_key cg x" for x using one(2) by (simp add: refilled_def)
  have none: "cg_ane_bufs cg1 x = None \<longleftrightarrow> cg_ane_bufs cg x = None" for x using key [of x] buf_key_None by metis
  have surf: "b_iosurface b" if "cg_ane_bufs cg1 x = Some b" for x b
  proof -
    have "buf_key cg x = Some (b_id b, b_iosurface b)" using key [of x] buf_key_Some [OF that] by simp
    then show ?thesis using Cons.prems(3) by (auto simp: buf_key_def)
  qed
  have ready: "\<forall>i < length grs. \<forall>x \<in> set (cpg_inputs (grs ! i)). x \<in> dom ?v \<or> (\<exists>j < i. cpg_output (grs ! j) = x)"
  proof (intro allI impI ballI)
    fix i x assume i: "i < length grs" "x \<in> set (cpg_inputs (grs ! i))"
    then consider "x \<in> dom v" | j where "j < Suc i" "cpg_output ((gr # grs) ! j) = x"
      using Cons.prems(5) by (metis Suc_less_eq length_Cons nth_Cons_Suc)
    then show "x \<in> dom ?v \<or> (\<exists>j < i. cpg_output (grs ! j) = x)"
    proof cases
      case (2 j)
      then show ?thesis by (cases j) auto
    qed simp
  qed
  obtain cg' where "exec_groups ee grs tmp cg1 = Inr (True, cg')" "refilled g cg1 cg'" "represents g cg' tmp (dataflow ev grs ?v)"
  proof -
    have "\<forall>gr \<in> set grs. computes ee ev g gr \<and> cg_ane_bufs cg1 (cpg_output gr) \<noteq> None \<and> map_of tmp (cpg_output gr) = None"
      using Cons.prems(1) none by simp
    moreover have "\<forall>x b. cg_ane_bufs cg1 x = Some b \<longrightarrow> b_iosurface b" using surf by blast
    ultimately show ?thesis using Cons.IH [OF _ refilled_loaded [OF one(2) Cons.prems(2)] _ one(3) ready] that by blast
  qed
  then show ?case
    using one(1) refilled_trans [OF one(2)] c(1) by (auto simp: computes_def)
qed

lemma dom_dataflow: "dom (dataflow ev grs v) = dom v \<union> cpg_output ` set grs"
  by (induction grs arbitrary: v) auto


lemma group_inputs_ready:
  assumes "graph_wf g" "compute_groups g = Inr gs" "list_all2 same_group grs gs" "length ptrs = length (graph_inputs g)"
    and i: "i < length grs" "x \<in> set (cpg_inputs (grs ! i))"
  shows "x \<in> dom (map_of (zip (graph_inputs g) ptrs)) \<or> (\<exists>j < i. cpg_output (grs ! j) = x)"
proof -
  have same: "length grs = length gs"
    "\<And>k. k < length gs \<Longrightarrow> cpg_inputs (grs ! k) = gr_inputs (gs ! k) \<and> cpg_output (grs ! k) = gr_output (gs ! k)"
    using assms(3) by (simp_all add: list_all2_conv_all_nth same_group_def)
  have "x \<in> set (graph_inputs g) \<or> (\<exists>j < i. gr_output (gs ! j) = x)"
    using groups_dataflow [OF assms(1,2)] same i by simp
  then show ?thesis using assms(4) same i(1) less_trans by auto
qed

lemma output_value:
  assumes "graph_wf g" "compute_groups g = Inr gs" "list_all2 same_group grs gs" "represents g cg tmp (dataflow ev grs v)"
    and y: "y \<in> set (graph_outputs g)" "y \<notin> set (graph_inputs g)" and tmp: "fst ` set tmp = set (graph_inputs g)"
  shows "cg_ane_bufs cg y \<noteq> None \<and> contents g y (the (cg_ane_bufs cg y)) = the (dataflow ev grs v y)"
proof -
  obtain gr where gr: "gr \<in> set grs" "cpg_output gr = y"
    using groups_dataflow [OF assms(1,2)] assms(3) y by (fastforce simp: list_all2_conv_all_nth same_group_def in_set_conv_nth)
  then have "y \<in> dom (dataflow ev grs v)" by (auto simp: dom_dataflow)
  then obtain b where "input_buf cg tmp y = Some b" "contents g y b = the (dataflow ev grs v y)"
    using assms(4) unfolding represents_def by fastforce
  moreover have "map_of tmp y = None" using y(2) tmp by (simp add: map_of_eq_None_iff)
  ultimately show ?thesis by (simp add: input_buf_def ane_buf_def)
qed

text \<open>
  C33. Running a compiled graph refines the evaluation of its groups over a store of tensor values:
  when every buffer has a surface and every program computes its function, \<open>execute\<close> returns true and its
  outputs are those of the abstract evaluation from the caller's inputs. In particular they do
  not depend on what recycled buffers or the graph's own buffers held before the call, so a
  compiled graph can be run any number of times.
\<close>

theorem execute_refines_dataflow:
  assumes "built g" "fits g" "loaded g cg" "env_ok env" "all_surfaces env p" "runtime_sized ee"
    "\<forall>x b. cg_ane_bufs cg x = Some b \<longrightarrow> b_iosurface b" "\<forall>gr \<in> set (cg_groups cg). computes ee ev g gr"
    "set (graph_outputs g) \<inter> set (graph_inputs g) = {}" "pool_ok p (held cg @ H)" "call_ok g ptrs ins n outs"
  shows "\<exists>cg' p'. execute ee env cg ptrs ins n outs p
      = Inr (True, map (\<lambda>y. the (dataflow ev (cg_groups cg) (map_of (zip (graph_inputs g) ptrs)) y)) (graph_outputs g), cg', p')
    \<and> loaded g cg' \<and> pool_ok p' (held cg' @ H)"
proof -
  have wf: "graph_wf g" using assms(1,2) by (simp add: fits_def built_graph_wf)
  have nc: "\<forall>gr \<in> set (cg_groups cg). client_fits g gr" using assms(8) by (simp add: computes_def client_fits_def)
  obtain gs where gs: "compute_groups g = Inr gs" "list_all2 same_group (cg_groups cg) gs"
    "\<forall>gr \<in> set (cg_groups cg). group_bounded g gr" "\<forall>gr \<in> set (cg_groups cg). cpg_output gr \<notin> set (graph_inputs g)"
    by (rule loaded_groups [OF wf assms(3)])
  have ok: "cg_ok g cg" using assms(3) by (simp add: loaded_def)
  from wf assms(3,4,6) nc assms(10,11) show ?thesis
  proof (cases rule: execute_cases)
    case fails
    then show ?thesis using assms(5) by simp
  next
    case (runs tmp p1 ok' cg1 r ds)
    let ?v = "map_of (zip (graph_inputs g) ptrs)"
    have len: "length ptrs = length (graph_inputs g)" "length ins = length ptrs"
      using assms(11) by (auto simp: call_ok_def dest: map_eq_imp_length_eq)
    have tmp: "\<exists>b. map_of tmp x = Some b \<and> b_iosurface b \<and> holds_tensor g x b \<and> contents g x b = d"
      if "?v x = Some d" for x d
      using filled_lookup [OF runs(2,1) assms(5) len that] .
    have fst_tmp: "fst ` set tmp = set (graph_inputs g)" using filled_keys [OF runs(2) len] .
    have "represents g cg tmp ?v" using tmp by (fastforce simp: represents_def input_buf_def)
    moreover have "\<forall>gr \<in> set (cg_groups cg). computes ee ev g gr \<and> cg_ane_bufs cg (cpg_output gr) \<noteq> None \<and> map_of tmp (cpg_output gr) = None"
      using assms(8) gs(4) ok fst_tmp by (auto simp: cg_ok_def dom_def map_of_eq_None_iff)
    moreover have "\<forall>i < length (cg_groups cg). \<forall>x \<in> set (cpg_inputs (cg_groups cg ! i)).
        x \<in> dom ?v \<or> (\<exists>j < i. cpg_output (cg_groups cg ! j) = x)"
      using group_inputs_ready [OF wf gs(1,2) len(1)] by blast
    ultimately obtain cg' where cg': "exec_groups ee (cg_groups cg) tmp cg = Inr (True, cg')" "refilled g cg cg'"
      "represents g cg' tmp (dataflow ev (cg_groups cg) ?v)" using exec_dataflow [OF _ assms(3,7)] by blast
    have eq: "cg1 = cg'" "ok'" using cg'(1) runs(3) by simp_all
    have out: "cg_ane_bufs cg1 y \<noteq> None \<and> contents g y (the (cg_ane_bufs cg1 y)) = the (dataflow ev (cg_groups cg) ?v y)"
      if "y \<in> set (graph_outputs g)" for y
      using output_value [OF wf gs(1,2) cg'(3) that _ fst_tmp] that assms(9) eq(1) by blast
    then have "r" "ds = map (\<lambda>y. the (dataflow ev (cg_groups cg) ?v y)) (graph_outputs g)" using runs(7,8) eq(2) by auto
    then show ?thesis using runs(5,6) refilled_loaded [OF runs(4) assms(3)] by auto
  qed
qed


text \<open>
  C34. The client path computes on the first columns only: the program gets the first
  \<open>client_in_seq\<close> elements of every input channel, and each channel of the output tensor becomes the
  program's \<open>client_out_seq\<close> elements followed by zeros; the copies back and forth compute
  exactly this, whatever the output buffer held.
\<close>

theorem client_dispatch_columns:
  assumes "built g" "fits g" "loaded g cg" "tmp_holds g tmp" "runtime_sized ee" "gr \<in> set (cg_groups cg)" "client_fits g gr"
    "objc_client_model (cpg_program gr)" "exec_client ee gr tmp cg = Inr (True, cg')"
    "x = cpg_inputs gr ! 0" "y = cpg_output gr" "i = nat (client_in_seq (cpg_program gr)) * 2" "j = nat (client_out_seq (cpg_program gr)) * 2"
  shows "\<exists>b b' r. input_buf cg tmp x = Some b \<and> cg_ane_bufs cg' y = Some b'
    \<and> ane_execute_client ee (cpg_program gr)
        (concat (map (\<lambda>c. get_bytes (c * (nat (seq (shape_of g x)) * 2)) i (contents g x b)) [0..<nat (channels (shape_of g x))]))
        (nat (channels (shape_of g y)) * j) = Some r
    \<and> contents g y b' = concat (map (\<lambda>c. get_bytes (c * j) j r @ replicate (nat (seq (shape_of g y)) * 2 - j) 0)
        [0..<nat (channels (shape_of g y))])"
proof -
  have wf: "graph_wf g" using assms(1,2) by (simp add: fits_def built_graph_wf)
  obtain gs where "compute_groups g = Inr gs" "list_all2 same_group (cg_groups cg) gs"
    and b: "\<forall>gr \<in> set (cg_groups cg). group_bounded g gr" and "\<forall>gr \<in> set (cg_groups cg). cpg_output gr \<notin> set (graph_inputs g)"
    by (rule loaded_groups [OF wf assms(3)])
  have "\<forall>x \<in> set (cpg_inputs gr). x < length (tensors g)" "cpg_output gr < length (tensors g)"
    using b assms(6) by (simp_all add: group_bounded_def)
  from exec_client_spec [OF wf assms(3,4,5,7,8) this] assms(9)
  show ?thesis unfolding first_columns_def padded_rows_def assms(10-13) by auto
qed

section \<open>Example runs\<close>

definition demo_exec :: exec_env where
  "demo_exec = \<lparr>
     ane_execute_multi = (\<lambda>prog ins outs. case (ins, outs) of
         ([Some m], [Some old]) \<Rightarrow> if 64 \<le> length m \<and> 32 \<le> length old then Some [take 32 m @ drop 32 old] else None
       | _ \<Rightarrow> None),
     ane_execute_client = (\<lambda>prog src n. Some (take n (src @ replicate n 0)))\<rparr>"

definition demo_prog :: "bool \<Rightarrow> AneProgram" where
  "demo_prog client = \<lparr>prog_handle = 1, model_dir = [], objc_client_model = client, client_in_seq = 1, client_out_seq = 1\<rparr>"

definition demo_cg :: "bool \<Rightarrow> AneBuffer \<Rightarrow> CompiledGraph" where
  "demo_cg client b = \<lparr>
     cg_groups = [\<lparr>cpg_node_ids = [0], cpg_program = demo_prog client, cpg_inputs = [0], cpg_output = 1\<rparr>],
     cg_tensor_bytes = [0 \<mapsto> 64, 1 \<mapsto> 32], cg_tensor_shapes = [0 \<mapsto> mm_shape 2, 1 \<mapsto> mm_shape 1],
     cg_io_alloc_bytes = 49152, cg_ane_bufs = [1 \<mapsto> b], cg_input_ids = [0], cg_output_ids = [1]\<rparr>"

lemma demo_sized: "runtime_sized demo_exec"
  by (auto simp: runtime_sized_def demo_exec_def split: list.splits option.splits if_splits)

lemma mm_shapes: "shape_of mm_graph 0 = mm_shape 2" "shape_of mm_graph 1 = mm_shape 1" "shape_of mm_graph (Suc 0) = mm_shape 1"
  by (simp_all add: shape_of_def mm_graph_def)

lemma mm_tbytes: "tbytes mm_graph 0 = 64" "tbytes mm_graph 1 = 32" "tbytes mm_graph (Suc 0) = 32"
  by (simp_all add: tbytes_def mm_shapes shape_bytes_def numel_def mm_shape_def)

lemma demo_loaded:
  obtains b p where "loaded mm_graph (demo_cg client b)" "pool_ok p (held (demo_cg client b) @ [])" "all_surfaces demo_env p" "b_iosurface b"
proof -
  have s: "all_surfaces demo_env (mk_pool True 4)" by (simp add: all_surfaces_def mk_pool_def demo_env_def idle_at_def)
  obtain b p where acq: "acquire_tensor_padded demo_env 1 16 49152 (mk_pool True 4) = Inr (b, p)" "b_iosurface b" "all_surfaces demo_env p"
    using all_surfaces_tensor [OF s, of 1 16 49152] by auto
  note b = pool_ok_tensor [OF demo_env_ok demo_pool acq(1)]
  have h: "held (demo_cg client b) = [b]" by (simp add: held_def demo_cg_def)
  have "buf_ok b" using b(1) by (auto simp: pool_ok_def pool_at_def)
  moreover have "cg_ok mm_graph (demo_cg client b)"
    using b(2-5) by (auto simp: cg_ok_def demo_cg_def mm_shapes mm_shape_def tensor_bytes_def shape_bytes_def numel_def)
  moreover have "\<forall>x < length (tensors mm_graph). cg_tensor_shapes (demo_cg client b) x = Some (shape_of mm_graph x)
      \<and> cg_tensor_bytes (demo_cg client b) x \<noteq> None"
  proof (intro allI impI)
    fix x assume "x < length (tensors mm_graph)"
    then have "x = 0 \<or> x = 1" by (simp add: mm_graph_def) linarith
    then show "cg_tensor_shapes (demo_cg client b) x = Some (shape_of mm_graph x) \<and> cg_tensor_bytes (demo_cg client b) x \<noteq> None"
      by (auto simp: mm_shapes demo_cg_def)
  qed
  moreover have "list_all2 same_group (cg_groups (demo_cg client b)) [mm_group]"
    by (simp add: demo_cg_def same_group_def mm_group_def)
  moreover have "cg_input_ids (demo_cg client b) = graph_inputs mm_graph" "cg_output_ids (demo_cg client b) = graph_outputs mm_graph"
    by (simp_all add: demo_cg_def mm_graph_def)
  ultimately have "loaded mm_graph (demo_cg client b)" using mm_groups h by (simp add: loaded_def)
  then show ?thesis using that acq b(1) h by simp
qed

lemma demo_call: "call_ok mm_graph [replicate 64 7] [64] 1 [32]"
proof -
  have "graph_inputs mm_graph = [0]" "graph_outputs mm_graph = [1]" by (simp_all add: mm_graph_def)
  then show ?thesis by (simp add: call_ok_def mm_tbytes)
qed

lemma demo_fits: "\<forall>gr \<in> set (cg_groups (demo_cg client b)). client_fits mm_graph gr"
  by (simp add: demo_cg_def client_fits_def demo_prog_def mm_shapes mm_shape_def)

lemma demo_computes: "\<forall>gr \<in> set (cg_groups (demo_cg False b)). computes demo_exec (\<lambda>prog ins. take 32 (hd ins)) mm_graph gr"
  by (auto simp: demo_cg_def computes_def demo_prog_def demo_exec_def mm_tbytes list_all2_Cons1)

theorem execute_gives_back_witness:
  "\<exists>b p. case execute demo_exec demo_env (demo_cg True b) [replicate 64 7] [64] 1 [32] p of
      Inl e \<Rightarrow> e = Bad_alloc
    | Inr (ok, ds, cg', p') \<Rightarrow> pool_ok p' (held cg') \<and> (ok \<longrightarrow> map length ds = [32])"
proof -
  obtain b p where l: "loaded mm_graph (demo_cg True b)" "pool_ok p (held (demo_cg True b) @ [])" by (rule demo_loaded)
  have "map (unat \<circ> tbytes mm_graph) (graph_outputs mm_graph) = [32]"
    using mm_tbytes by (simp add: mm_graph_def)
  then show ?thesis
    using execute_gives_back [OF mm_built mm_validated(1) l(1) demo_env_ok demo_sized demo_fits l(2) demo_call]
    by (intro exI [of _ b] exI [of _ p]) (auto split: sum.splits)
qed

theorem execute_refines_dataflow_witness:
  "\<exists>b p cg' p'. execute demo_exec demo_env (demo_cg False b) [replicate 64 7] [64] 1 [32] p = Inr (True, [replicate 32 7], cg', p')"
proof -
  obtain b p where l: "loaded mm_graph (demo_cg False b)" "pool_ok p (held (demo_cg False b) @ [])" "all_surfaces demo_env p" "b_iosurface b"
    by (rule demo_loaded)
  have s: "\<forall>x c. cg_ane_bufs (demo_cg False b) x = Some c \<longrightarrow> b_iosurface c" using l(4) by (simp add: demo_cg_def)
  have d: "set (graph_outputs mm_graph) \<inter> set (graph_inputs mm_graph) = {}" by (simp add: mm_graph_def)
  from execute_refines_dataflow [OF mm_built mm_validated(1) l(1) demo_env_ok l(3) demo_sized s demo_computes d l(2) demo_call]
  show ?thesis by (auto simp: demo_cg_def mm_graph_def)
qed

lemma demo_client_run:
  assumes "loaded mm_graph (demo_cg True b)" "holds_tensor mm_graph 0 t"
  shows "\<exists>cg'. exec_client demo_exec (hd (cg_groups (demo_cg True b))) [(0, t)] (demo_cg True b) = Inr (True, cg')"
proof -
  have ok: "shape_ok (shape_of mm_graph 0)" "shape_ok (shape_of mm_graph 1)" by (simp_all add: mm_shapes mm_shape_def shape_ok_def)
  have len: "length (contents mm_graph 0 t) = 2 * 32" using length_contents [OF assms(2)] by (simp add: mm_tbytes)
  have "holds_tensor mm_graph 1 b" using loaded_holds [OF assms(1), of 1 b] by (simp add: demo_cg_def)
  then have cp: "\<exists>b'. copy_from d 32 b = Inr b'" if "length d = 32" for d
  proof -
    have "length d = unat (tbytes mm_graph 1)" using that mm_tbytes(2) by simp
    then show ?thesis
      using tensor_copy_from [OF \<open>holds_tensor mm_graph 1 b\<close> ok(2)] unfolding mm_tbytes(2) by blast
  qed
  let ?d = "contents mm_graph 0 t"
  let ?r = "get_bytes 0 2 ?d"
  have r: "length ?r = 2" "length (padded_rows [0] 32 2 ?r) = 32" using len by (simp_all add: padded_rows_def)
  have ex: "extract_rows 2 32 2 ?d = Inr (?r @ get_bytes 32 2 ?d)" using extract_rows_eq [OF _ len, of 2] by (simp add: upt_rec)
  have ins: "put_bytes 0 (get_bytes 0 2 ?r) (replicate 32 0) = padded_rows [0] 32 2 ?r"
    using insert_rows_eq [of 2 32 ?r 1] r(1) by simp
  obtain b' where "copy_from (padded_rows [0] 32 2 ?r) 32 b = Inr b'" using cp [OF r(2)] by blast
  then show ?thesis
    using tensor_copy_to [OF assms(2) ok(1)] ex ins r
    by (auto simp: exec_client_def demo_cg_def demo_prog_def mm_tbytes mm_shape_def tensor_shape_def input_buf_def ane_buf_def
        demo_exec_def)
qed

theorem client_dispatch_columns_witness:
  "\<exists>b t cg'. exec_client demo_exec (hd (cg_groups (demo_cg True b))) [(0, t)] (demo_cg True b) = Inr (True, cg')
    \<and> (\<exists>b'. cg_ane_bufs cg' 1 = Some b' \<and> contents mm_graph 1 b' = take 2 (contents mm_graph 0 t) @ replicate 30 0)"
proof -
  obtain b p where l: "loaded mm_graph (demo_cg True b)" "pool_ok p (held (demo_cg True b) @ [])" "all_surfaces demo_env p" "b_iosurface b"
    by (rule demo_loaded)
  obtain t p' where t: "acquire_tensor_padded demo_env 2 16 49152 p = Inr (t, p')" using all_surfaces_tensor [OF l(3), of 2 16 49152] by auto
  note a = pool_ok_tensor [OF demo_env_ok l(2) t]
  have "buf_ok t" using a(1) by (auto simp: pool_ok_def pool_at_def)
  then have h: "holds_tensor mm_graph 0 t" "tmp_holds mm_graph [(0, t)]"
    using a(2-5) by (simp_all add: holds_tensor_def tmp_holds_def mm_shapes mm_shape_def tensor_bytes_def mm_tbytes)
  let ?gr = "hd (cg_groups (demo_cg True b))"
  obtain cg' where run: "exec_client demo_exec ?gr [(0, t)] (demo_cg True b) = Inr (True, cg')" using demo_client_run [OF l(1) h(1)] by blast
  have g: "?gr \<in> set (cg_groups (demo_cg True b))" "objc_client_model (cpg_program ?gr)" by (simp_all add: demo_cg_def demo_prog_def)
  from client_dispatch_columns [OF mm_built mm_validated(1) l(1) h(2) demo_sized g(1) bspec [OF demo_fits g(1)] g(2) run refl refl refl refl]
  have "\<exists>b'. cg_ane_bufs cg' 1 = Some b' \<and> contents mm_graph 1 b' = take 2 (contents mm_graph 0 t) @ replicate 30 0"
    using length_contents [OF h(1)]
    by (auto simp: demo_cg_def demo_prog_def demo_exec_def mm_shapes mm_shape_def mm_tbytes input_buf_def get_bytes_def upt_rec)
  then show ?thesis using run by blast
qed

end
