(* ===== verification/CpuFallback.thy ===== *)
theory CpuFallback
  imports Half MilText
begin

text \<open>
  The CPU fallback (src/fallback/fallback.cpp): the operations over arrays of \<open>float\<close> and of
  halves, as bit patterns. Arithmetic on \<open>float\<close>, the functions of \<open>\<langle>cmath\<rangle>\<close>, the hardware
  conversions of a target with binary16 and \<open>cblas_sgemm\<close> are a parameter; the software
  conversions are those of Half. A read or write outside an array, a read of an
  uninitialised element and an \<open>int\<close> product outside 32 bits are undefined behaviour.
  Arrays are separate lists except in \<open>softmax_f32\<close>, whose caller passes the same array as input
  and output: there one list is the memory and the arrays are offsets into it.
\<close>

record float_ops =
  fl_hardware :: bool
  fl_of_half :: "16 word \<Rightarrow> u32"
  fl_to_half :: "u32 \<Rightarrow> 16 word"
  fl_add :: "u32 \<Rightarrow> u32 \<Rightarrow> u32"
  fl_sub :: "u32 \<Rightarrow> u32 \<Rightarrow> u32"
  fl_mul :: "u32 \<Rightarrow> u32 \<Rightarrow> u32"
  fl_div :: "u32 \<Rightarrow> u32 \<Rightarrow> u32"
  fl_neg :: "u32 \<Rightarrow> u32"
  fl_less :: "u32 \<Rightarrow> u32 \<Rightarrow> bool"
  fl_exp :: "u32 \<Rightarrow> u32"
  fl_tanh :: "u32 \<Rightarrow> u32"
  fl_sqrt :: "u32 \<Rightarrow> u32"
  fl_of_int :: "int \<Rightarrow> u32"
  cblas_sgemm :: "int \<Rightarrow> int \<Rightarrow> int \<Rightarrow> u32 \<Rightarrow> u32 list \<Rightarrow> int \<Rightarrow> u32 list \<Rightarrow> int \<Rightarrow> u32 \<Rightarrow> u32 list \<Rightarrow> int \<Rightarrow> u32 list"

section \<open>Arrays and loops\<close>

definition read_at :: "'a list \<Rightarrow> nat \<Rightarrow> 'a res" where
  "read_at xs i = (if i < length xs then Inr (xs ! i) else Inl (Undefined_behaviour ''read out of bounds''))"

definition write_at :: "nat \<Rightarrow> 'a \<Rightarrow> 'a list \<Rightarrow> 'a list res" where
  "write_at i v xs = (if i < length xs then Inr (xs[i := v]) else Inl (Undefined_behaviour ''write out of bounds''))"

definition int_mul :: "int \<Rightarrow> int \<Rightarrow> int res" where
  "int_mul a b = (if int32_ok (a * b) then Inr (a * b) else Inl (Undefined_behaviour ''int overflow''))"

fun for_loop :: "('i \<Rightarrow> 's \<Rightarrow> 's res) \<Rightarrow> 'i list \<Rightarrow> 's \<Rightarrow> 's res" where
  "for_loop f [] s = Inr s"
| "for_loop f (i # is) s = bind_res (f i s) (for_loop f is)"

section \<open>Conversions\<close>

definition f16_to_f32 :: "float_ops \<Rightarrow> 16 word \<Rightarrow> u32" where
  "f16_to_f32 fo v = (if fl_hardware fo then fl_of_half fo v else fp16_to_fp32 v)"

definition f32_to_f16 :: "float_ops \<Rightarrow> u32 \<Rightarrow> 16 word" where
  "f32_to_f16 fo f = (if fl_hardware fo then fl_to_half fo f else fp32_to_fp16 f)"

definition cast_f32_to_f16 :: "float_ops \<Rightarrow> u32 list \<Rightarrow> 16 word list \<Rightarrow> nat \<Rightarrow> 16 word list res" where
  "cast_f32_to_f16 fo src dst n =
     for_loop (\<lambda>i dst. bind_res (read_at src i) (\<lambda>x. write_at i (f32_to_f16 fo x) dst)) [0..<n] dst"

definition cast_f16_to_f32 :: "float_ops \<Rightarrow> 16 word list \<Rightarrow> u32 list \<Rightarrow> nat \<Rightarrow> u32 list res" where
  "cast_f16_to_f32 fo src dst n =
     for_loop (\<lambda>i dst. bind_res (read_at src i) (\<lambda>x. write_at i (f16_to_f32 fo x) dst)) [0..<n] dst"

section \<open>Matrix multiplication\<close>

definition fb_matmul_f32 :: "float_ops \<Rightarrow> u32 list \<Rightarrow> u32 list \<Rightarrow> u32 list \<Rightarrow> int \<Rightarrow> int \<Rightarrow> int \<Rightarrow> u32 list" where
  "fb_matmul_f32 fo A B C M K N = cblas_sgemm fo M N K (fl_of_int fo 1) A K B N (fl_of_int fo 0) C N"

definition fb_matmul_f16 ::
  "float_ops \<Rightarrow> 16 word list \<Rightarrow> 16 word list \<Rightarrow> 16 word list \<Rightarrow> int \<Rightarrow> int \<Rightarrow> int \<Rightarrow> 16 word list res" where
  "fb_matmul_f16 fo A B C M K N =
     bind_res (int_mul M K) (\<lambda>mk. bind_res (cast_f16_to_f32 fo A (replicate (nat M * nat K) 0) (nat mk)) (\<lambda>fA.
     bind_res (int_mul K N) (\<lambda>kn. bind_res (cast_f16_to_f32 fo B (replicate (nat K * nat N) 0) (nat kn)) (\<lambda>fB.
     let fC = fb_matmul_f32 fo fA fB (replicate (nat M * nat N) 0) M K N in
     bind_res (int_mul M N) (\<lambda>mn. cast_f32_to_f16 fo fC C (nat mn))))))"

section \<open>Elementwise operations\<close>

definition pointwise :: "('a \<Rightarrow> 'b) \<Rightarrow> 'a list \<Rightarrow> 'b list \<Rightarrow> nat \<Rightarrow> 'b list res" where
  "pointwise f src dst n = for_loop (\<lambda>i dst. bind_res (read_at src i) (\<lambda>x. write_at i (f x) dst)) [0..<n] dst"

definition add_f16 :: "float_ops \<Rightarrow> 16 word list \<Rightarrow> 16 word list \<Rightarrow> 16 word list \<Rightarrow> nat \<Rightarrow> 16 word list res" where
  "add_f16 fo A B C n = for_loop (\<lambda>i C. bind_res (read_at A i) (\<lambda>a. bind_res (read_at B i) (\<lambda>b.
     write_at i (f32_to_f16 fo (fl_add fo (f16_to_f32 fo a) (f16_to_f32 fo b))) C))) [0..<n] C"

definition mul_f16 :: "float_ops \<Rightarrow> 16 word list \<Rightarrow> 16 word list \<Rightarrow> 16 word list \<Rightarrow> nat \<Rightarrow> 16 word list res" where
  "mul_f16 fo A B C n = for_loop (\<lambda>i C. bind_res (read_at A i) (\<lambda>a. bind_res (read_at B i) (\<lambda>b.
     write_at i (f32_to_f16 fo (fl_mul fo (f16_to_f32 fo a) (f16_to_f32 fo b))) C))) [0..<n] C"

text \<open>The \<open>float\<close> literals \<open>0.7978845608f\<close>, \<open>0.044715f\<close> and \<open>0.5f\<close> as bit patterns.\<close>

definition gelu_approx :: "float_ops \<Rightarrow> u32 \<Rightarrow> u32" where
  "gelu_approx fo x =
     (let kAlpha = 0x3F4C422A; kBeta = 0x3D372713;
          cube = fl_mul fo (fl_mul fo (fl_mul fo kBeta x) x) x;
          inner = fl_mul fo kAlpha (fl_add fo x cube)
      in fl_mul fo (fl_mul fo 0x3F000000 x) (fl_add fo (fl_of_int fo 1) (fl_tanh fo inner)))"

definition gelu_f32 :: "float_ops \<Rightarrow> u32 list \<Rightarrow> u32 list \<Rightarrow> nat \<Rightarrow> u32 list res" where
  "gelu_f32 fo src dst n = pointwise (gelu_approx fo) src dst n"

definition gelu_f16 :: "float_ops \<Rightarrow> 16 word list \<Rightarrow> 16 word list \<Rightarrow> nat \<Rightarrow> 16 word list res" where
  "gelu_f16 fo src dst n = pointwise (\<lambda>v. f32_to_f16 fo (gelu_approx fo (f16_to_f32 fo v))) src dst n"

definition silu_scalar :: "float_ops \<Rightarrow> u32 \<Rightarrow> u32" where
  "silu_scalar fo x = fl_div fo x (fl_add fo (fl_of_int fo 1) (fl_exp fo (fl_neg fo x)))"

definition silu_f32 :: "float_ops \<Rightarrow> u32 list \<Rightarrow> u32 list \<Rightarrow> nat \<Rightarrow> u32 list res" where
  "silu_f32 fo src dst n = pointwise (silu_scalar fo) src dst n"

definition silu_f16 :: "float_ops \<Rightarrow> 16 word list \<Rightarrow> 16 word list \<Rightarrow> nat \<Rightarrow> 16 word list res" where
  "silu_f16 fo src dst n = pointwise (\<lambda>v. f32_to_f16 fo (silu_scalar fo (f16_to_f32 fo v))) src dst n"

section \<open>Softmax\<close>

text \<open>One row, its input at \<open>i\<close> and its output at \<open>o'\<close>; \<open>std::max\<close> keeps the first of two
  values neither of which is less.\<close>

definition softmax_row :: "float_ops \<Rightarrow> nat \<Rightarrow> nat \<Rightarrow> nat \<Rightarrow> u32 list \<Rightarrow> u32 list res" where
  "softmax_row fo i o' cols mem =
     bind_res (read_at mem i) (\<lambda>m0.
     bind_res (for_loop (\<lambda>c m. bind_res (read_at mem (i + c)) (\<lambda>x. Inr (if fl_less fo m x then x else m))) [1..<cols] m0) (\<lambda>max_v.
     bind_res (for_loop (\<lambda>c (mem, sm). bind_res (read_at mem (i + c)) (\<lambda>x.
          bind_res (write_at (o' + c) (fl_exp fo (fl_sub fo x max_v)) mem) (\<lambda>mem.
          bind_res (read_at mem (o' + c)) (\<lambda>e. Inr (mem, fl_add fo sm e))))) [0..<cols] (mem, fl_of_int fo 0)) (\<lambda>(mem, sm).
     let inv_sum = fl_div fo (fl_of_int fo 1) sm in
     for_loop (\<lambda>c mem. bind_res (read_at mem (o' + c)) (\<lambda>e. write_at (o' + c) (fl_mul fo e inv_sum) mem)) [0..<cols] mem)))"

definition softmax_f32 :: "float_ops \<Rightarrow> nat \<Rightarrow> nat \<Rightarrow> int \<Rightarrow> int \<Rightarrow> u32 list \<Rightarrow> u32 list res" where
  "softmax_f32 fo inp outp rows cols mem =
     for_loop (\<lambda>r mem. bind_res (int_mul (int r) cols) (\<lambda>off.
       softmax_row fo (inp + nat off) (outp + nat off) (nat cols) mem)) [0..<nat rows] mem"

definition softmax_f16 :: "float_ops \<Rightarrow> 16 word list \<Rightarrow> 16 word list \<Rightarrow> int \<Rightarrow> int \<Rightarrow> 16 word list res" where
  "softmax_f16 fo src dst rows cols =
     bind_res (int_mul rows cols) (\<lambda>n.
     bind_res (cast_f16_to_f32 fo src (replicate (nat rows * nat cols) 0) (nat n)) (\<lambda>f32.
     bind_res (softmax_f32 fo 0 0 rows cols f32) (\<lambda>f32. cast_f32_to_f16 fo f32 dst (nat n))))"

section \<open>Normalization\<close>

text \<open>\<open>scale\<close> and \<open>bias\<close> may be null.\<close>

definition norm_element :: "float_ops \<Rightarrow> u32 \<Rightarrow> u32 \<Rightarrow> u32 list option \<Rightarrow> u32 list option \<Rightarrow> nat \<Rightarrow> u32 \<Rightarrow> u32 res" where
  "norm_element fo mean inv_std scale bias c x =
     (let v = fl_mul fo (fl_sub fo x mean) inv_std in
      bind_res (case scale of None \<Rightarrow> Inr v | Some s \<Rightarrow> bind_res (read_at s c) (\<lambda>y. Inr (fl_mul fo v y))) (\<lambda>v.
      case bias of None \<Rightarrow> Inr v | Some b \<Rightarrow> bind_res (read_at b c) (\<lambda>y. Inr (fl_add fo v y))))"

definition layer_norm_f32 ::
  "float_ops \<Rightarrow> u32 list \<Rightarrow> u32 list \<Rightarrow> int \<Rightarrow> int \<Rightarrow> u32 list option \<Rightarrow> u32 list option \<Rightarrow> u32 \<Rightarrow> u32 list res" where
  "layer_norm_f32 fo src dst rows cols scale bias eps =
     for_loop (\<lambda>r dst. bind_res (int_mul (int r) cols) (\<lambda>off. let b = nat off in
       bind_res (for_loop (\<lambda>c s. bind_res (read_at src (b + c)) (\<lambda>x. Inr (fl_add fo s x))) [0..<nat cols] (fl_of_int fo 0)) (\<lambda>total.
       let mean = fl_div fo total (fl_of_int fo cols) in
       bind_res (for_loop (\<lambda>c s. bind_res (read_at src (b + c)) (\<lambda>x.
           let d = fl_sub fo x mean in Inr (fl_add fo s (fl_mul fo d d)))) [0..<nat cols] (fl_of_int fo 0)) (\<lambda>sq.
       let var = fl_div fo sq (fl_of_int fo cols);
           inv_std = fl_div fo (fl_of_int fo 1) (fl_sqrt fo (fl_add fo var eps))
       in for_loop (\<lambda>c dst. bind_res (read_at src (b + c)) (\<lambda>x.
            bind_res (norm_element fo mean inv_std scale bias c x) (\<lambda>v. write_at (b + c) v dst))) [0..<nat cols] dst)))) [0..<nat rows] dst"

definition opt_cast :: "float_ops \<Rightarrow> int \<Rightarrow> 16 word list option \<Rightarrow> u32 list option res" where
  "opt_cast fo cols v = (case v of None \<Rightarrow> Inr None
     | Some h \<Rightarrow> bind_res (cast_f16_to_f32 fo h (replicate (nat cols) 0) (nat cols)) (\<lambda>f. Inr (Some f)))"

definition layer_norm_f16 ::
  "float_ops \<Rightarrow> 16 word list \<Rightarrow> 16 word list \<Rightarrow> int \<Rightarrow> int \<Rightarrow> 16 word list option \<Rightarrow> 16 word list option \<Rightarrow> u32 \<Rightarrow> 16 word list res" where
  "layer_norm_f16 fo src dst rows cols scale bias eps =
     bind_res (int_mul rows cols) (\<lambda>n.
     bind_res (cast_f16_to_f32 fo src (replicate (nat rows * nat cols) 0) (nat n)) (\<lambda>fi.
     bind_res (opt_cast fo cols scale) (\<lambda>scale_f.
     bind_res (opt_cast fo cols bias) (\<lambda>bias_f.
     bind_res (layer_norm_f32 fo fi (replicate (nat rows * nat cols) 0) rows cols scale_f bias_f eps) (\<lambda>f.
     cast_f32_to_f16 fo f dst (nat n))))))"

text \<open>Channel-major: element \<open>(c, s)\<close> is at \<open>c * S + s\<close>.\<close>

definition channel_index :: "nat \<Rightarrow> int \<Rightarrow> nat \<Rightarrow> nat res" where
  "channel_index c S s = bind_res (int_mul (int c) S) (\<lambda>k. if int32_ok (k + int s) then Inr (nat k + s)
     else Inl (Undefined_behaviour ''int overflow''))"

definition rms_column :: "float_ops \<Rightarrow> ('a \<Rightarrow> u32) \<Rightarrow> 'a list \<Rightarrow> int \<Rightarrow> int \<Rightarrow> u32 \<Rightarrow> nat \<Rightarrow> u32 res" where
  "rms_column fo conv x C S eps s =
     bind_res (for_loop (\<lambda>c a. bind_res (channel_index c S s) (\<lambda>i. bind_res (read_at x i) (\<lambda>v.
         Inr (fl_add fo a (fl_mul fo (conv v) (conv v)))))) [0..<nat C] (fl_of_int fo 0)) (\<lambda>sum_sq.
     Inr (fl_div fo (fl_of_int fo 1) (fl_sqrt fo (fl_add fo (fl_div fo sum_sq (fl_of_int fo C)) eps))))"

definition rmsnorm_f32 :: "float_ops \<Rightarrow> u32 list \<Rightarrow> u32 list \<Rightarrow> u32 list \<Rightarrow> int \<Rightarrow> int \<Rightarrow> u32 \<Rightarrow> u32 list res" where
  "rmsnorm_f32 fo x scale out C S eps =
     for_loop (\<lambda>s out. bind_res (rms_column fo id x C S eps s) (\<lambda>inv_rms.
       for_loop (\<lambda>c out. bind_res (channel_index c S s) (\<lambda>i. bind_res (read_at x i) (\<lambda>v. bind_res (read_at scale c) (\<lambda>sc.
         write_at i (fl_mul fo (fl_mul fo v inv_rms) sc) out)))) [0..<nat C] out)) [0..<nat S] out"

definition rmsnorm_f16 :: "float_ops \<Rightarrow> 16 word list \<Rightarrow> 16 word list \<Rightarrow> 16 word list \<Rightarrow> int \<Rightarrow> int \<Rightarrow> u32 \<Rightarrow> 16 word list res" where
  "rmsnorm_f16 fo x scale out C S eps =
     for_loop (\<lambda>s out. bind_res (rms_column fo (f16_to_f32 fo) x C S eps s) (\<lambda>inv_rms.
       for_loop (\<lambda>c out. bind_res (channel_index c S s) (\<lambda>i. bind_res (read_at x i) (\<lambda>v. bind_res (read_at scale c) (\<lambda>sc.
         write_at i (f32_to_f16 fo (fl_mul fo (fl_mul fo (f16_to_f32 fo v) inv_rms) (f16_to_f32 fo sc))) out)))) [0..<nat C] out)) [0..<nat S] out"

section \<open>Transposition\<close>

definition dim_at :: "int list \<Rightarrow> int \<Rightarrow> int res" where
  "dim_at xs k = (if 0 \<le> k \<and> nat k < length xs then Inr (xs ! nat k) else Inl (Undefined_behaviour ''index out of bounds''))"

definition strides :: "int list \<Rightarrow> int list res" where
  "strides d = bind_res (int_mul (d ! 2) (d ! 3)) (\<lambda>s1. bind_res (int_mul (d ! 1) (d ! 2)) (\<lambda>p.
     bind_res (int_mul p (d ! 3)) (\<lambda>s0. Inr [s0, s1, d ! 3, 1])))"

definition flat_index :: "int list \<Rightarrow> int list \<Rightarrow> nat res" where
  "flat_index st ix =
     bind_res (int_mul (ix ! 0) (st ! 0)) (\<lambda>a. bind_res (int_mul (ix ! 1) (st ! 1)) (\<lambda>b.
     bind_res (int_mul (ix ! 2) (st ! 2)) (\<lambda>c. bind_res (int_mul (ix ! 3) (st ! 3)) (\<lambda>d.
     if int32_ok (a + b) \<and> int32_ok (a + b + c) \<and> int32_ok (a + b + c + d) \<and> 0 \<le> a + b + c + d then Inr (nat (a + b + c + d))
     else Inl (Undefined_behaviour ''index''))))) "

text \<open>\<open>in_idx\<close> starts uninitialised; element \<open>perm[d]\<close> is set to the output index.\<close>

definition scatter_index :: "int list \<Rightarrow> int list \<Rightarrow> int list res" where
  "scatter_index perm ix =
     bind_res (for_loop (\<lambda>d v. if 0 \<le> perm ! d \<and> perm ! d < 4 then Inr (v[nat (perm ! d) := Some (ix ! d)])
         else Inl (Undefined_behaviour ''index out of bounds'')) [0..<4] [None, None, None, None]) (\<lambda>v.
     if None \<in> set v then Inl (Undefined_behaviour ''uninitialised index'') else Inr (map the v))"

definition transpose_f16 :: "16 word list \<Rightarrow> 16 word list \<Rightarrow> int list \<Rightarrow> int list \<Rightarrow> 16 word list res" where
  "transpose_f16 src dst dims perm =
     bind_res (map_res (dim_at dims) perm) (\<lambda>out_dims.
     bind_res (strides dims) (\<lambda>in_stride. bind_res (strides out_dims) (\<lambda>out_stride.
     for_loop (\<lambda>i0. for_loop (\<lambda>i1. for_loop (\<lambda>i2. for_loop (\<lambda>i3 dst.
       let ix = [int i0, int i1, int i2, int i3] in
       bind_res (scatter_index perm ix) (\<lambda>in_ix.
       bind_res (flat_index in_stride in_ix) (\<lambda>s. bind_res (flat_index out_stride ix) (\<lambda>d.
       bind_res (read_at src s) (\<lambda>v. write_at d v dst)))))
       [0..<nat (out_dims ! 3)]) [0..<nat (out_dims ! 2)]) [0..<nat (out_dims ! 1)]) [0..<nat (out_dims ! 0)] dst)))"


section \<open>Loops\<close>

lemma for_loop_append: "for_loop f (xs @ ys) s = bind_res (for_loop f xs s) (for_loop f ys)"
proof (induction xs arbitrary: s)
  case (Cons x xs)
  then show ?case by (cases "f x s") auto
qed simp

lemma for_loop_upt:
  assumes "\<And>k s. a \<le> k \<Longrightarrow> k < n \<Longrightarrow> I k s \<Longrightarrow> \<exists>s'. f k s = Inr s' \<and> I (Suc k) s'" "I a s" "a \<le> n"
  shows "\<exists>s'. for_loop f [a..<n] s = Inr s' \<and> I n s'"
  using assms(3,1,2)
proof (induction n rule: dec_induct)
  case (step m)
  then obtain s' where "for_loop f [a..<m] s = Inr s'" "I m s'" by auto
  moreover obtain s'' where "f m s' = Inr s''" "I (Suc m) s''" using step.prems(1) [of m s'] step.hyps calculation(2) by auto
  ultimately show ?case using step.hyps(1) by (auto simp: for_loop_append)
qed simp

lemma for_loop_fold:
  "\<forall>i \<in> set is. \<forall>s. f i s = Inr (g s (h i)) \<Longrightarrow> for_loop f is s = Inr (foldl g s (map h is))"
  by (induction "is" arbitrary: s) auto

lemma for_loop_product: "for_loop (\<lambda>i. for_loop (f i) ys) xs = for_loop (\<lambda>(i, j). f i j) (List.product xs ys)"
proof -
  have "for_loop (f i) ys s = for_loop (\<lambda>(i, j). f i j) (map (Pair i) ys) s" for i s
    by (induction ys arbitrary: s) (auto intro: arg_cong [where f = "bind_res _"])
  then have "for_loop (\<lambda>i. for_loop (f i) ys) xs s = for_loop (\<lambda>(i, j). f i j) (List.product xs ys) s" for s
    by (induction xs arbitrary: s) (auto simp: for_loop_append intro: arg_cong [where f = "bind_res _"])
  then show ?thesis by (rule ext)
qed

lemma for_loop_writes:
  assumes "\<forall>x \<in> set xs. \<forall>s. length s = n \<longrightarrow> f x s = Inr (s[D x := V x])"
    "\<forall>x \<in> set xs. D x < n" "\<forall>x \<in> set xs. \<forall>y \<in> set xs. D x = D y \<longrightarrow> V x = V y" "length s = n"
  shows "\<exists>s'. for_loop f xs s = Inr s' \<and> length s' = n \<and> (\<forall>x \<in> set xs. s' ! D x = V x)
    \<and> (\<forall>k < n. k \<notin> D ` set xs \<longrightarrow> s' ! k = s ! k)"
  using assms
proof (induction xs arbitrary: s)
  case Nil
  show ?case using Nil.prems(4) by (intro exI [of _ s] conjI) simp_all
next
  case (Cons x xs)
  obtain s' where s': "for_loop f xs (s[D x := V x]) = Inr s'" "length s' = n" "\<forall>y \<in> set xs. s' ! D y = V y"
    "\<forall>k < n. k \<notin> D ` set xs \<longrightarrow> s' ! k = s[D x := V x] ! k"
  proof -
    have "\<forall>y \<in> set xs. \<forall>s. length s = n \<longrightarrow> f y s = Inr (s[D y := V y])" using Cons.prems(1) by simp
    moreover have "\<forall>y \<in> set xs. D y < n" using Cons.prems(2) by simp
    moreover have "\<forall>y \<in> set xs. \<forall>z \<in> set xs. D y = D z \<longrightarrow> V y = V z"
      using Cons.prems(3) by (meson list.set_intros(2))
    moreover have "length (s[D x := V x]) = n" using Cons.prems(4) by simp
    ultimately have "\<exists>s'. for_loop f xs (s[D x := V x]) = Inr s' \<and> length s' = n \<and> (\<forall>y \<in> set xs. s' ! D y = V y)
        \<and> (\<forall>k < n. k \<notin> D ` set xs \<longrightarrow> s' ! k = s[D x := V x] ! k)" by (rule Cons.IH)
    then show ?thesis using that by (elim exE conjE)
  qed
  have "s' ! D x = V x"
  proof (cases "D x \<in> D ` set xs")
    case True
    then obtain y where "y \<in> set xs" "D x = D y" by auto
    then show ?thesis using s'(3) Cons.prems(3) by (metis list.set_intros)
  next
    case False
    then show ?thesis using s'(4) Cons.prems(2,4) by simp
  qed
  then have "\<forall>y \<in> set (x # xs). s' ! D y = V y" using s'(3) by simp
  moreover have "s' ! k = s ! k" if "k < n" "k \<notin> D ` set (x # xs)" for k
  proof -
    have "k \<noteq> D x" "k \<notin> D ` set xs" using that(2) by simp_all
    then show ?thesis using s'(4) that(1) by simp
  qed
  moreover have "for_loop f (x # xs) s = Inr s'" using Cons.prems(1,4) s'(1) by simp
  ultimately show ?case using s'(2) by (intro exI [of _ s'] conjI) simp_all
qed

section \<open>Softmax on aliased arrays\<close>

definition slice :: "nat \<Rightarrow> nat \<Rightarrow> 'a list \<Rightarrow> 'a list" where
  "slice i n xs = take n (drop i xs)"

lemma nth_slice: "i + n \<le> length xs \<Longrightarrow> k < n \<Longrightarrow> slice i n xs ! k = xs ! (i + k)"
  by (simp add: slice_def)

lemma length_slice [simp]: "i + n \<le> length xs \<Longrightarrow> length (slice i n xs) = n"
  by (simp add: slice_def)

text \<open>Softmax of a row as a function of the row.\<close>

definition softmax_of :: "float_ops \<Rightarrow> u32 list \<Rightarrow> u32 list" where
  "softmax_of fo xs =
     (let m = foldl (\<lambda>m x. if fl_less fo m x then x else m) (hd xs) (tl xs);
          es = map (\<lambda>x. fl_exp fo (fl_sub fo x m)) xs;
          inv_sum = fl_div fo (fl_of_int fo 1) (foldl (fl_add fo) (fl_of_int fo 0) es)
      in map (\<lambda>e. fl_mul fo e inv_sum) es)"

lemma softmax_row_ok:
  assumes "0 < n" "i + n \<le> length mem" "o' + n \<le> length mem" "i = o' \<or> i + n \<le> o' \<or> o' + n \<le> i"
  shows "\<exists>mem'. softmax_row fo i o' n mem = Inr mem' \<and> length mem' = length mem
    \<and> slice o' n mem' = softmax_of fo (slice i n mem)
    \<and> (\<forall>k < length mem. k < o' \<or> o' + n \<le> k \<longrightarrow> mem' ! k = mem ! k)"
proof -
  define xs where "xs = slice i n mem"
  have xs: "length xs = n" "\<And>c. c < n \<Longrightarrow> mem ! (i + c) = xs ! c" using assms(2) by (simp_all add: xs_def nth_slice)
  define mx where "mx = foldl (\<lambda>m x. if fl_less fo m x then x else m) (hd xs) (tl xs)"
  define e where "e c = fl_exp fo (fl_sub fo (xs ! c) mx)" for c
  define sm where "sm c = foldl (fl_add fo) (fl_of_int fo 0) (map e [0..<c])" for c
  have "map ((!) xs) [1..<n] = tl xs" using xs(1) by (intro nth_equalityI) (simp_all add: nth_tl)
  moreover have "hd xs = mem ! i" using xs(2) [of 0] assms(1) xs(1) by (cases xs) auto
  ultimately have max: "for_loop (\<lambda>c m. bind_res (read_at mem (i + c)) (\<lambda>x. Inr (if fl_less fo m x then x else m))) [1..<n] (mem ! i) = Inr mx"
    using for_loop_fold [of "[1..<n]" "\<lambda>c m. bind_res (read_at mem (i + c)) (\<lambda>x. Inr (if fl_less fo m x then x else m))"
      "\<lambda>m x. if fl_less fo m x then x else m" "(!) xs" "mem ! i"] assms(2) xs(2)
    by (simp add: mx_def read_at_def)
  let ?I = "\<lambda>c (m, s). length m = length mem \<and> s = sm c \<and> (\<forall>k < length mem. m ! k = (if o' \<le> k \<and> k < o' + c then e (k - o') else mem ! k))"
  have "\<exists>s'. for_loop (\<lambda>c (mem, sm). bind_res (read_at mem (i + c)) (\<lambda>x.
          bind_res (write_at (o' + c) (fl_exp fo (fl_sub fo x mx)) mem) (\<lambda>mem.
          bind_res (read_at mem (o' + c)) (\<lambda>e. Inr (mem, fl_add fo sm e))))) [0..<n] (mem, fl_of_int fo 0) = Inr s' \<and> ?I n s'"
  proof (rule for_loop_upt [where I = ?I])
    fix c s assume c: "0 \<le> c" "c < n" "?I c s"
    obtain m t where s: "s = (m, t)" by (cases s)
    have "m ! (i + c) = xs ! c" using c s assms xs(2) by auto
    then show "\<exists>s'. (case s of (mem, sm) \<Rightarrow> bind_res (read_at mem (i + c)) (\<lambda>x.
          bind_res (write_at (o' + c) (fl_exp fo (fl_sub fo x mx)) mem) (\<lambda>mem.
          bind_res (read_at mem (o' + c)) (\<lambda>e. Inr (mem, fl_add fo sm e))))) = Inr s' \<and> ?I (Suc c) s'"
      using c s assms(2,3) by (auto simp: read_at_def write_at_def sm_def e_def nth_list_update less_Suc_eq)
  qed (auto simp: sm_def)
  then obtain m1 where m1: "for_loop (\<lambda>c (mem, sm). bind_res (read_at mem (i + c)) (\<lambda>x.
          bind_res (write_at (o' + c) (fl_exp fo (fl_sub fo x mx)) mem) (\<lambda>mem.
          bind_res (read_at mem (o' + c)) (\<lambda>e. Inr (mem, fl_add fo sm e))))) [0..<n] (mem, fl_of_int fo 0) = Inr (m1, sm n)" "?I n (m1, sm n)"
    by auto
  let ?inv = "fl_div fo (fl_of_int fo 1) (sm n)"
  let ?J = "\<lambda>c m. length m = length mem \<and> (\<forall>k < length mem. m ! k = (if o' \<le> k \<and> k < o' + c then fl_mul fo (e (k - o')) ?inv
      else if o' \<le> k \<and> k < o' + n then e (k - o') else mem ! k))"
  have "\<exists>m'. for_loop (\<lambda>c mem. bind_res (read_at mem (o' + c)) (\<lambda>e. write_at (o' + c) (fl_mul fo e ?inv) mem)) [0..<n] m1 = Inr m' \<and> ?J n m'"
  proof (rule for_loop_upt [where I = ?J])
    fix c m assume c: "0 \<le> c" "c < n" "?J c m"
    then show "\<exists>m'. bind_res (read_at m (o' + c)) (\<lambda>e. write_at (o' + c) (fl_mul fo e ?inv) m) = Inr m' \<and> ?J (Suc c) m'"
      using assms(3) by (auto simp: read_at_def write_at_def nth_list_update less_Suc_eq)
  qed (use m1(2) in auto)
  then obtain m' where m': "for_loop (\<lambda>c mem. bind_res (read_at mem (o' + c)) (\<lambda>e. write_at (o' + c) (fl_mul fo e ?inv) mem)) [0..<n] m1 = Inr m'" "?J n m'"
    by blast
  have "softmax_row fo i o' n mem = Inr m'"
    using assms(1,2) max m1(1) m'(1) by (simp add: softmax_row_def read_at_def Let_def)
  moreover have "slice o' n m' = softmax_of fo xs"
  proof (rule nth_equalityI)
    show "length (slice o' n m') = length (softmax_of fo xs)" using m'(2) assms(3) xs(1) by (simp add: softmax_of_def Let_def)
    have es: "map (\<lambda>x. fl_exp fo (fl_sub fo x mx)) xs = map e [0..<n]"
      using xs(1) by (intro nth_equalityI) (simp_all add: e_def)
    fix c assume "c < length (slice o' n m')"
    then have c: "c < n" using m'(2) assms(3) by simp
    then have "slice o' n m' ! c = fl_mul fo (e c) ?inv" using m'(2) assms(3) by (simp add: nth_slice)
    then show "slice o' n m' ! c = softmax_of fo xs ! c"
      unfolding softmax_of_def Let_def mx_def [symmetric] es sm_def using c by simp
  qed
  ultimately show ?thesis using m'(2) unfolding xs_def by (intro exI [of _ m']) auto
qed


lemma int_mul_nat: "a * b < 2 ^ 31 \<Longrightarrow> int_mul (int a) (int b) = Inr (int (a * b))"
proof -
  assume "a * b < 2 ^ 31"
  then have "int (a * b) < int (2 ^ 31)" by (simp only: of_nat_less_iff)
  moreover have "0 \<le> int a * int b" by simp
  then have "- (2 ^ 31) \<le> int a * int b" by (rule order_trans [rotated]) simp
  ultimately have "- (2 ^ 31) \<le> int a * int b" "int a * int b < 2 ^ 31" by simp_all
  then show ?thesis by (simp add: int_mul_def int32_ok_def)
qed

lemma softmax_rows:
  fixes inp outp :: nat
  assumes "0 < n" "int32_ok (int (rows * n))" "inp + rows * n \<le> length mem" "outp + rows * n \<le> length mem"
    "inp = outp \<or> inp + rows * n \<le> outp \<or> outp + rows * n \<le> inp"
  shows "\<exists>mem'. softmax_f32 fo inp outp (int rows) (int n) mem = Inr mem' \<and> length mem' = length mem
    \<and> (\<forall>r < rows. slice (outp + r * n) n mem' = softmax_of fo (slice (inp + r * n) n mem))
    \<and> (\<forall>k < length mem. k < outp \<or> outp + rows * n \<le> k \<longrightarrow> mem' ! k = mem ! k)"
proof -
  let ?I = "\<lambda>r m. length m = length mem \<and> (\<forall>q < r. slice (outp + q * n) n m = softmax_of fo (slice (inp + q * n) n mem))
    \<and> (\<forall>k < length mem. k < outp \<or> outp + r * n \<le> k \<longrightarrow> m ! k = mem ! k)"
  have "\<exists>m'. for_loop (\<lambda>r mem. bind_res (int_mul (int r) (int n)) (\<lambda>off.
       softmax_row fo (inp + nat off) (outp + nat off) (nat (int n)) mem)) [0..<rows] mem = Inr m' \<and> ?I rows m'"
  proof (rule for_loop_upt [where I = ?I])
    fix r m assume r: "0 \<le> r" "r < rows" "?I r m"
    have le: "r * n + n \<le> rows * n" using mult_le_mono1 [of "Suc r" rows n] r(2) by simp
    have "rows * n < 2 ^ 31" using assms(2) by (simp add: int32_ok_def del: of_nat_mult)
    then have "r * n < 2 ^ 31" using le by linarith
    then have mul: "int_mul (int r) (int n) = Inr (int (r * n))" by (rule int_mul_nat)
    have row: "slice (inp + r * n) n m = slice (inp + r * n) n mem"
    proof (rule nth_equalityI)
      show "length (slice (inp + r * n) n m) = length (slice (inp + r * n) n mem)" using r(3) by (simp add: slice_def)
      fix k assume "k < length (slice (inp + r * n) n m)"
      then have k: "k < n" by (simp add: slice_def)
      have "m ! (inp + r * n + k) = mem ! (inp + r * n + k)" using r(3) k le assms(3,5) by auto
      then show "slice (inp + r * n) n m ! k = slice (inp + r * n) n mem ! k"
        using k r(3) le assms(3) by (simp add: nth_slice)
    qed
    obtain m' where m': "softmax_row fo (inp + r * n) (outp + r * n) n m = Inr m'" "length m' = length m"
      "slice (outp + r * n) n m' = softmax_of fo (slice (inp + r * n) n mem)"
      "\<forall>k < length m. k < outp + r * n \<or> outp + r * n + n \<le> k \<longrightarrow> m' ! k = m ! k"
      using softmax_row_ok [of n "inp + r * n" m "outp + r * n" fo] assms(1,3-5) le r(3) row by auto
    have old: "slice (outp + q * n) n m' = softmax_of fo (slice (inp + q * n) n mem)" if q: "q < r" for q
    proof -
      have "Suc q * n \<le> r * n" using q by (intro mult_le_mono1) simp
      then have "slice (outp + q * n) n m' = slice (outp + q * n) n m"
        using m'(2,4) le assms(4) r(3) by (intro nth_equalityI) (simp_all add: nth_slice)
      then show ?thesis using r(3) q by simp
    qed
    have "?I (Suc r) m'"
      using m' r(3) old by (auto simp: less_Suc_eq)
    then show "\<exists>m'. bind_res (int_mul (int r) (int n)) (\<lambda>off. softmax_row fo (inp + nat off) (outp + nat off) (nat (int n)) m) = Inr m' \<and> ?I (Suc r) m'"
      using mul m'(1) by (simp add: nat_mult_distrib)
  qed auto
  then show ?thesis by (auto simp: softmax_f32_def)
qed

section \<open>Transposition of four dimensions\<close>

text \<open>The position of index \<open>js\<close> in a dense array of dimensions \<open>ds\<close>.\<close>

definition pos4 :: "nat list \<Rightarrow> nat list \<Rightarrow> nat" where
  "pos4 ds js = ((js ! 0 * ds ! 1 + js ! 1) * ds ! 2 + js ! 2) * ds ! 3 + js ! 3"

definition in_box :: "nat list \<Rightarrow> nat list \<Rightarrow> bool" where
  "in_box ds js \<longleftrightarrow> length js = 4 \<and> (\<forall>k < 4. js ! k < ds ! k)"

definition permuted :: "nat list \<Rightarrow> nat list \<Rightarrow> nat list" where
  "permuted ps xs = map ((!) xs) ps"

lemma len4: "length xs = 4 \<longleftrightarrow> (\<exists>a b c d. xs = [a, b, c, d])"
  by (auto simp: length_Suc_conv numeral_eq_Suc)

lemma all4: "(\<forall>k < 4. P k) \<longleftrightarrow> P 0 \<and> P 1 \<and> P 2 \<and> P (3 :: nat)"
  by (auto simp: numeral_eq_Suc less_Suc_eq)

lemma radix_less: "i < m \<Longrightarrow> j < n \<Longrightarrow> i * n + j < m * (n :: nat)"
proof -
  assume "i < m" "j < n"
  then have "i * n + j < Suc i * n" "Suc i * n \<le> m * n" by (simp, intro mult_le_mono1, simp)
  then show ?thesis by linarith
qed

lemma radix_inj: "j < n \<Longrightarrow> j' < n \<Longrightarrow> i * n + j = i' * n + (j' :: nat) \<longleftrightarrow> i = i' \<and> j = j'"
  by (metis add.commute add_diff_cancel_left' div_less div_mult_self1 mod_less mod_mult_self1 less_nat_zero_code neq0_conv zero_eq_add_iff_both_eq_0 plus_nat.add_0)

lemma pos4_less: "length ds = 4 \<Longrightarrow> in_box ds js \<Longrightarrow> pos4 ds js < prod_list ds"
  using radix_less by (auto simp: len4 in_box_def all4 pos4_def mult.assoc [symmetric] intro!: radix_less)

lemma pos4_inj: "length ds = 4 \<Longrightarrow> in_box ds js \<Longrightarrow> in_box ds ks \<Longrightarrow> pos4 ds js = pos4 ds ks \<longleftrightarrow> js = ks"
  by (auto simp: len4 in_box_def all4 pos4_def radix_inj)


lemma int32_ok_nat: "n < 2 ^ 31 \<Longrightarrow> int32_ok (int n)"
proof -
  assume "n < 2 ^ 31"
  then have "int n < int (2 ^ 31)" by (simp only: of_nat_less_iff)
  moreover have "- (2 ^ 31) \<le> int n" by (rule order_trans [of _ 0]) simp_all
  ultimately show ?thesis by (simp add: int32_ok_def)
qed

definition dense_strides :: "nat list \<Rightarrow> nat list" where
  "dense_strides ds = [ds ! 1 * ds ! 2 * ds ! 3, ds ! 2 * ds ! 3, ds ! 3, 1]"

lemma strides_dense:
  assumes "length ds = 4" "\<forall>d \<in> set ds. 0 < d" "prod_list ds < 2 ^ 31"
  shows "strides (map int ds) = Inr (map int (dense_strides ds))"
proof -
  obtain a b c d where ds: "ds = [a, b, c, d]" using assms(1) unfolding len4 by blast
  have pos: "0 < a * (b * (c * d))" using assms(2) ds by simp
  have dvd: "c * d dvd a * (b * (c * d))" "b * c dvd a * (b * (c * d))" "b * c * d dvd a * (b * (c * d))"
    by (simp_all add: mult.assoc)
  have "a * (b * (c * d)) < 2 ^ 31" using assms(3) ds by simp
  note lt = dvd [THEN dvd_imp_le, OF pos, THEN le_less_trans, OF this]
  show ?thesis
    using int_mul_nat [OF lt(1)] int_mul_nat [OF lt(2)] int_mul_nat [OF lt(3)] by (simp add: strides_def ds dense_strides_def)
qed

lemma pos4_sum: "pos4 ds js = js ! 0 * dense_strides ds ! 0 + js ! 1 * dense_strides ds ! 1 + js ! 2 * dense_strides ds ! 2 + js ! 3"
  by (simp add: pos4_def dense_strides_def algebra_simps)

lemma pos4_surj:
  assumes "length ds = 4" "k < prod_list ds"
  shows "\<exists>js. in_box ds js \<and> pos4 ds js = k"
proof -
  obtain a b c d where ds: "ds = [a, b, c, d]" using assms(1) unfolding len4 by blast
  have k: "k < a * b * c * d" using assms(2) by (simp add: ds mult.assoc)
  let ?js = "[k div d div c div b, k div d div c mod b, k div d mod c, k mod d]"
  have pos: "0 < d" "0 < c" "0 < b" using k by (auto intro: gr0I)
  have "k div d < a * b * c" using k by (simp add: less_mult_imp_div_less)
  then have "k div d div c < a * b" by (simp add: less_mult_imp_div_less)
  then have "k div d div c div b < a" by (simp add: less_mult_imp_div_less)
  then have "in_box ds ?js" using pos by (simp add: in_box_def all4 ds)
  moreover have "pos4 ds ?js = k" by (simp add: pos4_def ds)
  ultimately show ?thesis by blast
qed

lemma flat_index_pos4:
  assumes "length ds = 4" "in_box ds js" "prod_list ds < 2 ^ 31"
  shows "flat_index (map int (dense_strides ds)) (map int js) = Inr (pos4 ds js)"
proof -
  obtain i j k l where js: "js = [i, j, k, l]" using assms(2) unfolding in_box_def len4 by blast
  obtain s t u where st: "dense_strides ds = [s, t, u, 1]" by (simp add: dense_strides_def)
  have p: "pos4 ds js = i * s + j * t + k * u + l" by (simp add: pos4_sum st js)
  have lt: "i * s + j * t + k * u + l < 2 ^ 31" using pos4_less [OF assms(1,2)] assms(3) by (simp add: p)
  then have lts: "i * s < 2 ^ 31" "j * t < 2 ^ 31" "k * u < 2 ^ 31" "l * 1 < 2 ^ 31" "i * s + j * t < 2 ^ 31" "i * s + j * t + k * u < 2 ^ 31"
    by linarith+
  note muls = lts(1-4) [THEN int_mul_nat]
  have "int32_ok (int (i * s) + int (j * t))" "int32_ok (int (i * s) + int (j * t) + int (k * u))"
    "int32_ok (int (i * s) + int (j * t) + int (k * u) + int (l * 1))"
    using int32_ok_nat [OF lts(5)] int32_ok_nat [OF lts(6)] int32_ok_nat [OF lt] by (simp_all only: of_nat_add mult_1_right)
  moreover have "nat (int (i * s) + int (j * t) + int (k * u) + int (l * 1)) = pos4 ds js"
    unfolding p of_nat_add [symmetric] nat_int by simp
  ultimately show ?thesis using muls unfolding flat_index_def js st by (simp del: of_nat_mult)
qed

lemma perm_inverse:
  assumes "length ps = 4" "distinct ps" "set ps = {..<4}"
  obtains qs where "length qs = 4" "distinct qs" "set qs = {..<(4 :: nat)}" "\<forall>d < 4. ps ! (qs ! d) = d \<and> qs ! (ps ! d) = d"
proof -
  have "\<forall>d \<in> {..<4}. \<exists>k < 4. ps ! k = d" using assms(1,3) by (metis in_set_conv_nth)
  then obtain f where f: "\<forall>d \<in> {..<4}. f d < 4 \<and> ps ! f d = d" by metis
  let ?qs = "map f [0..<4]"
  have inv: "\<forall>d < 4. ps ! (?qs ! d) = d" using f by simp
  have inv': "?qs ! (ps ! d) = d" if d: "d < 4" for d
  proof -
    have "ps ! d < 4" using d assms(1,3) nth_mem by fastforce
    then have "f (ps ! d) < 4" "ps ! f (ps ! d) = ps ! d" using f by auto
    then have "f (ps ! d) = d" using assms(1,2) d by (simp add: nth_eq_iff_index_eq)
    then show ?thesis using \<open>ps ! d < 4\<close> by simp
  qed
  have "inj_on f {..<4}" using f by (metis inj_onI)
  moreover have "f ` {..<4} = {..<4}"
    using f calculation by (intro endo_inj_surj) auto
  ultimately have "distinct ?qs" "set ?qs = {..<4}" by (simp_all add: distinct_map atLeast0LessThan)
  then show ?thesis using that [of ?qs] inv inv' by simp
qed

lemma permuted_inverse:
  "length xs = 4 \<Longrightarrow> length ps = 4 \<Longrightarrow> length qs = 4 \<Longrightarrow> \<forall>d < 4. qs ! (ps ! d) = d \<and> ps ! d < 4 \<Longrightarrow> permuted ps (permuted qs xs) = xs"
  by (intro nth_equalityI) (simp_all add: permuted_def)

lemma prod_list_permuted:
  assumes "length ds = 4" "distinct ps" "set ps = {..<4}"
  shows "prod_list (permuted ps ds) = prod_list (ds :: nat list)"
proof -
  have "set ps = set [0..<4]" using assms(3) by (simp only: set_upt atLeast0LessThan)
  then have "mset ps = mset [0..<4]" by (rule set_eq_iff_mset_eq_distinct [OF assms(2) distinct_upt, THEN iffD1])
  then have "mset (map ((!) ds) ps) = mset (map ((!) ds) [0..<4])" by (simp only: mset_map)
  moreover have "map ((!) ds) [0..<4] = ds" using assms(1) by (metis map_nth)
  ultimately show ?thesis unfolding permuted_def by (metis prod_mset_prod_list)
qed

lemma scatter_permuted:
  assumes "length ps = 4" "distinct ps" "set ps = {..<4}" "length js = 4"
  shows "scatter_index (map int ps) (map int (permuted ps js)) = Inr (map int js)"
proof -
  obtain a b c d where ps: "ps = [a, b, c, d]" using assms(1) unfolding len4 by blast
  obtain i j k l where js: "js = [i, j, k, l]" using assms(4) unfolding len4 by blast
  have "a < 4" "b < 4" "c < 4" "d < 4" using assms(3) ps by auto
  then have "a \<in> {0, 1, 2, 3}" "b \<in> {0, 1, 2, 3}" "c \<in> {0, 1, 2, 3}" "d \<in> {0, 1, 2, 3}" by auto
  moreover have "distinct [a, b, c, d]" using assms(2) ps by simp
  moreover have "[0..<4] = [0, 1, 2, 3 :: nat]" by (simp add: upt_rec)
  ultimately show ?thesis
    unfolding scatter_index_def ps js permuted_def
    by (elim insertE emptyE) (simp_all add: numeral_2_eq_2 numeral_3_eq_3)
qed


definition quad :: "nat \<times> nat \<times> nat \<times> nat \<Rightarrow> nat list" where
  "quad x = (case x of (i, j, k, l) \<Rightarrow> [i, j, k, l])"

lemma transpose_moves:
  assumes ds: "length ds = 4" "\<forall>d \<in> set ds. 0 < d" "prod_list ds < 2 ^ 31"
    and ps: "length ps = 4" "distinct ps" "set ps = {..<4}"
    and len: "prod_list ds \<le> length src" "prod_list ds \<le> length dst"
  shows "\<exists>out. transpose_f16 src dst (map int ds) (map int ps) = Inr out \<and> length out = length dst
    \<and> (\<forall>js. in_box ds js \<longrightarrow> out ! pos4 (permuted ps ds) (permuted ps js) = src ! pos4 ds js)
    \<and> (\<forall>k < length dst. prod_list ds \<le> k \<longrightarrow> out ! k = dst ! k)"
proof -
  obtain qs where qs: "length qs = 4" "distinct qs" "set qs = {..<4}" "\<forall>d < 4. ps ! (qs ! d) = d \<and> qs ! (ps ! d) = d"
    using perm_inverse [OF ps] .
  let ?od = "permuted ps ds"
  have psd: "ps ! d < 4" "qs ! d < 4" if "d < 4" for d
    using that ps(1,3) qs(1,3) by (metis lessThan_iff nth_mem)+
  have od: "length ?od = 4" "\<forall>d \<in> set ?od. 0 < d" "prod_list ?od = prod_list ds"
    using ds ps psd prod_list_permuted [OF ds(1) ps(2,3)] by (auto simp: permuted_def)
  have inv: "permuted ps (permuted qs xs) = xs" "permuted qs (permuted ps xs) = xs" if "length xs = 4" for xs :: "nat list"
    using permuted_inverse [OF that ps(1) qs(1)] permuted_inverse [OF that qs(1) ps(1)] qs(4) psd by auto
  have unbox: "in_box ds (permuted qs ks)" if "in_box ?od ks" for ks :: "nat list"
    using that qs(1,4) ps(1) psd by (simp add: in_box_def permuted_def) metis
  have forth: "in_box ?od (permuted ps js)" if "in_box ds js" for js
    using that ps(1) psd by (simp add: in_box_def permuted_def)
  let ?L = "List.product [0..<?od ! 0] (List.product [0..<?od ! 1] (List.product [0..<?od ! 2] [0..<?od ! 3]))"
  have box: "in_box ?od (quad x)" if "x \<in> set ?L" for x
    using that by (auto simp: in_box_def all4 quad_def)
  have L: "\<exists>x \<in> set ?L. quad x = ks" if ks: "in_box ?od ks" for ks
  proof -
    obtain i j k l where "ks = [i, j, k, l]" using ks unfolding in_box_def len4 by blast
    then show ?thesis using ks by (intro bexI [of _ "(i, j, k, l)"]) (simp_all add: in_box_def all4 quad_def)
  qed
  let ?D = "\<lambda>x. pos4 ?od (quad x)" and ?V = "\<lambda>x. src ! pos4 ds (permuted qs (quad x))"
  let ?body = "\<lambda>x dst. let ix = map int (quad x) in
       bind_res (scatter_index (map int ps) ix) (\<lambda>in_ix.
       bind_res (flat_index (map int (dense_strides ds)) in_ix) (\<lambda>s. bind_res (flat_index (map int (dense_strides ?od)) ix) (\<lambda>d.
       bind_res (read_at src s) (\<lambda>v. write_at d v dst))))"
  have body: "?body x s = Inr (s[?D x := ?V x])" if x: "x \<in> set ?L" and s: "length s = length dst" for x s
  proof -
    have lenx: "length (quad x) = 4" using box [OF x] by (simp add: in_box_def)
    have "permuted ps (permuted qs (quad x)) = quad x" using inv(1) [OF lenx] .
    then have sc: "scatter_index (map int ps) (map int (quad x)) = Inr (map int (permuted qs (quad x)))"
      using scatter_permuted [OF ps, of "permuted qs (quad x)"] qs(1) by (simp add: permuted_def)
    have f: "flat_index (map int (dense_strides ds)) (map int (permuted qs (quad x))) = Inr (pos4 ds (permuted qs (quad x)))"
      "flat_index (map int (dense_strides ?od)) (map int (quad x)) = Inr (?D x)"
      using flat_index_pos4 [OF ds(1) unbox [OF box [OF x]] ds(3)] flat_index_pos4 [OF od(1) box [OF x]] od(3) ds(3) by simp_all
    have "pos4 ds (permuted qs (quad x)) < length src" "?D x < length s"
      using pos4_less [OF ds(1) unbox [OF box [OF x]]] pos4_less [OF od(1) box [OF x]] od(3) len s by simp_all
    then show ?thesis using sc f by (simp add: read_at_def write_at_def Let_def)
  qed
  have inj: "?V x = ?V y" if "x \<in> set ?L" "y \<in> set ?L" "?D x = ?D y" for x y
    using that pos4_inj [OF od(1) box box] by metis
  have lt: "?D x < length dst" if "x \<in> set ?L" for x using pos4_less [OF od(1) box [OF that]] od(3) len(2) by simp
  have "\<forall>x \<in> set ?L. \<forall>s. length s = length dst \<longrightarrow> ?body x s = Inr (s[?D x := ?V x])"
    by (intro ballI allI impI) (rule body)
  moreover have "\<forall>x \<in> set ?L. ?D x < length dst" by (intro ballI) (rule lt)
  moreover have "\<forall>x \<in> set ?L. \<forall>y \<in> set ?L. ?D x = ?D y \<longrightarrow> ?V x = ?V y" by (intro ballI impI) (rule inj)
  ultimately have ex: "\<exists>out. for_loop ?body ?L dst = Inr out \<and> length out = length dst \<and> (\<forall>x \<in> set ?L. out ! ?D x = ?V x)
    \<and> (\<forall>k < length dst. k \<notin> ?D ` set ?L \<longrightarrow> out ! k = dst ! k)"
    using for_loop_writes [where f = ?body and D = ?D and V = ?V and xs = ?L and s = dst and n = "length dst", OF _ _ _ refl] by blast
  then obtain out where out: "for_loop ?body ?L dst = Inr out" "length out = length dst" "\<forall>x \<in> set ?L. out ! ?D x = ?V x"
    "\<forall>k < length dst. k \<notin> ?D ` set ?L \<longrightarrow> out ! k = dst ! k" by (elim exE conjE)
  have dims: "map_res (dim_at (map int ds)) (map int ps) = Inr (map int ?od)"
  proof -
    have "map_res (dim_at (map int ds)) (map int ps) = Inr (map (\<lambda>k. map int ds ! nat k) (map int ps))"
    proof (rule map_res_total)
      fix x assume "x \<in> set (map int ps)"
      then obtain k where "x = int k" "k \<in> set ps" by auto
      moreover from this(2) have "k < 4" using ps(3) by simp
      ultimately show "dim_at (map int ds) x = Inr (map int ds ! nat x)" using ds(1) by (simp add: dim_at_def)
    qed
    moreover have "map int ds ! nat (int k) = int (ds ! k)" if "k \<in> set ps" for k using that ps(3) ds(1) by simp
    ultimately show ?thesis by (simp add: permuted_def)
  qed
  have "for_loop (\<lambda>i0. for_loop (\<lambda>i1. for_loop (\<lambda>i2. for_loop (\<lambda>i3 dst.
       let ix = [int i0, int i1, int i2, int i3] in
       bind_res (scatter_index (map int ps) ix) (\<lambda>in_ix.
       bind_res (flat_index (map int (dense_strides ds)) in_ix) (\<lambda>s. bind_res (flat_index (map int (dense_strides ?od)) ix) (\<lambda>d.
       bind_res (read_at src s) (\<lambda>v. write_at d v dst)))))
       [0..<?od ! 3]) [0..<?od ! 2]) [0..<?od ! 1]) [0..<?od ! 0] dst = for_loop ?body ?L dst"
    unfolding for_loop_product by (rule arg_cong2 [where f = "\<lambda>f. for_loop f ?L"]) (auto simp: quad_def fun_eq_iff)
  then have run: "transpose_f16 src dst (map int ds) (map int ps) = Inr out"
    unfolding transpose_f16_def dims bind_res.simps strides_dense [OF ds]
    using strides_dense [OF od(1,2)] od(1,3) ds(3) out(1) by simp
  have moved: "out ! pos4 ?od (permuted ps js) = src ! pos4 ds js" if js: "in_box ds js" for js
  proof -
    obtain x where x: "x \<in> set ?L" "quad x = permuted ps js" using L [OF forth [OF js]] by blast
    then show ?thesis using bspec [OF out(3) x(1)] inv(2) [of js] js by (simp add: in_box_def)
  qed
  have "out ! k = dst ! k" if "k < length dst" "prod_list ds \<le> k" for k
  proof -
    have "k \<notin> ?D ` set ?L" using that(2) pos4_less [OF od(1) box] od(3) by fastforce
    then show ?thesis using out(4) that(1) by blast
  qed
  then show ?thesis using run out(2) moved by blast
qed


text \<open>
  C35. Transposing by a permutation of the four dimensions, with non-empty dimensions whose product fits
  an \<open>int\<close> and arrays large enough: no undefined behaviour, every element goes to the position of its
  permuted index, nothing else is written, and transposing the result by the inverse permutation restores
  the input.
\<close>

theorem transpose_f16_correct:
  assumes "length ds = 4" "\<forall>d \<in> set ds. 0 < d" "prod_list ds < 2 ^ 31" "length ps = 4" "distinct ps" "set ps = {..<4}"
    "length src = prod_list ds" "prod_list ds \<le> length dst" "length qs = 4" "\<forall>d < 4. qs ! d < 4 \<and> ps ! (qs ! d) = d" "length scratch = prod_list ds"
  shows "\<exists>out. transpose_f16 src dst (map int ds) (map int ps) = Inr out \<and> length out = length dst
    \<and> (\<forall>js. in_box ds js \<longrightarrow> out ! pos4 (permuted ps ds) (permuted ps js) = src ! pos4 ds js)
    \<and> (\<forall>k < length dst. prod_list ds \<le> k \<longrightarrow> out ! k = dst ! k)
    \<and> transpose_f16 out scratch (map int (permuted ps ds)) (map int qs) = Inr src"
proof -
  obtain out where out: "transpose_f16 src dst (map int ds) (map int ps) = Inr out" "length out = length dst"
    "\<forall>js. in_box ds js \<longrightarrow> out ! pos4 (permuted ps ds) (permuted ps js) = src ! pos4 ds js"
    "\<forall>k < length dst. prod_list ds \<le> k \<longrightarrow> out ! k = dst ! k"
    using transpose_moves [OF assms(1-6) eq_imp_le [OF assms(7) [symmetric]] assms(8)] by blast
  obtain rs where rs: "length rs = 4" "distinct rs" "set rs = {..<4}" "\<forall>d < 4. ps ! (rs ! d) = d \<and> rs ! (ps ! d) = d"
    using perm_inverse [OF assms(4-6)] .
  have psd: "ps ! d < 4" "rs ! d < 4" if "d < 4" for d using that assms(4,6) rs(1,3) by (metis lessThan_iff nth_mem)+
  have "qs ! d = rs ! d" if d: "d < 4" for d
    using assms(4,5,10) rs(4) psd(2) [OF d] d by (metis nth_eq_iff_index_eq)
  then have "qs = rs" using assms(9) rs(1) by (intro nth_equalityI) simp_all
  let ?od = "permuted ps ds"
  have od: "length ?od = 4" "\<forall>d \<in> set ?od. 0 < d" "prod_list ?od = prod_list ds"
    using assms(1,2,4,6) psd prod_list_permuted [OF assms(1,5,6)] by (auto simp: permuted_def)
  have inv: "permuted rs (permuted ps xs) = xs" if "length xs = 4" for xs :: "nat list"
    using permuted_inverse [OF that rs(1) assms(4)] rs(4) psd by auto
  obtain src' where back': "transpose_f16 out scratch (map int ?od) (map int rs) = Inr src'" "length src' = length scratch"
    "\<forall>js. in_box ?od js \<longrightarrow> src' ! pos4 (permuted rs ?od) (permuted rs js) = out ! pos4 ?od js"
    using transpose_moves [OF od(1,2) _ rs(1-3), of out scratch] od(3) assms(3,8,11) out(2) by auto
  have "src' = src"
  proof (rule nth_equalityI)
    show "length src' = length src" using back'(2) assms(7,11) by simp
    fix k assume "k < length src'"
    then have "k < prod_list ds" using back'(2) assms(11) by simp
    then obtain js where js: "in_box ds js" "pos4 ds js = k" using pos4_surj [OF assms(1)] by blast
    have box: "in_box ?od (permuted ps js)" using js(1) assms(4) psd by (simp add: in_box_def permuted_def)
    have "src' ! pos4 ds js = out ! pos4 ?od (permuted ps js)"
      using back'(3) box inv [OF assms(1)] inv [of js] js(1) by (auto simp: in_box_def)
    then show "src' ! k = src ! k" using out(3) js by simp
  qed
  then show ?thesis using out back'(1) \<open>qs = rs\<close> by blast
qed


theorem transpose_f16_correct_witness:
  "\<exists>out. transpose_f16 [10, 11, 12, 13, 14, 15] (replicate 6 0) [1, 2, 1, 3] [0, 3, 2, 1] = Inr out
    \<and> transpose_f16 out (replicate 6 0) [1, 3, 1, 2] [0, 3, 2, 1] = Inr [10, 11, 12, 13, 14, 15]"
proof -
  have "\<forall>d < 4. [0, 3, 2, 1] ! d < (4 :: nat) \<and> [0, 3, 2, 1 :: nat] ! ([0, 3, 2, 1] ! d) = d"
    unfolding all4 by simp
  moreover have "set [0, 3, 2, 1] = {..<4 :: nat}" by auto
  ultimately show ?thesis
    using transpose_f16_correct [of "[1, 2, 1, 3]" "[0, 3, 2, 1]" "[10, 11, 12, 13, 14, 15]" "replicate 6 0" "[0, 3, 2, 1]" "replicate 6 0"]
    by (auto simp: permuted_def)
qed

text \<open>
  C36. Softmax is safe to run in place: with the input and output arrays equal (as \<open>softmax_f16\<close>
  calls it) or disjoint, every output row is the softmax of the input row as it was before the call, and
  nothing outside the output is written.
\<close>

theorem softmax_in_place:
  assumes "0 < n" "int32_ok (int (rows * n))" "inp + rows * n \<le> length mem" "outp + rows * n \<le> length mem"
    "inp = outp \<or> inp + rows * n \<le> outp \<or> outp + rows * n \<le> inp"
  shows "\<exists>mem'. softmax_f32 fo inp outp (int rows) (int n) mem = Inr mem' \<and> length mem' = length mem
    \<and> (\<forall>r < rows. take n (drop (outp + r * n) mem') = softmax_of fo (take n (drop (inp + r * n) mem)))
    \<and> (\<forall>k < length mem. k < outp \<or> outp + rows * n \<le> k \<longrightarrow> mem' ! k = mem ! k)"
  using softmax_rows [OF assms] by (simp add: slice_def)

text \<open>Arithmetic on the bit patterns themselves, as an example of the parameter.\<close>

definition demo_floats :: float_ops where
  "demo_floats = \<lparr>fl_hardware = False, fl_of_half = fp16_to_fp32, fl_to_half = fp32_to_fp16, fl_add = (+), fl_sub = (-),
     fl_mul = (*), fl_div = (div), fl_neg = uminus, fl_less = (<), fl_exp = id, fl_tanh = id, fl_sqrt = id, fl_of_int = of_int,
     cblas_sgemm = (\<lambda>M N K alpha A lda B ldb beta C ldc. C)\<rparr>"

theorem softmax_in_place_witness:
  "\<exists>mem'. softmax_f32 demo_floats 0 0 1 2 [5, 7, 9] = Inr mem' \<and> take 2 mem' = softmax_of demo_floats [5, 7] \<and> mem' ! 2 = 9"
  using softmax_in_place [of 2 1 0 "[5, 7, 9]" 0 demo_floats] by (auto simp: int32_ok_def)

end
