(* ===== verification/EmittedText.thy ===== *)
theory EmittedText
  imports MilBackend
begin

text \<open>
  A fact about the text \<open>MilBackend\<close> emits (src/core/mil_builder.cpp, src/graph/mil_backend.cpp): it
  contains no colon, whatever the fragments, as long as the rendering of floats puts none there
  (\<open>env_plain\<close>). The runtime's scan for parameter names looks for colons.
\<close>

definition colon_free :: "string \<Rightarrow> bool" where
  "colon_free s \<longleftrightarrow> CHR '':'' \<notin> set s"

lemma colon_free_simps [simp]: "colon_free []" "colon_free (c # s) \<longleftrightarrow> c \<noteq> CHR '':'' \<and> colon_free s"
  "colon_free (s @ t) \<longleftrightarrow> colon_free s \<and> colon_free t"
  by (auto simp: colon_free_def)

lemma digits_colon_free [simp]: "colon_free (nat_to_string n)"
  using nat_to_string_digits [of "CHR '':''" n] by (auto simp: colon_free_def is_digit_def)

lemma to_string_colon_free [simp]: "colon_free (to_string i)"
  by (simp add: to_string_def flip: nat_to_string_def)

lemma join_colon_free: "colon_free sep \<Longrightarrow> colon_free (join sep ss) \<longleftrightarrow> list_all colon_free ss"
  by (induction sep ss rule: join.induct) auto

fun val_plain :: "mil_val \<Rightarrow> bool" where
  "val_plain (Lit s) \<longleftrightarrow> colon_free s"
| "val_plain (Blob ty file offset) \<longleftrightarrow> colon_free ty \<and> colon_free file"

fun arg_plain :: "string \<times> mil_arg \<Rightarrow> bool" where
  "arg_plain (k, Ref x) \<longleftrightarrow> colon_free k \<and> colon_free x"
| "arg_plain (k, Text s) \<longleftrightarrow> colon_free k \<and> colon_free s"
| "arg_plain (k, Refs xs) \<longleftrightarrow> colon_free k \<and> list_all colon_free xs"

fun stmt_plain :: "mil_stmt \<Rightarrow> bool" where
  "stmt_plain (Const ty n pad v pad2) \<longleftrightarrow> colon_free ty \<and> colon_free n \<and> colon_free pad \<and> val_plain v \<and> colon_free pad2"
| "stmt_plain (Oper ty n pad op args label) \<longleftrightarrow>
     colon_free ty \<and> colon_free n \<and> colon_free pad \<and> colon_free op \<and> list_all arg_plain args \<and> colon_free label"

lemma dq_nl_colon_free [simp]: "colon_free dq" "colon_free nl"
  by (simp_all add: dq_def nl_def)

lemma val_plain_render: "val_plain v \<Longrightarrow> colon_free (render_val v)"
  by (cases v) simp_all

lemma arg_plain_render: "arg_plain a \<Longrightarrow> colon_free (render_arg a)"
  by (induction a rule: render_arg.induct) (simp_all add: join_colon_free)

lemma stmt_plain_render: "stmt_plain st \<Longrightarrow> colon_free (render st)"
  by (cases st) (auto simp: join_colon_free val_plain_render list_all_iff arg_plain_render)

lemma type_colon_free [simp]: "colon_free (tensor_type s)"
  by (simp add: tensor_type_def)

definition env_plain :: "mil_env \<Rightarrow> bool" where
  "env_plain E \<longleftrightarrow> (\<forall>c. colon_free (inv_lit E c)) \<and> colon_free (eps_lit E)
     \<and> (\<forall>v. colon_free (f_fmt6 (floats E) v)) \<and> (\<forall>v. colon_free (f_fixed7 (floats E) v))"

lemma tensor_var_colon_free [simp]: "colon_free (tensor_var k)"
  by (simp add: tensor_var_def)

lemma file_colon_free:
  assumes "f = [] \<or> f = weight_file_name i"
  shows "colon_free f" "colon_free (beta_file_name f)"
proof -
  show f: "colon_free f" using assms by (auto simp: weight_file_name_def)
  then show "colon_free (beta_file_name f)"
    by (auto simp: beta_file_name_def colon_free_def dest: in_set_takeD)
qed

lemma head_plain:
  assumes "node_to_fragment_head E n x y in_var out_var = Some (Inr fr)" "colon_free in_var" "colon_free out_var"
    "env_plain E" "colon_free (n_weight_file n)" "colon_free (beta_file_name (n_weight_file n))"
  shows "list_all stmt_plain (frag_body fr) \<and> frag_output fr = out_var"
  using assms
  by (cases "n_op n") (auto simp: node_to_fragment_head_def Let_def bind_res_Inr fragment_defs validate_bind_Inr
      file_ref_def blob_ref_def env_plain_def split: if_splits)

lemma literal_colon_free: "env_plain E \<Longrightarrow> colon_free (fp16_lit (floats E) v)"
  by (auto simp: fp16_lit_def Let_def env_plain_def) (auto simp: colon_free_def dest: in_set_takeD)

lemma segment_plain:
  assumes "colon_free p" "colon_free tt" "colon_free tb" "colon_free v" "\<And>i. colon_free (a i)" "\<And>i. colon_free (b i)"
    "\<And>i. colon_free (u i)" "colon_free cur"
  shows "list_all stmt_plain (fst (pwl_loop p tt tb v a b u k cur)) \<and> colon_free (snd (pwl_loop p tt tb v a b u k cur))"
  using assms(8)
  by (induction k arbitrary: cur)
    (auto simp: assms(1-7) pwl_segment_def fp16_const_def idx_def Let_def split_beta)

lemma pwl_plain:
  assumes "pwl_node_fragment E n y in_var out_var = Inr fr" "colon_free in_var" "colon_free out_var" "env_plain E"
  shows "list_all stmt_plain (frag_body fr) \<and> frag_output fr = out_var"
  using assms segment_plain literal_colon_free [OF assms(4)]
  by (auto simp: pwl_node_fragment_def pwl_activation_fragment_def Let_def validate_bind_Inr pwl_body_def fp16_const_def idx_def
      split_beta split: if_splits)

lemma tail_plain:
  assumes "node_to_fragment_tail E n x y in_var out_var = Inr fr" "colon_free in_var" "colon_free out_var"
    "env_plain E" "colon_free (n_weight_file n)"
  shows "list_all stmt_plain (frag_body fr) \<and> frag_output fr = out_var"
proof (cases "n_op n = LIBANE_OP_PWL_ACTIVATION")
  case True
  then show ?thesis using assms pwl_plain by (simp add: node_to_fragment_tail_def Let_def)
next
  case False
  then show ?thesis using assms
    by (cases "n_op n") (auto simp: node_to_fragment_tail_def Let_def bind_res_Inr fragment_defs validate_bind_Inr
      file_ref_def blob_ref_def split: if_splits)
qed

lemma node_plain:
  assumes "node_to_fragment E g n in_var out_var = Inr fr" "colon_free in_var" "colon_free out_var"
    "env_plain E" "n_weight_file n = [] \<or> n_weight_file n = weight_file_name i"
  shows "list_all stmt_plain (frag_body fr) \<and> frag_output fr = out_var"
  using assms(1) head_plain [OF _ assms(2-4) file_colon_free [OF assms(5)]] tail_plain [OF _ assms(2-4) file_colon_free(1) [OF assms(5)]]
  by (auto simp: node_to_fragment_def bind_res_Inr split: option.splits)

lemma group_plain:
  assumes "graph_wf g" "env_plain E"
  shows "group_fragments E g chain nids = Inr (frs, ws) \<Longrightarrow> colon_free chain
    \<Longrightarrow> \<forall>fr \<in> set frs. list_all stmt_plain (frag_body fr) \<and> colon_free (frag_output fr)"
proof (induction nids arbitrary: chain frs ws)
  case (Cons nid nids)
  obtain n fr frs' ws' where n: "node g nid = Inr n" and fr: "node_to_fragment E g n chain (tensor_var (n_output n)) = Inr fr"
    and rest: "group_fragments E g (tensor_var (n_output n)) nids = Inr (frs', ws')" and frs: "frs = fr # frs'"
    using Cons.prems(1) by (auto simp: bind_res_Inr Let_def)
  have "to_u32 (length (nodes g)) = length (nodes g)"
    using length_nodes_le [OF assms(1)] assms(1) by (simp add: graph_wf_def to_u32_def)
  then have "n \<in> set (nodes g)" using n by (auto simp: node_def split: if_splits)
  then have "n_weight_file n = [] \<or> n_weight_file n = weight_file_name (n_id n)"
    using assms(1) by (auto simp: graph_wf_def list_all_iff node_wf_def in_set_conv_nth)
  from node_plain [OF fr Cons.prems(2) _ assms(2) this] Cons.IH [OF rest] frs show ?case by auto
qed simp

lemma group_text_colon_free:
  assumes "graph_wf g" "env_plain E" "mil_group_program E g gr = Inr (p, ws)"
  shows "colon_free (prog_text p)"
proof -
  obtain ins frs where ins: "map_res (fused_input g) (gr_inputs gr) = Inr ins"
    and frs: "group_fragments E g (tensor_var (gr_inputs gr ! 0)) (node_ids gr) = Inr (frs, ws)" and p: "build_fused ins frs = Inr p"
    using assms(3) by (auto simp: mil_group_program_def bind_res_Inr split: if_splits)
  note pl = group_plain [OF assms(1,2) frs]
  have names: "colon_free (var_name i)" if "i \<in> set ins" for i
  proof -
    obtain k where "k < length ins" "i = ins ! k" using \<open>i \<in> set ins\<close> by (auto simp: in_set_conv_nth)
    then have "fused_input g (gr_inputs gr ! k) = Inr i" using map_res_InrD [OF ins] by simp
    then show ?thesis by (auto simp: fused_input_def bind_res_Inr)
  qed
  have code: "code p = \<lparr>params = map (\<lambda>i. (tensor_type (fused_shape i), var_name i)) (sort_key var_name ins),
       stmts = concat (map frag_body frs), result = frag_output (last frs)\<rparr>" and ne: "frs \<noteq> []"
    using p by (auto simp: build_fused_def Let_def split: if_splits)
  have header: "colon_free header" by (simp add: header_def)
  have body: "colon_free (concat (map render sts))" if "list_all stmt_plain sts" for sts
    using that by (induction sts) (auto simp: stmt_plain_render)
  have "list_all stmt_plain (concat (map frag_body frs))" "colon_free (frag_output (last frs))"
    using pl ne by (auto simp: list_all_iff)
  then show ?thesis using header body names
    by (simp add: prog_text_def render_code_def code join_colon_free list_all_iff)
qed

end
