(* ===== verification/AneRuntime.thy ===== *)
theory AneRuntime
  imports EmittedText CompilerBackend
begin

text \<open>
  The part of the runtime wrapper (src/runtime/ane_runtime.mm) that is plain C++: the scan of a MIL
  text for parameter and result names, and the checks and the reordering of
  \<open>ane_execute_multi\<close> before the dispatch. The dispatch itself, through Apple's private framework, is
  the parameter \<open>device\<close>: from the contents of the surfaces, in the order they are handed over, to the
  contents of the output surfaces in that order. The allocation size of a surface is
  the length of its contents, a null surface is \<open>None\<close>. \<open>find\<close> and its relatives return
  positions, \<open>None\<close> for \<open>npos\<close>. Names are sorted stably; \<open>std::sort\<close> may order equal names
  differently.
\<close>

section \<open>String searches\<close>

definition find_str :: "string \<Rightarrow> string \<Rightarrow> nat \<Rightarrow> nat option" where
  "find_str pat s pos = List.find (\<lambda>i. take (length pat) (drop i s) = pat) [pos..<length s + 1]"

definition find_ch :: "char \<Rightarrow> string \<Rightarrow> nat \<Rightarrow> nat option" where
  "find_ch c s pos = List.find (\<lambda>i. s ! i = c) [pos..<length s]"

definition blank :: "char \<Rightarrow> bool" where
  "blank c \<longleftrightarrow> c \<in> {CHR '' '', CHR 0x09, CHR 0x0A, CHR 0x0D}"

definition first_nonblank :: "string \<Rightarrow> nat option" where
  "first_nonblank s = List.find (\<lambda>i. \<not> blank (s ! i)) [0..<length s]"

definition last_nonblank :: "string \<Rightarrow> nat option" where
  "last_nonblank s = List.find (\<lambda>i. \<not> blank (s ! i)) (rev [0..<length s])"

definition substr :: "nat \<Rightarrow> nat \<Rightarrow> string \<Rightarrow> string" where
  "substr pos n s = take n (drop pos s)"

section \<open>Names in a signature\<close>

definition entry_name :: "string \<Rightarrow> string list" where
  "entry_name param =
     (case first_nonblank param of
        None \<Rightarrow> []
      | Some start \<Rightarrow> (case find_ch CHR '':'' param start of
          None \<Rightarrow> []
        | Some colon \<Rightarrow> (let nm = substr start (colon - start) param in
            case last_nonblank nm of None \<Rightarrow> [] | Some e \<Rightarrow> [substr 0 (e + 1) nm])))"

lemma find_ch_ge: "find_ch c s pos = Some i \<Longrightarrow> pos \<le> i \<and> i < length s \<and> s ! i = c"
  by (auto simp: find_ch_def find_Some_iff)

function sig_names :: "string \<Rightarrow> nat \<Rightarrow> string list" where
  "sig_names sig pos =
     (if pos < length sig then
        let comma = (case find_ch CHR '','' sig pos of None \<Rightarrow> length sig | Some c \<Rightarrow> c)
        in entry_name (substr pos (comma - pos) sig) @ sig_names sig (comma + 1)
      else [])"
  by pat_completeness auto
termination
  by (relation "measure (\<lambda>(sig, pos). length sig - pos)") (auto dest!: find_ch_ge split: option.splits)

declare sig_names.simps [simp del]

definition extract_input_params :: "string \<Rightarrow> string list" where
  "extract_input_params mil_text =
     (case find_str ''func main'' mil_text 0 of
        None \<Rightarrow> []
      | Some func_pos \<Rightarrow> (case find_ch CHR ''('' mil_text func_pos of
          None \<Rightarrow> []
        | Some paren_open \<Rightarrow> (case find_str ''->'' mil_text paren_open of
            None \<Rightarrow> []
          | Some arrow_pos \<Rightarrow> sig_names (substr (paren_open + 1) (arrow_pos - paren_open - 1) mil_text) 0)))"

text \<open>The parenthesis that closes the one at depth zero, from position \<open>i\<close>.\<close>

fun close_paren :: "string \<Rightarrow> int \<Rightarrow> nat \<Rightarrow> nat option" where
  "close_paren [] depth i = None"
| "close_paren (c # cs) depth i =
     (if c = CHR ''('' then close_paren cs (depth + 1) (i + 1)
      else if c = CHR '')'' then
        if depth - 1 = 0 then Some i else close_paren cs (depth - 1) (i + 1)
      else close_paren cs depth (i + 1))"

definition extract_output_vars :: "string \<Rightarrow> string list" where
  "extract_output_vars mil_text =
     (case find_str ''->'' mil_text 0 of
        None \<Rightarrow> []
      | Some arrow_pos \<Rightarrow> (case find_ch CHR ''('' mil_text arrow_pos of
          None \<Rightarrow> []
        | Some paren_open \<Rightarrow> (case close_paren (drop paren_open mil_text) 0 paren_open of
            None \<Rightarrow> []
          | Some paren_close \<Rightarrow> sig_names (substr (paren_open + 1) (paren_close - paren_open - 1) mil_text) 0)))"

record LoadedProgram = AneProgram +
  input_param_names :: "string list"
  output_var_names :: "string list"

text \<open>The names \<open>ane_compile\<close> stores with the program the framework compiled and loaded.\<close>

definition with_names :: "string \<Rightarrow> AneProgram \<Rightarrow> LoadedProgram" where
  "with_names mil_text p = AneProgram.extend p
     (LoadedProgram.fields (extract_input_params mil_text) (extract_output_vars mil_text))"

section \<open>Dispatch\<close>

type_synonym device = "AneProgram \<Rightarrow> byte list list \<Rightarrow> byte list list \<Rightarrow> byte list list option"

definition same_alloc :: "byte list list \<Rightarrow> bool" where
  "same_alloc xs \<longleftrightarrow> list_all (\<lambda>x. length x = length (hd xs)) xs"

definition alpha_indices :: "string list \<Rightarrow> nat list" where
  "alpha_indices names = sort_key (\<lambda>i. names ! i) [0..<length names]"

text \<open>The order in which surfaces are handed on; \<open>None\<close> when their number is not that of the names.\<close>

definition surface_order :: "string list \<Rightarrow> nat \<Rightarrow> nat list option" where
  "surface_order names k =
     (if 1 < k \<and> names \<noteq> [] then
        if length names \<noteq> k then None else Some (alpha_indices names)
      else Some [0..<k])"

definition runtime_execute_multi ::
  "bool \<Rightarrow> device \<Rightarrow> LoadedProgram \<Rightarrow> byte list option list \<Rightarrow> byte list option list \<Rightarrow> byte list list option" where
  "runtime_execute_multi available dev program inputs outputs =
     (if \<not> available \<or> inputs = [] \<or> outputs = [] then None
      else if None \<in> set inputs \<or> None \<in> set outputs then None
      else let ins = map the inputs; outs = map the outputs in
        if \<not> same_alloc ins \<or> \<not> same_alloc outs then None
        else case (surface_order (input_param_names program) (length ins),
                   surface_order (output_var_names program) (length outs)) of
          (Some ii, Some oi) \<Rightarrow>
            map_option (\<lambda>ms. foldl (\<lambda>os (j, m). os[j := m]) outs (zip oi ms))
              (dev (AneProgram.truncate program) (map ((!) ins) ii) (map ((!) outs) oi))
        | _ \<Rightarrow> None)"

section \<open>What the scan finds\<close>

lemma entry_no_colon: "colon_free s \<Longrightarrow> entry_name s = []"
  by (auto simp: entry_name_def colon_free_def dest!: find_ch_ge split: option.splits) (metis nth_mem)

lemma substr_colon_free: "colon_free s \<Longrightarrow> colon_free (substr i n s)"
  by (auto simp: colon_free_def substr_def dest: in_set_takeD in_set_dropD)

lemma sig_no_colon: "colon_free s \<Longrightarrow> sig_names s pos = []"
proof (induction s pos rule: sig_names.induct)
  case (1 s pos)
  then show ?case by (subst sig_names.simps) (simp add: entry_no_colon substr_colon_free Let_def)
qed

lemma extract_no_colon: "colon_free s \<Longrightarrow> extract_input_params s = [] \<and> extract_output_vars s = []"
  by (auto simp: extract_input_params_def extract_output_vars_def sig_no_colon substr_colon_free split: option.splits)

lemma find_upt: "a \<le> k \<Longrightarrow> k < b \<Longrightarrow> P k \<Longrightarrow> (\<And>i. a \<le> i \<Longrightarrow> i < k \<Longrightarrow> \<not> P i) \<Longrightarrow> List.find P [a..<b] = Some k"
  by (auto simp: find_Some_iff intro!: exI [of _ "k - a"])

lemma find_ch_at: "c \<notin> set v \<Longrightarrow> find_ch c (u @ v @ c # w) (length u) = Some (length u + length v)"
  unfolding find_ch_def by (rule find_upt) (auto simp: nth_append in_set_conv_nth)

lemma find_ch_none: "c \<notin> set v \<Longrightarrow> find_ch c (u @ v) (length u) = None"
  by (auto simp: find_ch_def find_None_iff nth_append in_set_conv_nth)

fun commas :: "string \<Rightarrow> string list" where
  "commas [] = [[]]"
| "commas (c # cs) = (if c = CHR '','' then [] # commas cs else (c # hd (commas cs)) # tl (commas cs))"

lemma commas_ne [simp]: "commas u \<noteq> []"
  by (cases u) auto

lemma commas_append: "commas (u @ CHR '','' # v) = commas u @ commas v"
  by (induction u) auto

lemma commas_none: "CHR '','' \<notin> set u \<Longrightarrow> commas u = [u]"
  by (induction u) auto

definition names_in :: "string \<Rightarrow> string list" where
  "names_in u = concat (map entry_name (commas u))"

lemma names_in_append: "names_in (u @ CHR '','' # v) = names_in u @ names_in v"
  by (simp add: names_in_def commas_append)

lemma sig_names_eq: "sig_names (p @ u) (length p) = names_in u"
proof (induction "length u" arbitrary: p u rule: less_induct)
  case less
  show ?case
  proof (cases "CHR '','' \<in> set u")
    case True
    then obtain a v where u: "u = a @ CHR '','' # v" "CHR '','' \<notin> set a" by (metis split_list_first)
    have "sig_names (p @ u) (length p) = entry_name a @ sig_names (p @ u) (length p + length a + 1)"
      using find_ch_at [OF u(2), of p v] u(1) by (subst sig_names.simps) (simp add: substr_def)
    also have "p @ u = (p @ a @ [CHR '','']) @ v" using u by simp
    also have "sig_names \<dots> (length p + length a + 1) = names_in v"
      using less.hyps [of v "p @ a @ [CHR '','']"] u(1) by simp
    finally have "sig_names (p @ u) (length p) = names_in a @ names_in v" using u by (simp add: names_in_def commas_none)
    then show ?thesis using u(1) names_in_append by simp
  next
    case False
    have "entry_name [] = []" by (simp add: entry_no_colon)
    moreover have "sig_names (p @ u) (Suc (length p + length u)) = []" by (subst sig_names.simps) simp
    ultimately show ?thesis using find_ch_none [OF False, of p] False
      by (subst sig_names.simps) (auto simp: substr_def names_in_def commas_none)
  qed
qed

definition name_ok :: "string \<Rightarrow> bool" where
  "name_ok n \<longleftrightarrow> n \<noteq> [] \<and> list_all (\<lambda>c. \<not> blank c \<and> c \<notin> set '',:-()'') n"

lemma entry_name_at:
  assumes "list_all blank sp" "name_ok n"
  shows "entry_name (sp @ n @ CHR '':'' # t) = [n]"
proof -
  have n: "n \<noteq> []" "\<And>i. i < length n \<Longrightarrow> \<not> blank (n ! i)" "CHR '':'' \<notin> set n"
    using assms(2) by (auto simp: name_ok_def list_all_length in_set_conv_nth)
  have "first_nonblank (sp @ n @ CHR '':'' # t) = Some (length sp)"
    unfolding first_nonblank_def using assms(1) n(1) n(2) [of 0]
    by (intro find_upt) (auto simp: nth_append list_all_length)
  moreover have "last_nonblank n = Some (length n - 1)"
  proof -
    obtain k where "length n = Suc k" using n(1) by (cases n) auto
    then show ?thesis using n(2) [of k] by (simp add: last_nonblank_def)
  qed
  ultimately show ?thesis using find_ch_at [OF n(3), of sp t] n(1)
    by (simp add: entry_name_def substr_def)
qed

lemma names_in_entry:
  assumes "list_all blank sp" "name_ok n" "colon_free t"
  shows "names_in (sp @ n @ CHR '':'' # t) = [n]"
proof -
  have nc: "CHR '','' \<notin> set sp" "CHR '','' \<notin> set n"
  proof -
    have "\<not> blank CHR '',''" by (simp add: blank_def)
    then show "CHR '','' \<notin> set sp" using assms(1) unfolding list_all_iff by blast
    have "CHR '','' \<in> set '',:-()''" by simp
    then show "CHR '','' \<notin> set n" using assms(2) unfolding name_ok_def list_all_iff by blast
  qed
  show ?thesis
  proof (cases "CHR '','' \<in> set t")
    case True
    then obtain a v where t: "t = a @ CHR '','' # v" "CHR '','' \<notin> set a" by (metis split_list_first)
    have "names_in v = []"
    proof -
      have "sig_names v 0 = []" by (rule sig_no_colon) (use assms(3) t(1) in simp)
      then show ?thesis using sig_names_eq [of "[]" v] by simp
    qed
    moreover have "names_in (sp @ n @ CHR '':'' # a) = [n]"
      using nc t(2) entry_name_at [OF assms(1,2)] by (simp add: names_in_def commas_none)
    ultimately show ?thesis using t(1) names_in_append [of "sp @ n @ CHR '':'' # a" v] by simp
  next
    case False
    then show ?thesis using nc entry_name_at [OF assms(1,2)] by (simp add: names_in_def commas_none)
  qed
qed

text \<open>A signature as documented: the entries \<open>name: type\<close>, separated by commas.\<close>

definition type_ok :: "string \<Rightarrow> bool" where
  "type_ok ty \<longleftrightarrow> list_all (\<lambda>c. c \<notin> set '':-()'') ty"

definition sig_ok :: "(string \<times> string) list \<Rightarrow> bool" where
  "sig_ok ps \<longleftrightarrow> ps \<noteq> [] \<and> list_all (\<lambda>(n, ty). name_ok n \<and> type_ok ty) ps"

definition sig_text :: "(string \<times> string) list \<Rightarrow> string" where
  "sig_text ps = join '', '' (map (\<lambda>(n, ty). n @ '': '' @ ty) ps)"

lemma type_ok_colon_free: "type_ok ty \<Longrightarrow> colon_free ty"
  by (auto simp: type_ok_def colon_free_def list_all_iff)

lemma names_in_sig:
  assumes "sig_ok ps" "colon_free rest" "list_all blank sp"
  shows "names_in (sp @ sig_text ps @ rest) = map fst ps"
  using assms(1,3)
proof (induction ps arbitrary: sp)
  case (Cons a ps)
  obtain n ty where a: "a = (n, ty)" by (cases a)
  have ok: "name_ok n" "colon_free ty" using Cons.prems a by (simp_all add: sig_ok_def type_ok_colon_free)
  show ?case
  proof (cases ps)
    case Nil
    then show ?thesis using names_in_entry [OF Cons.prems(2) ok(1), of "'' '' @ ty @ rest"] ok(2) a assms(2)
      by (simp add: sig_text_def)
  next
    case (Cons b bs)
    have "sig_text (a # ps) = n @ CHR '':'' # '' '' @ ty @ CHR '','' # '' '' @ sig_text ps"
      using Cons a by (simp add: sig_text_def)
    then have eq: "sp @ sig_text (a # ps) @ rest = (sp @ n @ CHR '':'' # '' '' @ ty) @ CHR '','' # ('' '' @ sig_text ps @ rest)"
      by simp
    have "names_in ('' '' @ sig_text ps @ rest) = map fst ps"
      using Cons.IH [of "'' ''"] Cons Cons.prems by (simp add: blank_def sig_ok_def)
    then show ?thesis unfolding eq names_in_append using names_in_entry [OF Cons.prems(2) ok(1), of "'' '' @ ty"] ok(2) a by simp
  qed
qed (simp add: sig_ok_def)

lemma join_chars: "c \<in> set (join sep ss) \<Longrightarrow> c \<in> set sep \<or> (\<exists>s \<in> set ss. c \<in> set s)"
  by (induction sep ss rule: join.induct) auto

lemma sig_text_chars:
  assumes "sig_ok ps" "c \<in> set ''-()''"
  shows "c \<notin> set (sig_text ps)"
proof
  assume "c \<in> set (sig_text ps)"
  moreover have "c \<notin> set '', ''" "c \<notin> set '': ''" using assms(2) by auto
  ultimately obtain n ty where m: "(n, ty) \<in> set ps" "c \<in> set n \<or> c \<in> set ty"
    by (force simp: sig_text_def dest!: join_chars)
  then have "name_ok n" "type_ok ty" using assms(1) by (auto simp: sig_ok_def list_all_iff)
  moreover have "c \<in> set '',:-()''" "c \<in> set '':-()''" using assms(2) by auto
  ultimately show False using m(2) unfolding name_ok_def type_ok_def list_all_iff by blast
qed

lemma find_arrow: "CHR ''-'' \<notin> set v \<Longrightarrow> find_str ''->'' (u @ v @ ''->'' @ w) (length u) = Some (length u + length v)"
  unfolding find_str_def by (rule find_upt) (auto simp: nth_append take_Suc_conv_app_nth numeral_2_eq_2 Cons_nth_drop_Suc [symmetric] in_set_conv_nth)

lemma close_paren_at: "CHR ''('' \<notin> set u \<Longrightarrow> CHR '')'' \<notin> set u \<Longrightarrow> close_paren (u @ CHR '')'' # w) 1 i = Some (i + length u)"
  by (induction u arbitrary: i) auto

definition documented :: "string \<Rightarrow> (string \<times> string) list \<Rightarrow> (string \<times> string) list \<Rightarrow> bool" where
  "documented mil_text ps os \<longleftrightarrow> sig_ok ps \<and> sig_ok os \<and>
     (\<exists>pre post. mil_text = pre @ ''func main<ios18>('' @ sig_text ps @ '') -> ('' @ sig_text os @ '')'' @ post
        \<and> find_str ''func main'' mil_text 0 = Some (length pre)
        \<and> find_str ''->'' mil_text 0 = Some (length pre + length (sig_text ps) + 19))"

lemma drop_prefix: "s = u @ v \<Longrightarrow> length u = n \<Longrightarrow> drop n s = v"
  by simp

lemma documented_names:
  assumes "documented mil_text ps os"
  shows "extract_input_params mil_text = map fst ps" "extract_output_vars mil_text = map fst os"
proof -
  obtain pre post where t: "mil_text = pre @ ''func main<ios18>('' @ sig_text ps @ '') -> ('' @ sig_text os @ '')'' @ post"
    and f: "find_str ''func main'' mil_text 0 = Some (length pre)" "find_str ''->'' mil_text 0 = Some (length pre + length (sig_text ps) + 19)"
    and ok: "sig_ok ps" "sig_ok os"
    using assms by (auto simp: documented_def)
  have p: "find_ch CHR ''('' mil_text (length pre) = Some (length pre + 16)"
    using find_ch_at [of "CHR ''(''" "''func main<ios18>''" pre] unfolding t by simp
  have "CHR ''-'' \<notin> set (''('' @ sig_text ps @ '') '')" using sig_text_chars [OF ok(1)] by simp
  from find_arrow [OF this, of "pre @ ''func main<ios18>''" "'' ('' @ sig_text os @ '')'' @ post"]
  have a: "find_str ''->'' mil_text (length pre + 16) = Some (length pre + length (sig_text ps) + 19)" unfolding t by (simp add: eval_nat_numeral)
  have "sig_names (sig_text ps @ '') '') 0 = map fst ps"
    using sig_names_eq [of "[]"] names_in_sig [OF ok(1), of "'') ''" "[]"] by simp
  then show "extract_input_params mil_text = map fst ps"
    using f(1) p a by (simp add: extract_input_params_def substr_def t)
  let ?pre = "pre @ ''func main<ios18>('' @ sig_text ps @ '') ''"
  have q: "find_ch CHR ''('' mil_text (length pre + length (sig_text ps) + 19) = Some (length pre + length (sig_text ps) + 22)"
    using find_ch_at [of "CHR ''(''" "''-> ''" ?pre "sig_text os @ '')'' @ post"] unfolding t by (simp add: eval_nat_numeral)
  have d: "drop (length pre + length (sig_text ps) + 22) mil_text = ''('' @ sig_text os @ '')'' @ post"
    by (rule drop_prefix [of _ "?pre @ ''-> ''"]) (simp_all add: t)
  have "close_paren (drop (length pre + length (sig_text ps) + 22) mil_text) 0 (length pre + length (sig_text ps) + 22)
      = Some (length pre + length (sig_text ps) + 23 + length (sig_text os))"
    using close_paren_at [of "sig_text os"] sig_text_chars [OF ok(2)] by (simp add: d)
  moreover have "drop (Suc (length pre + length (sig_text ps) + 22)) mil_text = sig_text os @ '')'' @ post"
    by (rule drop_prefix [of _ "?pre @ ''-> (''"]) (simp_all add: t)
  moreover have "sig_names (sig_text os) 0 = map fst os"
    using sig_names_eq [of "[]"] names_in_sig [OF ok(2), of "[]" "[]"] by simp
  ultimately show "extract_output_vars mil_text = map fst os"
    using f(2) q by (simp add: extract_output_vars_def substr_def)
qed

section \<open>The order of the surfaces\<close>

lemma alpha_sorted:
  assumes "length names = length xs"
  shows "map ((!) xs) (alpha_indices names) = map snd (sort_key fst (zip names xs))"
proof -
  have z: "zip names xs = map (\<lambda>i. (names ! i, xs ! i)) [0..<length names]"
    using assms by (intro nth_equalityI) simp_all
  have "sort_key fst (map (\<lambda>i. (names ! i, xs ! i)) is) = map (\<lambda>i. (names ! i, xs ! i)) (sort_key (\<lambda>i. names ! i) is)" for "is" :: "nat list"
  proof -
    have "insort_key fst (names ! i, xs ! i) (map (\<lambda>i. (names ! i, xs ! i)) js) = map (\<lambda>i. (names ! i, xs ! i)) (insort_key (\<lambda>i. names ! i) i js)" for i js
      by (induction js) auto
    then show ?thesis by (induction "is") simp_all
  qed
  then show ?thesis unfolding z alpha_indices_def by (simp add: comp_def)
qed

lemma alpha_perm: "set (alpha_indices names) = {..<length names}" "distinct (alpha_indices names)" "length (alpha_indices names) = length names"
  by (auto simp: alpha_indices_def)

lemma order_sorted:
  assumes "length names = k" "0 < k"
  shows "\<exists>is. surface_order names k = Some is \<and> is = alpha_indices names"
proof (cases "k = 1")
  case True
  then have "alpha_indices names = [0]" using assms(1) by (simp add: alpha_indices_def)
  then show ?thesis using True by (simp add: surface_order_def)
qed (use assms in \<open>auto simp: surface_order_def\<close>)

lemma put_back:
  assumes "distinct is" "length ms = length is" "set is \<subseteq> {..<length os}"
  shows "length (foldl (\<lambda>os (j, m). os[j := m]) os (zip is ms)) = length os
    \<and> (\<forall>k < length is. foldl (\<lambda>os (j, m). os[j := m]) os (zip is ms) ! (is ! k) = ms ! k)
    \<and> (\<forall>j < length os. j \<notin> set is \<longrightarrow> foldl (\<lambda>os (j, m). os[j := m]) os (zip is ms) ! j = os ! j)"
  using assms
proof (induction "is" arbitrary: ms os)
  case (Cons i "is")
  obtain m ms' where ms: "ms = m # ms'" using Cons.prems(2) by (cases ms) auto
  note IH = Cons.IH [of ms' "os[i := m]"]
  show ?case using Cons.prems IH ms by (auto simp: nth_Cons split: nat.splits)
qed simp

lemma truncate_with_names [simp]: "AneProgram.truncate (with_names t q) = q"
  by (simp add: with_names_def AneProgram.truncate_def AneProgram.extend_def)

lemma with_names_simps [simp]: "input_param_names (with_names t q) = extract_input_params t"
  "output_var_names (with_names t q) = extract_output_vars t"
  by (simp_all add: with_names_def AneProgram.extend_def LoadedProgram.fields_def)

lemma runtime_execute_ordered:
  assumes "ins \<noteq> []" "outs \<noteq> []" "same_alloc ins" "same_alloc outs"
    and "surface_order (input_param_names p) (length ins) = Some ii" "surface_order (output_var_names p) (length outs) = Some oi"
  shows "runtime_execute_multi True dev p (map Some ins) (map Some outs) =
    map_option (\<lambda>ms. foldl (\<lambda>os (j, m). os[j := m]) outs (zip oi ms))
      (dev (AneProgram.truncate p) (map ((!) ins) ii) (map ((!) outs) oi))"
proof -
  have the: "map the (map Some xs) = xs" for xs :: "byte list list" by (simp add: comp_def)
  show ?thesis unfolding runtime_execute_multi_def the Let_def using assms by simp
qed

definition by_name :: "(string \<times> string) list \<Rightarrow> byte list list \<Rightarrow> byte list list" where
  "by_name ps xs = map snd (sort_key fst (zip (map fst ps) xs))"

lemma put_back_named:
  assumes "distinct names" "length os = length names" "length ms = length names"
  shows "foldl (\<lambda>os (j, m). os[j := m]) os (zip (alpha_indices names) ms)
    = map (\<lambda>n. the (map_of (zip (sort names) ms) n)) names"
proof (rule nth_equalityI)
  note ap = alpha_perm [of names]
  have pb: "set (alpha_indices names) \<subseteq> {..<length os}" "length ms = length (alpha_indices names)" using ap assms by simp_all
  note r = put_back [OF ap(2) pb(2,1)]
  show len: "length (foldl (\<lambda>os (j, m). os[j := m]) os (zip (alpha_indices names) ms))
      = length (map (\<lambda>n. the (map_of (zip (sort names) ms) n)) names)"
    using r assms(2) by simp
  have srt: "sort names = map ((!) names) (alpha_indices names)"
    unfolding alpha_indices_def using sort_map_key [of "(!) names" "[0..<length names]"] by (simp add: map_nth comp_def)
  fix j assume "j < length (foldl (\<lambda>os (j, m). os[j := m]) os (zip (alpha_indices names) ms))"
  then have j: "j < length names" using len by simp
  then obtain k where k: "k < length names" "alpha_indices names ! k = j"
    using ap(1,3) by (metis in_set_conv_nth lessThan_iff)
  have "names ! j = sort names ! k" using k ap(3) by (simp add: srt)
  moreover have "map_of (zip (sort names) ms) (sort names ! k) = Some (ms ! k)"
    using k assms by (intro map_of_zip_nth) simp_all
  ultimately show "foldl (\<lambda>os (j, m). os[j := m]) os (zip (alpha_indices names) ms) ! j
      = map (\<lambda>n. the (map_of (zip (sort names) ms) n)) names ! j"
    using r k ap(3) j by (metis nth_map option.sel)
qed

text \<open>
  C15. Binding of surfaces to names: when the MIL text has a signature of the documented form, with
  distinct names, the runtime recovers the names in order, the device gets the input and the
  output surfaces in alphabetical order of their names, whatever the caller's order, and each of the
  caller's output surfaces receives what the device wrote for its name.
\<close>

theorem runtime_reorders:
  assumes doc: "documented mil_text ps os" and names: "distinct (map fst ps)" "distinct (map fst os)"
    and "length ins = length ps" "length outs = length os" "same_alloc ins" "same_alloc outs"
    and dev: "\<And>ms. dev q (by_name ps ins) (by_name os outs) = Some ms \<Longrightarrow> length ms = length outs"
  shows "runtime_execute_multi True dev (with_names mil_text q) (map Some ins) (map Some outs) =
    map_option (\<lambda>ms. map (\<lambda>n. the (map_of (zip (sort (map fst os)) ms) n)) (map fst os))
      (dev q (by_name ps ins) (by_name os outs))"
proof -
  have "ps \<noteq> []" "os \<noteq> []" using doc by (auto simp: documented_def sig_ok_def)
  then have ne: "ins \<noteq> []" "outs \<noteq> []" "0 < length ps" "0 < length os" using assms(4,5) by auto
  have o: "surface_order (map fst ps) (length ins) = Some (alpha_indices (map fst ps))"
    "surface_order (map fst os) (length outs) = Some (alpha_indices (map fst os))"
    using order_sorted [of "map fst ps" "length ps"] order_sorted [of "map fst os" "length os"] assms(4,5) ne(3,4) by simp_all
  have "runtime_execute_multi True dev (with_names mil_text q) (map Some ins) (map Some outs) =
      map_option (\<lambda>ms. foldl (\<lambda>os (j, m). os[j := m]) outs (zip (alpha_indices (map fst os)) ms))
        (dev q (by_name ps ins) (by_name os outs))"
    using runtime_execute_ordered [OF ne(1,2) assms(6,7), of "with_names mil_text q"] o documented_names [OF doc]
      alpha_sorted [of "map fst ps" ins] alpha_sorted [of "map fst os" outs] assms(4,5) by (simp add: by_name_def)
  also have "\<dots> = map_option (\<lambda>ms. map (\<lambda>n. the (map_of (zip (sort (map fst os)) ms) n)) (map fst os))
      (dev q (by_name ps ins) (by_name os outs))"
    using put_back_named [OF names(2)] dev assms(5) by (cases "dev q (by_name ps ins) (by_name os outs)") simp_all
  finally show ?thesis .
qed

lemma put_back_id:
  assumes "length ms = length os"
  shows "foldl (\<lambda>os (j, m). os[j := m]) os (zip [0..<length os] ms) = ms"
proof (rule nth_equalityI)
  have "set [0..<length os] \<subseteq> {..<length os}" by auto
  note r = put_back [OF distinct_upt _ this, of ms]
  show len: "length (foldl (\<lambda>os (j, m). os[j := m]) os (zip [0..<length os] ms)) = length ms" using r assms by simp
  fix j assume "j < length (foldl (\<lambda>os (j, m). os[j := m]) os (zip [0..<length os] ms))"
  then show "foldl (\<lambda>os (j, m). os[j := m]) os (zip [0..<length os] ms) ! j = ms ! j" using r len assms by auto
qed

lemma fused_input_name: "fused_input g x = Inr y \<Longrightarrow> var_name y = tensor_var x"
  by (auto simp: fused_input_def bind_res_Inr)

text \<open>
  C17. The reordering never happens for compiled graphs: \<open>MilBackend\<close> emits parameters as
  \<open>type name\<close>, without a colon, so the runtime recovers no names from the text of any fusion group and
  hands the surfaces over in the caller's order. The executor passes them in the order of the
  group's inputs, while the parameters of the program are sorted by name: the two orders
  agree exactly when the names of the group's inputs are already sorted, which \<open>t2, t10\<close> are not.
\<close>

theorem emitted_inputs_keep_order:
  assumes "built g" "fits g" "env_plain E" and mp: "mil_group_program E g gr = Inr (mp, ws)"
    and surf: "ins \<noteq> []" "outs \<noteq> []" "same_alloc ins" "same_alloc outs"
    and dev: "\<And>ms. dev q ins outs = Some ms \<Longrightarrow> length ms = length outs"
  shows "runtime_execute_multi True dev (with_names (prog_text mp) q) (map Some ins) (map Some outs) = dev q ins outs
    \<and> (map snd (params (code mp)) = map tensor_var (gr_inputs gr) \<longleftrightarrow> sorted (map tensor_var (gr_inputs gr)))"
proof -
  have wf: "graph_wf g" using assms(1,2) by (simp add: fits_def built_graph_wf)
  note none = extract_no_colon [OF group_text_colon_free [OF wf assms(3) mp]]
  have "runtime_execute_multi True dev (with_names (prog_text mp) q) (map Some ins) (map Some outs) =
      map_option (\<lambda>ms. foldl (\<lambda>os (j, m). os[j := m]) outs (zip [0..<length outs] ms)) (dev q ins outs)"
    using runtime_execute_ordered [OF surf, of "with_names (prog_text mp) q" "[0..<length ins]" "[0..<length outs]"] none
    by (simp add: surface_order_def map_nth)
  then have "runtime_execute_multi True dev (with_names (prog_text mp) q) (map Some ins) (map Some outs) = dev q ins outs"
    using put_back_id dev by (cases "dev q ins outs") simp_all
  moreover have "map snd (params (code mp)) = sort (map tensor_var (gr_inputs gr))"
  proof -
    obtain xs frs where xs: "map_res (fused_input g) (gr_inputs gr) = Inr xs" and p: "build_fused xs frs = Inr mp"
      using mp by (auto simp: mil_group_program_def bind_res_Inr split: if_splits)
    have "map var_name xs = map tensor_var (gr_inputs gr)"
    proof (rule nth_equalityI)
      show "length (map var_name xs) = length (map tensor_var (gr_inputs gr))" using map_res_InrD [OF xs] by simp
      fix i assume "i < length (map var_name xs)"
      then have i: "i < length xs" "fused_input g (gr_inputs gr ! i) = Inr (xs ! i)" using map_res_InrD [OF xs] by simp_all
      then show "map var_name xs ! i = map tensor_var (gr_inputs gr) ! i" using fused_input_name [OF i(2)] i(1) map_res_InrD [OF xs] by simp
    qed
    then show ?thesis using p sort_map_key [of var_name xs]
      by (auto simp: build_fused_def Let_def comp_def split: if_splits)
  qed
  moreover have "sort xs = xs \<longleftrightarrow> sorted xs" for xs :: "string list" by (metis sorted_sort sorted_sort_id)
  ultimately show ?thesis by simp
qed

definition sum_calls :: "build_call list" where
  "sum_calls = (let i = Add_input ''x'' demo_shape in [i, i, i, i, i, i, i, i, i, i, i,
     Add_op LIBANE_OP_ADD [2, 10] demo_shape None, Mark_output 11 ''sum''])"

definition sum_graph :: AneGraph where
  "sum_graph = (case run_build sum_calls empty_graph of Inl e \<Rightarrow> empty_graph | Inr g \<Rightarrow> g)"

lemma sum_graph_run: "run_build sum_calls empty_graph = Inr sum_graph" "fits sum_graph"
  "nodes sum_graph = [\<lparr>n_id = 0, n_op = LIBANE_OP_ADD, n_inputs = [2, 10], n_output = 11, n_weights = [], n_weight_file = []\<rparr>]"
  "map t_shape (tensors sum_graph) = (let s = demo_shape in [s, s, s, s, s, s, s, s, s, s, s, s])"
  by (simp_all add: sum_graph_def sum_calls_def add_input_def add_op_def mark_output_def validate_def
      demo_shape_def alloc_tensor_def empty_graph_def Let_def to_u32_def weight_file_name_def fits_def weights_fit_def
      decimal_eval kInvalidNodeId_def signed_modulo_int_def)

lemma demo_env_plain: "env_plain demo_mil_env"
  by (simp add: env_plain_def demo_mil_env_def)

definition demo_program :: AneProgram where
  "demo_program = \<lparr>prog_handle = 1, model_dir = [], objc_client_model = False, client_in_seq = 0, client_out_seq = 0\<rparr>"

theorem runtime_reorders_witness:
  "runtime_execute_multi True (\<lambda>_ i u. Some [hd i]) (with_names ''func main<ios18>(x: t, a: t) -> (y: t)'' demo_program) [Some [1], Some [2]] [Some [0]]
     = Some [[2]]"
proof -
  have d: "documented ''func main<ios18>(x: t, a: t) -> (y: t)'' [(''x'', ''t''), (''a'', ''t'')] [(''y'', ''t'')]"
    unfolding documented_def
  proof (intro conjI exI [of _ "[]"])
    show "sig_ok [(''x'', ''t''), (''a'', ''t'')]" "sig_ok [(''y'', ''t'')]"
      by (simp_all add: sig_ok_def name_ok_def type_ok_def blank_def)
    show "find_str ''func main'' ''func main<ios18>(x: t, a: t) -> (y: t)'' 0 = Some (length [])" by code_simp
    show "find_str ''->'' ''func main<ios18>(x: t, a: t) -> (y: t)'' 0 = Some (length [] + length (sig_text [(''x'', ''t''), (''a'', ''t'')]) + 19)" by code_simp
  qed (simp add: sig_text_def)
  show ?thesis
    using runtime_reorders [OF d, of "[[1], [2]]" "[[0]]" "\<lambda>_ i u. Some [hd i]" demo_program]
    by (simp add: same_alloc_def by_name_def)
qed

lemma sum_tensor: "i < 12 \<Longrightarrow> \<exists>t. tensor sum_graph i = Inr t \<and> t_shape t = demo_shape"
proof -
  assume i: "i < 12"
  have len: "length (tensors sum_graph) = 12" using arg_cong [OF sum_graph_run(4), of length] by (simp add: Let_def)
  have "map t_shape (tensors sum_graph) = replicate 12 demo_shape" using sum_graph_run(4) by (simp add: numeral_eq_Suc Let_def)
  then have "t_shape (tensors sum_graph ! i) = demo_shape" using len i by (metis nth_map nth_replicate)
  then show ?thesis using len i by (simp add: tensor_def to_u32_def)
qed

theorem emitted_inputs_keep_order_witness:
  "\<exists>mp ws. mil_group_program demo_mil_env sum_graph \<lparr>node_ids = [0], gr_inputs = [2, 10], gr_output = 11\<rparr> = Inr (mp, ws)
     \<and> runtime_execute_multi True (\<lambda>_ i u. Some [hd i]) (with_names (prog_text mp) demo_program) [Some [2], Some [10]] [Some [0]] = Some [[2]]
     \<and> map snd (params (code mp)) \<noteq> [tensor_var 2, tensor_var 10]"
proof -
  let ?gr = "\<lparr>node_ids = [0], gr_inputs = [2, 10], gr_output = 11\<rparr>"
  obtain t2 t10 t11 where t: "tensor sum_graph 2 = Inr t2" "tensor sum_graph 10 = Inr t10" "tensor sum_graph 11 = Inr t11"
    "t_shape t2 = demo_shape" "t_shape t10 = demo_shape" "t_shape t11 = demo_shape"
    using sum_tensor [of 2] sum_tensor [of 10] sum_tensor [of 11] by auto
  have "\<exists>mp ws. mil_group_program demo_mil_env sum_graph ?gr = Inr (mp, ws)"
    using t sum_graph_run(3)
    by (simp add: mil_group_program_def fused_input_def node_def to_u32_def node_to_fragment_def node_to_fragment_head_def
        add_fragment_def validate_def demo_shape_def Let_def side_var_def node_weights_def build_fused_def signed_modulo_int_def)
  then obtain mp ws where mp: "mil_group_program demo_mil_env sum_graph ?gr = Inr (mp, ws)" by blast
  have "\<not> sorted (map tensor_var (gr_inputs ?gr))"
    by (simp add: tensor_var_def decimal_eval)
  then show ?thesis
    using emitted_inputs_keep_order [OF run_build_built [OF built.built_empty sum_graph_run(1)] sum_graph_run(2) demo_env_plain mp,
        of "[[2], [10]]" "[[0]]" "\<lambda>_ i u. Some [hd i]" demo_program] mp
    by (auto simp: same_alloc_def)
qed

end
