(* ===== verification/LibaneApi.thy ===== *)
theory LibaneApi
  imports CompileCache CpuFallback GraphExecutor MilPrograms
begin

text \<open>
  The C interface (src/libane.cpp, src/libane_internal.hpp, and \<open>libane_program_s\<close> of
  src/core/compile_cache.hpp): handles to compiled programs over the compile cache and the
  buffer pool, the matrix product with its CPU fallback, the graph calls and the raw MIL calls.
  The state \<open>libane\<close> is the process-wide state; one call runs at a time. The runtime behind
  src/runtime/ane_runtime.hpp is the parameter \<open>api_env\<close>. An \<open>AneProgram\<close> is identified by its
  address: \<open>programs\<close> maps the addresses of the loaded ones, and using or unloading any other
  address is undefined behaviour. A \<open>shared_ptr\<close> to a cache entry is held by the
  cache or by a handle; an entry neither holds is destroyed. A null handle is
  \<open>None\<close>, a null array argument is \<open>None\<close>, and error messages and logging are left out.
\<close>

unbundle bit_operations_syntax

record AneDeviceInfo =
  architecture :: string
  core_count :: nat
  num_anes :: nat
  di_available :: bool

record AnePerfStats =
  ane_bw_utilization :: u32
  avg_bw_state :: u32
  peak_bw_state :: int
  ane_energy_units :: int
  throttle_ns :: int
  stats_available :: int

record api_env =
  ae_mil :: mil_env
  ae_rt :: ane_runtime
  ae_exec :: exec_env
  ae_floats :: float_ops
  ae_alloc :: alloc_env
  ane_execute :: "AneProgram \<Rightarrow> byte list option \<Rightarrow> byte list option \<Rightarrow> byte list option"
  ane_execute_stats :: "AneProgram \<Rightarrow> byte list option list \<Rightarrow> byte list option list \<Rightarrow> (byte list list \<times> AnePerfStats) option"
  ane_delta_reload :: "AneProgram \<Rightarrow> bool"
  sram_spill :: "AneProgram \<Rightarrow> bool"
  device_info :: AneDeviceInfo
  new_nothrow :: bool

record libane_program_s =
  h_entry :: CacheEntry
  h_op :: libane_op_t
  h_shape :: libane_shape_t

record libane =
  force_backend :: int
  api_cache :: CompileCache
  api_pool :: BufferPool
  handles :: "(nat \<times> libane_program_s) list"
  next_handle :: nat
  mil_handles :: "(nat \<times> nat) list"
  programs :: "nat \<rightharpoonup> AneProgram"
  next_program :: nat
  clock :: nat

definition mk_libane :: "bool \<Rightarrow> libane" where
  "mk_libane io = \<lparr>force_backend = 0, api_cache = mk_cache kDefaultMaxBytes, api_pool = mk_pool io kDefaultMaxIdle,
     handles = [], next_handle = 1, mil_handles = [], programs = Map.empty, next_program = 1, clock = 0\<rparr>"

text \<open>A \<open>try\<close> block whose \<open>catch\<close> returns \<open>h\<close>; undefined behaviour is not an exception.\<close>

fun try_catch :: "'a res \<Rightarrow> 'b res \<Rightarrow> ('a \<Rightarrow> 'b res) \<Rightarrow> 'b res" where
  "try_catch (Inl (Undefined_behaviour m)) h f = Inl (Undefined_behaviour m)"
| "try_catch (Inl e) h f = h"
| "try_catch (Inr x) h f = f x"

section \<open>Backend selection, shapes and device\<close>

definition use_ane :: "api_env \<Rightarrow> libane \<Rightarrow> bool" where
  "use_ane E st =
     (if force_backend st = 2 then False
      else if force_backend st = 1 then rt_initialize (ae_rt E) = Available
      else rt_initialize (ae_rt E) = Available)"

definition to_mil_shape :: "libane_shape_t \<Rightarrow> TensorShape" where
  "to_mil_shape s =
     \<lparr>batch = (if ndim s \<ge> 1 then dims0 s else 1), channels = (if ndim s \<ge> 2 then dims1 s else 1),
      height = (if ndim s \<ge> 3 then dims2 s else 1), seq = (if ndim s \<ge> 4 then dims3 s else 8)\<rparr>"

definition libane_available :: "api_env \<Rightarrow> int" where
  "libane_available E = (if rt_initialize (ae_rt E) = Available then 1 else 0)"

definition libane_set_backend :: "string option \<Rightarrow> libane \<Rightarrow> libane" where
  "libane_set_backend backend st =
     (case backend of
        None \<Rightarrow> st\<lparr>force_backend := 0\<rparr>
      | Some b \<Rightarrow> if b = ''ane'' then st\<lparr>force_backend := 1\<rparr>
                  else if b = ''cpu'' then st\<lparr>force_backend := 2\<rparr> else st)"

definition libane_device_info :: "api_env \<Rightarrow> bool \<Rightarrow> libane_status_t \<times> (string \<times> nat \<times> nat \<times> int) option" where
  "libane_device_info E out_given =
     (if \<not> out_given then (LIBANE_ERR_INVALID_ARG, None)
      else let di = device_info E
           in (LIBANE_OK, Some (architecture di, core_count di, num_anes di, if di_available di then 1 else 0)))"

record libane_shape_limits_t =
  max_seq :: int
  max_channels :: int
  seq_alignment :: int

definition libane_get_shape_limits :: "api_env \<Rightarrow> libane_shape_limits_t" where
  "libane_get_shape_limits E =
     (let di = device_info E in
      if di_available di \<and> architecture di \<noteq> '''' \<and> take 3 (architecture di) = ''h16''
      then \<lparr>max_seq = 131072, max_channels = 16384, seq_alignment = 8\<rparr>
      else \<lparr>max_seq = 65536, max_channels = 16384, seq_alignment = 8\<rparr>)"

section \<open>Loaded programs and the references to them\<close>

text \<open>\<open>ane_compile\<close>: the address of a new program, or null.\<close>

definition new_program :: "api_env \<Rightarrow> string \<Rightarrow> weight_entry list \<Rightarrow> string \<Rightarrow> libane \<Rightarrow> nat \<times> libane" where
  "new_program E txt ws debug_name st =
     (case ane_compile (ae_rt E) txt ws debug_name of
        None \<Rightarrow> (0, st)
      | Some p \<Rightarrow> (next_program st, st\<lparr>programs := (programs st)(next_program st \<mapsto> p),
                                      next_program := next_program st + 1\<rparr>))"

definition program_at :: "nat \<Rightarrow> libane \<Rightarrow> AneProgram res" where
  "program_at a st = (case programs st a of
     None \<Rightarrow> Inl (Undefined_behaviour ''deleted AneProgram'') | Some p \<Rightarrow> Inr p)"

definition ane_unload :: "nat \<Rightarrow> libane \<Rightarrow> libane res" where
  "ane_unload a st = bind_res (program_at a st) (\<lambda>_. Inr (st\<lparr>programs := (programs st)(a := None)\<rparr>))"

text \<open>Dropping references to \<open>es\<close>: each entry nothing refers to any more is destroyed. Entries
  that own a program differ in its address; for the others destruction does nothing.\<close>

definition live_entries :: "libane \<Rightarrow> CacheEntry list" where
  "live_entries st = map snd (lru (api_cache st)) @ map (h_entry \<circ> snd) (handles st)"

fun drop_refs :: "CacheEntry list \<Rightarrow> libane \<Rightarrow> libane res" where
  "drop_refs [] st = Inr st"
| "drop_refs (e # es) st =
     bind_res (if e \<in> set (live_entries st) then Inr st else for_loop ane_unload (destroy_entry e) st) (drop_refs es)"

text \<open>An operation on the cache, with the entries it gives up.\<close>

definition with_cache :: "(CompileCache \<Rightarrow> ('a \<times> CompileCache) res) \<Rightarrow> libane \<Rightarrow> ('a \<times> libane) res" where
  "with_cache f st =
     bind_res (f ((api_cache st)\<lparr>dropped := []\<rparr>)) (\<lambda>(r, c).
       bind_res (drop_refs (dropped c) (st\<lparr>api_cache := c\<rparr>)) (\<lambda>st. Inr (r, st)))"

definition new_handle :: "libane_program_s \<Rightarrow> libane \<Rightarrow> nat \<times> libane" where
  "new_handle h st = (next_handle st, st\<lparr>handles := (next_handle st, h) # handles st, next_handle := next_handle st + 1\<rparr>)"

definition handle_at :: "nat \<Rightarrow> libane \<Rightarrow> libane_program_s res" where
  "handle_at h st = (case map_of (handles st) h of
     None \<Rightarrow> Inl (Undefined_behaviour ''dangling handle'') | Some s \<Rightarrow> Inr s)"

definition libane_release :: "nat option \<Rightarrow> libane \<Rightarrow> libane res" where
  "libane_release h st =
     (case h of
        None \<Rightarrow> Inr st
      | Some h \<Rightarrow> bind_res (handle_at h st) (\<lambda>s.
          drop_refs [h_entry s] (st\<lparr>handles := filter (\<lambda>x. fst x \<noteq> h) (handles st)\<rparr>)))"

definition libane_cache_flush :: "libane \<Rightarrow> libane res" where
  "libane_cache_flush st = bind_res (with_cache (\<lambda>c. Inr ((), cache_flush c)) st) (\<lambda>(_, st). Inr st)"

definition libane_cache_size_bytes :: "libane \<Rightarrow> size_t" where
  "libane_cache_size_bytes st = cache_size_bytes (api_cache st)"

section \<open>Compilation\<close>

text \<open>The weights of the caller: a pointer, which may be null, and a length. The blob of no weights
  is empty and has hash zero.\<close>

definition weights_blob :: "byte list option \<Rightarrow> size_t \<Rightarrow> WeightBlob res" where
  "weights_blob weights weights_len =
     (case weights of
        Some ws \<Rightarrow> if weights_len > 0 then from_fp16 ws (unat weights_len) else Inr \<lparr>blob_data = [], blob_hash = 0\<rparr>
      | None \<Rightarrow> Inr \<lparr>blob_data = [], blob_hash = 0\<rparr>)"

text \<open>The program of an operation; \<open>None\<close> where the switch returns without one.\<close>

definition op_program :: "mil_env \<Rightarrow> libane_op_t \<Rightarrow> TensorShape \<Rightarrow> MilProgram res option" where
  "op_program M op ms =
     (let C = channels ms; S = seq ms in
      case op of
        LIBANE_OP_MATMUL \<Rightarrow> Some (matmul_conv1x1_program C C S ''weight.bin'')
      | LIBANE_OP_SOFTMAX \<Rightarrow> Some (softmax_program C S)
      | LIBANE_OP_AVG_POOL \<Rightarrow> Some (avg_pool_program C S)
      | LIBANE_OP_MAX_POOL \<Rightarrow> Some (max_pool_program C S)
      | LIBANE_OP_GELU \<Rightarrow> Some (gelu_program C S)
      | LIBANE_OP_ADD \<Rightarrow> Some (add_program C S)
      | LIBANE_OP_MUL \<Rightarrow> Some (mul_program C S)
      | LIBANE_OP_LOGICAL_AND \<Rightarrow> Some (logical_and_program C S)
      | LIBANE_OP_LOGICAL_OR \<Rightarrow> Some (logical_or_program C S)
      | LIBANE_OP_LOGICAL_XOR \<Rightarrow> Some (logical_xor_program C S)
      | LIBANE_OP_LAYER_NORM \<Rightarrow> Some (layernorm_program C S ''gamma.bin'' ''beta.bin'' (eps_lit M))
      | LIBANE_OP_LAYERNORM \<Rightarrow> Some (layernorm_program C S ''gamma.bin'' ''beta.bin'' (eps_lit M))
      | LIBANE_OP_TRANSPOSE \<Rightarrow> Some (transpose_cssc_program C S)
      | LIBANE_OP_SILU \<Rightarrow> Some (silu_program C S)
      | LIBANE_OP_RMSNORM \<Rightarrow> Some (rmsnorm_program C S ''scale.bin'' (inv_lit M))
      | _ \<Rightarrow> None)"

definition op_name :: "libane_op_t \<Rightarrow> string" where
  "op_name op = ''libane_op_'' @ to_string (op_code op)"

definition compiled_entry :: "CacheKey \<Rightarrow> nat \<Rightarrow> size_t \<Rightarrow> CacheEntry" where
  "compiled_entry key prog size_bytes =
     \<lparr>e_key = key, backend_handle = prog, has_release_fn = (prog \<noteq> 0), e_size_bytes = size_bytes,
      is_ane = (prog \<noteq> 0), inserted_at = 0\<rparr>"

text \<open>From the attempt to compile to the new handle.\<close>

definition compile_and_store ::
  "api_env \<Rightarrow> libane_op_t \<Rightarrow> libane_shape_t \<Rightarrow> size_t \<Rightarrow> WeightBlob \<Rightarrow> CacheKey \<Rightarrow> MilProgram \<Rightarrow> libane
     \<Rightarrow> (nat option \<times> libane) res" where
  "compile_and_store E op shape weights_len blob key mil_prog st =
     (let txt = prog_text mil_prog;
          wentries = (if prog_weight_name mil_prog \<noteq> '''' \<and> blob_data blob \<noteq> []
                      then [(prog_weight_name mil_prog, blob_data blob)] else []);
          (prog, st) = (if txt \<noteq> '''' then new_program E txt wentries (op_name op) st else (0, st))
      in if txt \<noteq> '''' \<and> prog = 0 then Inr (None, st)
         else bind_res (with_cache (cache_put (clock st)
             (Some (compiled_entry key prog (weights_len + of_nat (length txt) + 4096)))) st) (\<lambda>(stored, st).
           case stored of
             None \<Rightarrow> Inl (Undefined_behaviour ''null entry'')
           | Some e \<Rightarrow> (let (h, st) = new_handle \<lparr>h_entry = e, h_op = op, h_shape = shape\<rparr> st in Inr (Some h, st))))"

definition libane_compile ::
  "api_env \<Rightarrow> libane_op_t \<Rightarrow> libane_shape_t \<Rightarrow> byte list option \<Rightarrow> size_t \<Rightarrow> libane \<Rightarrow> (nat option \<times> libane) res" where
  "libane_compile E op shape weights weights_len st =
     bind_res (weights_blob weights weights_len) (\<lambda>blob.
     let key = \<lparr>k_op = op, k_shape = shape, weight_hash = blob_hash blob\<rparr> in
     bind_res (with_cache (cache_get key) st) (\<lambda>(cached, st).
       case cached of
         Some e \<Rightarrow> (let (h, st) = new_handle \<lparr>h_entry = e, h_op = op, h_shape = shape\<rparr> st in Inr (Some h, st))
       | None \<Rightarrow>
           let ms = to_mil_shape shape in
           try_catch (validate ms) (Inr (None, st)) (\<lambda>_.
             if use_ane E st then
               case op_program (ae_mil E) op ms of
                 None \<Rightarrow> Inr (None, st)
               | Some r \<Rightarrow> try_catch r (Inr (None, st)) (\<lambda>mil_prog.
                   compile_and_store E op shape weights_len blob key mil_prog st)
             else Inr (None, st))))"

record libane_compile_request_t =
  rq_op :: libane_op_t
  rq_shape :: libane_shape_t
  rq_weights :: "byte list option"
  rq_weights_len :: size_t

fun compile_requests ::
  "api_env \<Rightarrow> libane_compile_request_t list \<Rightarrow> libane \<Rightarrow> (nat option list \<times> libane) res" where
  "compile_requests E [] st = Inr ([], st)"
| "compile_requests E (r # rs) st =
     bind_res (libane_compile E (rq_op r) (rq_shape r) (rq_weights r) (rq_weights_len r) st) (\<lambda>(h, st).
     bind_res (compile_requests E rs st) (\<lambda>(hs, st). Inr (h # hs, st)))"

definition libane_compile_batch ::
  "api_env \<Rightarrow> libane_compile_request_t list option \<Rightarrow> bool \<Rightarrow> libane \<Rightarrow> (libane_status_t \<times> nat option list \<times> libane) res" where
  "libane_compile_batch E requests out_given st =
     (case requests of
        None \<Rightarrow> Inr (LIBANE_ERR_INVALID_ARG, [], st)
      | Some rs \<Rightarrow>
          if \<not> out_given \<or> rs = [] then Inr (LIBANE_ERR_INVALID_ARG, [], st)
          else bind_res (compile_requests E rs st) (\<lambda>(hs, st).
            Inr (if None \<notin> set hs then LIBANE_OK else LIBANE_ERR_COMPILE_FAILED, hs, st)))"

section \<open>Execution\<close>

text \<open>One input surface and one output surface from the pool, and back to it.\<close>

definition run_program ::
  "api_env \<Rightarrow> AneProgram \<Rightarrow> byte list \<Rightarrow> size_t \<Rightarrow> size_t \<Rightarrow> BufferPool \<Rightarrow> (byte list option \<times> BufferPool) res" where
  "run_program E prog input in_bytes out_bytes p =
     bind_res (acquire_with_data (ae_alloc E) input in_bytes p) (\<lambda>(in_buf, p).
     bind_res (acquire (ae_alloc E) out_bytes p) (\<lambda>(out_buf, p).
     case ane_execute E prog (iosurface in_buf) (iosurface out_buf) of
       None \<Rightarrow> Inr (None, release (Some in_buf) (release (Some out_buf) p))
     | Some m \<Rightarrow>
         let out_buf = set_surface [m] out_buf in
         bind_res (copy_to out_bytes out_buf) (\<lambda>d.
           Inr (Some d, release (Some in_buf) (release (Some out_buf) p)))))"

definition libane_execute ::
  "api_env \<Rightarrow> nat option \<Rightarrow> byte list option \<Rightarrow> bool \<Rightarrow> libane_shape_t \<Rightarrow> libane
     \<Rightarrow> (libane_status_t \<times> byte list option \<times> libane) res" where
  "libane_execute E h input out_given shape st =
     (case (h, input) of
        (Some h, Some src) \<Rightarrow>
          if \<not> out_given then Inr (LIBANE_ERR_INVALID_ARG, None, st)
          else bind_res (handle_at h st) (\<lambda>s.
            let e = h_entry s; bytes = numel (to_mil_shape shape) * 2 in
            if is_ane e \<and> backend_handle e \<noteq> 0 then
              bind_res (program_at (backend_handle e) st) (\<lambda>prog.
              bind_res (run_program E prog src bytes bytes (api_pool st)) (\<lambda>(r, p).
                Inr (case r of Some d \<Rightarrow> (LIBANE_OK, Some d, st\<lparr>api_pool := p\<rparr>)
                             | None \<Rightarrow> (LIBANE_ERR_EXECUTE_FAILED, None, st\<lparr>api_pool := p\<rparr>))))
            else Inr (LIBANE_ERR_UNAVAILABLE, None, st))
      | _ \<Rightarrow> Inr (LIBANE_ERR_INVALID_ARG, None, st))"

fun store_surfaces :: "AneBuffer list \<Rightarrow> byte list list \<Rightarrow> AneBuffer list" where
  "store_surfaces [] ms = []"
| "store_surfaces (b # bs) ms = set_surface (take 1 ms) b # store_surfaces bs (drop 1 ms)"

definition run_program2 ::
  "api_env \<Rightarrow> AneProgram \<Rightarrow> byte list \<Rightarrow> byte list \<Rightarrow> size_t \<Rightarrow> BufferPool \<Rightarrow> (byte list option \<times> BufferPool) res" where
  "run_program2 E prog input0 input1 bytes p =
     bind_res (acquire_with_data (ae_alloc E) input0 bytes p) (\<lambda>(in0_buf, p).
     bind_res (acquire_with_data (ae_alloc E) input1 bytes p) (\<lambda>(in1_buf, p).
     bind_res (acquire (ae_alloc E) bytes p) (\<lambda>(out_buf, p).
     let back = (\<lambda>out_buf. release (Some in0_buf) (release (Some in1_buf) (release (Some out_buf) p))) in
     case ane_execute_multi (ae_exec E) prog [iosurface in0_buf, iosurface in1_buf] [iosurface out_buf] of
       None \<Rightarrow> Inr (None, back out_buf)
     | Some ms \<Rightarrow>
         let out_buf = set_surface ms out_buf in
         bind_res (copy_to bytes out_buf) (\<lambda>d. Inr (Some d, back out_buf)))))"

definition libane_execute2 ::
  "api_env \<Rightarrow> nat option \<Rightarrow> byte list option \<Rightarrow> byte list option \<Rightarrow> bool \<Rightarrow> libane_shape_t \<Rightarrow> libane
     \<Rightarrow> (libane_status_t \<times> byte list option \<times> libane) res" where
  "libane_execute2 E h input0 input1 out_given shape st =
     (case (h, input0, input1) of
        (Some h, Some src0, Some src1) \<Rightarrow>
          if \<not> out_given then Inr (LIBANE_ERR_INVALID_ARG, None, st)
          else bind_res (handle_at h st) (\<lambda>s.
            let e = h_entry s; bytes = numel (to_mil_shape shape) * 2 in
            if is_ane e \<and> backend_handle e \<noteq> 0 then
              bind_res (program_at (backend_handle e) st) (\<lambda>prog.
              bind_res (run_program2 E prog src0 src1 bytes (api_pool st)) (\<lambda>(r, p).
                Inr (case r of Some d \<Rightarrow> (LIBANE_OK, Some d, st\<lparr>api_pool := p\<rparr>)
                             | None \<Rightarrow> (LIBANE_ERR_EXECUTE_FAILED, None, st\<lparr>api_pool := p\<rparr>))))
            else Inr (LIBANE_ERR_UNAVAILABLE, None, st))
      | _ \<Rightarrow> Inr (LIBANE_ERR_INVALID_ARG, None, st))"

definition libane_delta_reload :: "api_env \<Rightarrow> nat option \<Rightarrow> libane \<Rightarrow> libane_status_t res" where
  "libane_delta_reload E h st =
     (case h of
        None \<Rightarrow> Inr LIBANE_ERR_INVALID_ARG
      | Some h \<Rightarrow> bind_res (handle_at h st) (\<lambda>s.
          let e = h_entry s in
          if \<not> is_ane e \<or> backend_handle e = 0 then Inr LIBANE_ERR_UNAVAILABLE
          else bind_res (program_at (backend_handle e) st) (\<lambda>prog.
            Inr (if ane_delta_reload E prog then LIBANE_OK else LIBANE_ERR_EXECUTE_FAILED))))"

section \<open>The matrix product\<close>

text \<open>\<open>dst[i] = src[j]\<close> for the pairs \<open>(i, j)\<close> in turn.\<close>

definition copy_at :: "16 word list \<Rightarrow> (nat \<times> nat) list \<Rightarrow> 16 word list \<Rightarrow> 16 word list res" where
  "copy_at src = for_loop (\<lambda>(i, j) dst. bind_res (read_at src j) (\<lambda>x. write_at i x dst))"

definition pack_matmul_input_for_ane :: "16 word list \<Rightarrow> 16 word list \<Rightarrow> nat \<Rightarrow> nat \<Rightarrow> 16 word list res" where
  "pack_matmul_input_for_ane A_row_major A_ane M K =
     copy_at A_row_major (concat (map (\<lambda>m. map (\<lambda>k. (k * M + m, m * K + k)) [0..<K]) [0..<M])) A_ane"

definition unpack_matmul_output_from_ane :: "16 word list \<Rightarrow> 16 word list \<Rightarrow> nat \<Rightarrow> nat \<Rightarrow> 16 word list res" where
  "unpack_matmul_output_from_ane Y_ane C_row_major M N =
     copy_at Y_ane (concat (map (\<lambda>m. map (\<lambda>n. (m * N + n, n * M + m)) [0..<N]) [0..<M])) C_row_major"

definition shapes_ok :: "int \<Rightarrow> int \<Rightarrow> int \<Rightarrow> bool" where
  "shapes_ok M K N \<longleftrightarrow> M smod 8 = 0 \<and> N smod 8 = 0 \<and> K smod 8 = 0 \<and> M \<le> 65536 \<and> N \<le> 65536 \<and> K \<le> 16384"

definition matmul_shape :: "int \<Rightarrow> int \<Rightarrow> libane_shape_t" where
  "matmul_shape M N = \<lparr>dims0 = 1, dims1 = N, dims2 = 1, dims3 = M, ndim = 4\<rparr>"

text \<open>The loop that widens \<open>B\<close>; its body is \<open>fp16_to_fp32\<close>.\<close>

definition widen_weights :: "16 word list \<Rightarrow> int \<Rightarrow> int \<Rightarrow> u32 list res" where
  "widen_weights B K N =
     bind_res (int_mul K N) (\<lambda>kn.
       for_loop (\<lambda>i d. bind_res (read_at B i) (\<lambda>h. write_at i (fp16_to_fp32 h) d)) [0..<nat kn]
         (replicate (nat K * nat N) 0))"

text \<open>A miss: the program is built, compiled and stored, also when it did not compile.\<close>

definition matmul_build ::
  "api_env \<Rightarrow> 16 word list \<Rightarrow> CacheKey \<Rightarrow> int \<Rightarrow> int \<Rightarrow> int \<Rightarrow> libane \<Rightarrow> (nat \<times> libane) res" where
  "matmul_build E B key M K N st =
     try_catch (matmul_conv1x1_program K N M ''weight.bin'') (Inr (0, st)) (\<lambda>mil_prog.
     bind_res (widen_weights B K N) (\<lambda>B_f32.
     bind_res (from_fp32 B_f32 (nat K) (nat N) True) (\<lambda>wblob.
     let (prog, st) = new_program E (prog_text mil_prog) [(prog_weight_name mil_prog, blob_data wblob)] ''matmul_f16'' st;
         e = compiled_entry key prog (of_int K * of_int N * 2 + of_nat (length (prog_text mil_prog)) + 4096)
     in bind_res (with_cache (cache_put (clock st) (Some e)) st) (\<lambda>(_, st). Inr (prog, st)))))"

definition matmul_program :: "api_env \<Rightarrow> 16 word list \<Rightarrow> int \<Rightarrow> int \<Rightarrow> int \<Rightarrow> libane \<Rightarrow> (nat \<times> libane) res" where
  "matmul_program E B M K N st =
     bind_res (from_fp16 (half_bytes B) (nat K * nat N * 2)) (\<lambda>blob.
     let key = \<lparr>k_op = LIBANE_OP_MATMUL, k_shape = matmul_shape M N, weight_hash = blob_hash blob\<rparr> in
     bind_res (with_cache (cache_get key) st) (\<lambda>(cached, st).
       case cached of
         Some e \<Rightarrow> Inr (if is_ane e \<and> backend_handle e \<noteq> 0 then backend_handle e else 0, st)
       | None \<Rightarrow> matmul_build E B key M K N st))"

text \<open>The dispatch of a program; no result when it fails.\<close>

definition matmul_dispatch ::
  "api_env \<Rightarrow> AneProgram \<Rightarrow> 16 word list \<Rightarrow> 16 word list \<Rightarrow> nat \<Rightarrow> nat \<Rightarrow> nat \<Rightarrow> BufferPool
     \<Rightarrow> (16 word list option \<times> BufferPool) res" where
  "matmul_dispatch E prog A C M K N p =
     bind_res (pack_matmul_input_for_ane A (replicate (M * K) 0) M K) (\<lambda>A_ane.
     bind_res (run_program E prog (half_bytes A_ane) (of_nat M * of_nat K * 2) (of_nat M * of_nat N * 2) p) (\<lambda>(r, p).
       case r of
         None \<Rightarrow> Inr (None, p)
       | Some Y \<Rightarrow> bind_res (unpack_matmul_output_from_ane (halves Y) C M N) (\<lambda>C. Inr (Some C, p))))"

definition matmul_on_cpu ::
  "api_env \<Rightarrow> 16 word list \<Rightarrow> 16 word list \<Rightarrow> 16 word list \<Rightarrow> int \<Rightarrow> int \<Rightarrow> int \<Rightarrow> libane
     \<Rightarrow> (libane_status_t \<times> 16 word list option \<times> libane) res" where
  "matmul_on_cpu E A B C M K N st =
     bind_res (fb_matmul_f16 (ae_floats E) A B C M K N) (\<lambda>C. Inr (LIBANE_OK, Some C, st))"

text \<open>A null pointer is \<open>None\<close>; the result has the array written to \<open>C\<close>.\<close>

definition libane_matmul_f16 ::
  "api_env \<Rightarrow> 16 word list option \<Rightarrow> 16 word list option \<Rightarrow> 16 word list option \<Rightarrow> int \<Rightarrow> int \<Rightarrow> int \<Rightarrow> libane
     \<Rightarrow> (libane_status_t \<times> 16 word list option \<times> libane) res" where
  "libane_matmul_f16 E A B C M K N st =
     (case (A, B, C) of
        (Some A, Some B, Some C) \<Rightarrow>
          if M \<le> 0 \<or> K \<le> 0 \<or> N \<le> 0 then Inr (LIBANE_ERR_INVALID_ARG, Some C, st)
          else if use_ane E st \<and> shapes_ok M K N then
            bind_res (matmul_program E B M K N st) (\<lambda>(a, st).
              if a \<noteq> 0 then
                bind_res (program_at a st) (\<lambda>prog.
                bind_res (matmul_dispatch E prog A C (nat M) (nat K) (nat N) (api_pool st)) (\<lambda>(r, p).
                  case r of
                    Some C' \<Rightarrow> Inr (LIBANE_OK, Some C', st\<lparr>api_pool := p\<rparr>)
                  | None \<Rightarrow> matmul_on_cpu E A B C M K N (st\<lparr>api_pool := p\<rparr>)))
              else matmul_on_cpu E A B C M K N st)
          else matmul_on_cpu E A B C M K N st
      | _ \<Rightarrow> Inr (LIBANE_ERR_INVALID_ARG, C, st))"

definition libane_matmul_f32 ::
  "api_env \<Rightarrow> u32 list option \<Rightarrow> u32 list option \<Rightarrow> u32 list option \<Rightarrow> int \<Rightarrow> int \<Rightarrow> int \<Rightarrow> libane
     \<Rightarrow> (libane_status_t \<times> u32 list option \<times> libane) res" where
  "libane_matmul_f32 E A B C M K N st =
     (case (A, B, C) of
        (Some A, Some B, Some C) \<Rightarrow>
          let fo = ae_floats E;
              blas = (\<lambda>st. Inr (LIBANE_OK, Some (fb_matmul_f32 fo A B C M K N), st)) in
          if M \<le> 0 \<or> K \<le> 0 \<or> N \<le> 0 then Inr (LIBANE_ERR_INVALID_ARG, Some C, st)
          else if use_ane E st \<and> shapes_ok M K N then
            bind_res (cast_f32_to_f16 fo A (replicate (nat M * nat K) 0) (nat M * nat K)) (\<lambda>A16.
            bind_res (cast_f32_to_f16 fo B (replicate (nat K * nat N) 0) (nat K * nat N)) (\<lambda>B16.
            bind_res (libane_matmul_f16 E (Some A16) (Some B16) (Some (replicate (nat M * nat N) 0)) M K N st) (\<lambda>(s, C16, st).
              case C16 of
                Some C16 \<Rightarrow> if s = LIBANE_OK
                  then bind_res (cast_f16_to_f32 fo C16 C (nat M * nat N)) (\<lambda>C. Inr (LIBANE_OK, Some C, st))
                  else blas st
              | None \<Rightarrow> blas st)))
          else blas st
      | _ \<Rightarrow> Inr (LIBANE_ERR_INVALID_ARG, C, st))"

section \<open>The graph calls\<close>

text \<open>A null graph is \<open>None\<close>; the exceptions of the graph operations become the invalid id.\<close>

definition libane_graph_create :: "api_env \<Rightarrow> AneGraph option" where
  "libane_graph_create E = (if new_nothrow E then Some empty_graph else None)"

text \<open>Deleting a graph; the null handle is left alone.\<close>

definition libane_graph_release :: "AneGraph option \<Rightarrow> AneGraph option" where
  "libane_graph_release g = None"

definition libane_graph_add_input ::
  "AneGraph option \<Rightarrow> string option \<Rightarrow> libane_shape_t \<Rightarrow> (nat \<times> AneGraph option) res" where
  "libane_graph_add_input g nm shape =
     (case g of
        None \<Rightarrow> Inr (kInvalidTensorId, None)
      | Some g \<Rightarrow>
          try_catch (add_input (case nm of None \<Rightarrow> '''' | Some n \<Rightarrow> n) (to_mil_shape shape) g)
            (Inr (kInvalidTensorId, Some g)) (\<lambda>(tid, g). Inr (tid, Some g)))"

text \<open>\<open>input_ids\<close> is \<open>None\<close> for a null array with a positive count.\<close>

definition libane_graph_add_op ::
  "AneGraph option \<Rightarrow> libane_op_t \<Rightarrow> nat list option \<Rightarrow> libane_shape_t \<Rightarrow> byte list option \<Rightarrow> (nat \<times> AneGraph option) res" where
  "libane_graph_add_op g op input_ids output_shape weights =
     (case g of
        None \<Rightarrow> Inr (kInvalidTensorId, None)
      | Some g \<Rightarrow> (case input_ids of
          None \<Rightarrow> Inr (kInvalidTensorId, Some g)
        | Some ids \<Rightarrow>
            try_catch (add_op op ids (to_mil_shape output_shape) weights g)
              (Inr (kInvalidTensorId, Some g)) (\<lambda>(tid, g). Inr (tid, Some g))))"

text \<open>The packed array \<open>[x_min, x_max, samples]\<close> is passed as bytes.\<close>

definition libane_graph_add_pwl_activation ::
  "AneGraph option \<Rightarrow> nat \<Rightarrow> libane_shape_t \<Rightarrow> u32 \<Rightarrow> u32 \<Rightarrow> u32 list option \<Rightarrow> nat \<Rightarrow> (nat \<times> AneGraph option) res" where
  "libane_graph_add_pwl_activation g input_id output_shape x_min x_max samples n_samples =
     (case g of
        None \<Rightarrow> Inr (kInvalidTensorId, None)
      | Some g \<Rightarrow> (case samples of
          None \<Rightarrow> Inr (kInvalidTensorId, Some g)
        | Some ys \<Rightarrow>
            if n_samples < 2 then Inr (kInvalidTensorId, Some g)
            else bind_res (map_res (read_at ys) [0..<n_samples]) (\<lambda>ys.
              try_catch (add_op LIBANE_OP_PWL_ACTIVATION [input_id] (to_mil_shape output_shape)
                  (Some (float_bytes (x_min # x_max # ys))) g)
                (Inr (kInvalidTensorId, Some g)) (\<lambda>(tid, g). Inr (tid, Some g)))))"

definition libane_graph_mark_output ::
  "AneGraph option \<Rightarrow> nat \<Rightarrow> string option \<Rightarrow> (libane_status_t \<times> AneGraph option) res" where
  "libane_graph_mark_output g tensor_id nm =
     (case g of
        None \<Rightarrow> Inr (LIBANE_ERR_INVALID_ARG, None)
      | Some g \<Rightarrow>
          try_catch (mark_output tensor_id (case nm of None \<Rightarrow> '''' | Some n \<Rightarrow> n) g)
            (Inr (LIBANE_ERR_INVALID_ARG, Some g)) (\<lambda>g. Inr (LIBANE_OK, Some g)))"

text \<open>The destructor of a compiled graph: its buffers and the programs it unloads.\<close>

definition libane_compiled_graph_release :: "CompiledGraph option \<Rightarrow> libane \<Rightarrow> libane \<times> AneProgram list" where
  "libane_compiled_graph_release cg st =
     (case cg of
        None \<Rightarrow> (st, [])
      | Some cg \<Rightarrow> (st\<lparr>api_pool := destroy_bufs cg (api_pool st)\<rparr>, unload_all cg))"

definition libane_graph_compile ::
  "api_env \<Rightarrow> AneGraph option \<Rightarrow> HwxEmitter \<Rightarrow> libane \<Rightarrow> (CompiledGraph option \<times> HwxEmitter \<times> libane \<times> AneProgram list) res" where
  "libane_graph_compile E g em st =
     (case g of
        None \<Rightarrow> Inr (None, em, st, [])
      | Some g \<Rightarrow> bind_res (compile (ae_mil E) (ae_rt E) (ae_alloc E) g (api_pool st) em) (\<lambda>(cg, p, em, unloaded).
          let st = st\<lparr>api_pool := p\<rparr> in
          if new_nothrow E then Inr (cg, em, st, unloaded)
          else (let (st, more) = libane_compiled_graph_release cg st in Inr (None, em, st, unloaded @ more))))"

definition libane_graph_execute ::
  "api_env \<Rightarrow> CompiledGraph option \<Rightarrow> (byte list \<times> size_t) list option \<Rightarrow> size_t list option \<Rightarrow> libane
     \<Rightarrow> (libane_status_t \<times> byte list list \<times> CompiledGraph option \<times> libane) res" where
  "libane_graph_execute E cg inputs outputs st =
     (case (cg, inputs, outputs) of
        (Some cg, Some ins, Some outs) \<Rightarrow>
          bind_res (execute (ae_exec E) (ae_alloc E) cg (map fst ins) (map snd ins) (length outs) outs (api_pool st))
            (\<lambda>(ok, ds, cg, p). Inr (if ok then LIBANE_OK else LIBANE_ERR_EXECUTE_FAILED, ds, Some cg, st\<lparr>api_pool := p\<rparr>))
      | _ \<Rightarrow> Inr (LIBANE_ERR_INVALID_ARG, [], cg, st))"

section \<open>The raw MIL calls\<close>

definition mil_at :: "nat \<Rightarrow> libane \<Rightarrow> nat res" where
  "mil_at h st = (case map_of (mil_handles st) h of
     None \<Rightarrow> Inl (Undefined_behaviour ''dangling handle'') | Some a \<Rightarrow> Inr a)"

definition mil_weight :: "string \<times> byte list \<times> size_t \<Rightarrow> weight_entry res" where
  "mil_weight w = (let (nm, d, n) = w in bind_res (from_fp16 d (unat n)) (\<lambda>b. Inr (nm, blob_data b)))"

text \<open>\<open>weights\<close> is \<open>None\<close> for a null array with a positive count.\<close>

definition libane_mil_compile ::
  "api_env \<Rightarrow> string option \<Rightarrow> (string \<times> byte list \<times> size_t) list option \<Rightarrow> libane \<Rightarrow> (nat option \<times> libane) res" where
  "libane_mil_compile E mil_text weights st =
     (case (mil_text, weights) of
        (Some txt, Some ws) \<Rightarrow>
          bind_res (map_res mil_weight ws) (\<lambda>wentries.
          let (prog, st) = new_program E txt wentries ''mil_probe'' st in
          if prog = 0 then Inr (None, st)
          else if \<not> new_nothrow E then bind_res (ane_unload prog st) (\<lambda>st. Inr (None, st))
          else Inr (Some (next_handle st),
                 st\<lparr>mil_handles := (next_handle st, prog) # mil_handles st, next_handle := next_handle st + 1\<rparr>))
      | _ \<Rightarrow> Inr (None, st))"

fun acquire_filled :: "alloc_env \<Rightarrow> size_t \<Rightarrow> (byte list \<times> size_t) list \<Rightarrow> BufferPool \<Rightarrow> (AneBuffer list \<times> BufferPool) res" where
  "acquire_filled env n [] p = Inr ([], p)"
| "acquire_filled env n ((src, sz) # ins) p =
     bind_res (acquire env n p) (\<lambda>(b, p). bind_res (copy_from src sz b) (\<lambda>b.
     bind_res (acquire_filled env n ins p) (\<lambda>(bs, p). Inr (b # bs, p))))"

fun acquire_many :: "alloc_env \<Rightarrow> size_t \<Rightarrow> nat \<Rightarrow> BufferPool \<Rightarrow> (AneBuffer list \<times> BufferPool) res" where
  "acquire_many env n 0 p = Inr ([], p)"
| "acquire_many env n (Suc k) p =
     bind_res (acquire env n p) (\<lambda>(b, p). bind_res (acquire_many env n k p) (\<lambda>(bs, p). Inr (b # bs, p)))"

definition release_all :: "AneBuffer list \<Rightarrow> BufferPool \<Rightarrow> BufferPool" where
  "release_all bs p = foldl (\<lambda>p b. release (Some b) p) p bs"

text \<open>The common body of the two execute calls over a dispatch: the surfaces of the inputs have
  one size and those of the outputs too.\<close>

definition mil_dispatch ::
  "api_env \<Rightarrow> (byte list option list \<Rightarrow> byte list option list \<Rightarrow> (byte list list \<times> 'stats) option)
     \<Rightarrow> (byte list \<times> size_t) list \<Rightarrow> size_t list \<Rightarrow> BufferPool \<Rightarrow> ((byte list list \<times> 'stats) option \<times> BufferPool) res" where
  "mil_dispatch E dispatch ins outs p =
     (let max_in = foldl max kMinIOSurface (map snd ins);
          max_out = foldl max kMinIOSurface outs
      in bind_res (acquire_filled (ae_alloc E) max_in ins p) (\<lambda>(in_bufs, p).
         bind_res (acquire_many (ae_alloc E) max_out (length outs) p) (\<lambda>(out_bufs, p).
         case dispatch (map iosurface in_bufs) (map iosurface out_bufs) of
           None \<Rightarrow> Inr (None, release_all out_bufs (release_all in_bufs p))
         | Some (ms, stats) \<Rightarrow>
             let out_bufs = store_surfaces out_bufs ms in
             bind_res (map_res (\<lambda>(n, b). copy_to n b) (zip outs out_bufs)) (\<lambda>ds.
               Inr (Some (ds, stats), release_all out_bufs (release_all in_bufs p))))))"

definition libane_mil_execute ::
  "api_env \<Rightarrow> nat option \<Rightarrow> (byte list \<times> size_t) list option \<Rightarrow> size_t list option \<Rightarrow> libane
     \<Rightarrow> (libane_status_t \<times> byte list list \<times> libane) res" where
  "libane_mil_execute E h inputs outputs st =
     (case (h, inputs, outputs) of
        (Some h, Some ins, Some outs) \<Rightarrow>
          bind_res (mil_at h st) (\<lambda>a. bind_res (program_at a st) (\<lambda>prog.
          bind_res (mil_dispatch E (\<lambda>i u. map_option (\<lambda>ms. (ms, ())) (ane_execute_multi (ae_exec E) prog i u)) ins outs (api_pool st))
            (\<lambda>(r, p). Inr (case r of
                Some (ds, _) \<Rightarrow> (LIBANE_OK, ds, st\<lparr>api_pool := p\<rparr>)
              | None \<Rightarrow> (LIBANE_ERR_EXECUTE_FAILED, [], st\<lparr>api_pool := p\<rparr>)))))
      | _ \<Rightarrow> Inr (LIBANE_ERR_INVALID_ARG, [], st))"

text \<open>With \<open>stats_out\<close> null the dispatch takes no statistics.\<close>

definition libane_mil_execute_stats ::
  "api_env \<Rightarrow> nat option \<Rightarrow> (byte list \<times> size_t) list option \<Rightarrow> size_t list option \<Rightarrow> bool \<Rightarrow> libane
     \<Rightarrow> (libane_status_t \<times> byte list list \<times> AnePerfStats option \<times> libane) res" where
  "libane_mil_execute_stats E h inputs outputs stats_out st =
     (case (h, inputs, outputs) of
        (Some h, Some ins, Some outs) \<Rightarrow>
          bind_res (mil_at h st) (\<lambda>a. bind_res (program_at a st) (\<lambda>prog.
          bind_res (mil_dispatch E (\<lambda>i u.
              if stats_out then map_option (\<lambda>(ms, s). (ms, Some s)) (ane_execute_stats E prog i u)
              else map_option (\<lambda>ms. (ms, None)) (ane_execute_multi (ae_exec E) prog i u)) ins outs (api_pool st))
            (\<lambda>(r, p). Inr (case r of
                Some (ds, s) \<Rightarrow> (LIBANE_OK, ds, s, st\<lparr>api_pool := p\<rparr>)
              | None \<Rightarrow> (LIBANE_ERR_EXECUTE_FAILED, [], None, st\<lparr>api_pool := p\<rparr>)))))
      | _ \<Rightarrow> Inr (LIBANE_ERR_INVALID_ARG, [], None, st))"

definition libane_mil_sram_spill :: "api_env \<Rightarrow> nat option \<Rightarrow> libane \<Rightarrow> int res" where
  "libane_mil_sram_spill E h st =
     (case h of
        None \<Rightarrow> Inr (-1)
      | Some h \<Rightarrow> bind_res (mil_at h st) (\<lambda>a. bind_res (program_at a st) (\<lambda>prog.
          Inr (if sram_spill E prog then 1 else 0))))"

definition libane_mil_release :: "nat option \<Rightarrow> libane \<Rightarrow> libane res" where
  "libane_mil_release h st =
     (case h of
        None \<Rightarrow> Inr st
      | Some h \<Rightarrow> bind_res (mil_at h st) (\<lambda>a. bind_res (ane_unload a st) (\<lambda>st.
          Inr (st\<lparr>mil_handles := filter (\<lambda>x. fst x \<noteq> h) (mil_handles st)\<rparr>))))"

end
