(* ===== verification/LibaneResources.thy ===== *)
theory LibaneResources
  imports LibaneApi
begin

text \<open>
  The resources behind the C interface. \<open>refs_ok es st\<close>: the loaded programs are exactly those that
  the entries \<open>es\<close> or the raw MIL handles own, each owned once. \<open>api_inv\<close> is the invariant of the
  state, with \<open>live_entries\<close> for \<open>es\<close>: the entries in the cache and behind handles. The lemmas show
  that each step of the cache, of the buffer pool and of the copies between layouts keeps it
  and returns, but for a failed allocation (\<open>ok_or_oom\<close>), without undefined behaviour.
\<close>

section \<open>Who owns which program\<close>

definition owned :: "CacheEntry \<Rightarrow> bool" where
  "owned e \<longleftrightarrow> backend_handle e \<noteq> 0"

definition addrs :: "CacheEntry list \<Rightarrow> nat set" where
  "addrs es = backend_handle ` {e \<in> set es. owned e}"

definition mil_addrs :: "libane \<Rightarrow> nat set" where
  "mil_addrs st = snd ` set (mil_handles st)"

definition refs_ok :: "CacheEntry list \<Rightarrow> libane \<Rightarrow> bool" where
  "refs_ok es st \<longleftrightarrow> (\<forall>e \<in> set es. owned e \<longrightarrow> has_release_fn e) \<and> inj_on backend_handle {e \<in> set es. owned e}
     \<and> dom (programs st) = addrs es \<union> mil_addrs st \<and> addrs es \<inter> mil_addrs st = {} \<and> 0 \<notin> mil_addrs st
     \<and> distinct (map snd (mil_handles st)) \<and> (\<forall>a \<in> dom (programs st). a < next_program st) \<and> 0 < next_program st"

lemma addrs_simps [simp]: "addrs (xs @ ys) = addrs xs \<union> addrs ys" "addrs [] = {}"
  "addrs (e # es) = (if owned e then insert (backend_handle e) (addrs es) else addrs es)"
  by (auto simp: addrs_def)

lemma addrs_0: "0 \<notin> addrs es"
  by (auto simp: addrs_def owned_def)

lemma live_simps [simp]: "live_entries (st\<lparr>programs := ps\<rparr>) = live_entries st"
  "live_entries (st\<lparr>mil_handles := ms\<rparr>) = live_entries st" "live_entries (st\<lparr>api_pool := p\<rparr>) = live_entries st"
  "live_entries (st\<lparr>next_program := n\<rparr>) = live_entries st" "live_entries (st\<lparr>next_handle := n\<rparr>) = live_entries st"
  "live_entries (st\<lparr>force_backend := i\<rparr>) = live_entries st" "live_entries (st\<lparr>clock := n\<rparr>) = live_entries st"
  "live_entries (st\<lparr>api_cache := c\<rparr>) = entries c @ map (h_entry \<circ> snd) (handles st)"
  "live_entries (st\<lparr>handles := hs\<rparr>) = entries (api_cache st) @ map (h_entry \<circ> snd) hs"
  by (simp_all add: live_entries_def entries_def)

lemma mil_addrs_simps [simp]: "mil_addrs (st\<lparr>programs := ps\<rparr>) = mil_addrs st"
  "mil_addrs (st\<lparr>api_cache := c\<rparr>) = mil_addrs st" "mil_addrs (st\<lparr>handles := hs\<rparr>) = mil_addrs st"
  "mil_addrs (st\<lparr>api_pool := p\<rparr>) = mil_addrs st" "mil_addrs (st\<lparr>next_program := n\<rparr>) = mil_addrs st"
  "mil_addrs (st\<lparr>next_handle := n\<rparr>) = mil_addrs st" "mil_addrs (st\<lparr>mil_handles := ms\<rparr>) = snd ` set ms"
  by (simp_all add: mil_addrs_def)

lemma refs_okD:
  assumes "refs_ok es st"
  shows "\<And>e. e \<in> set es \<Longrightarrow> owned e \<Longrightarrow> has_release_fn e" "inj_on backend_handle {e \<in> set es. owned e}"
    "dom (programs st) = addrs es \<union> mil_addrs st" "addrs es \<inter> mil_addrs st = {}" "0 \<notin> mil_addrs st"
    "distinct (map snd (mil_handles st))" "\<And>a. a \<in> dom (programs st) \<Longrightarrow> a < next_program st" "0 < next_program st"
  using assms by (simp_all add: refs_ok_def)

lemma refs_okI:
  assumes "\<And>e. e \<in> set es \<Longrightarrow> owned e \<Longrightarrow> has_release_fn e" "inj_on backend_handle {e \<in> set es. owned e}"
    "dom (programs st) = addrs es \<union> mil_addrs st" "addrs es \<inter> mil_addrs st = {}" "0 \<notin> mil_addrs st"
    "distinct (map snd (mil_handles st))" "\<And>a. a \<in> dom (programs st) \<Longrightarrow> a < next_program st" "0 < next_program st"
  shows "refs_ok es st"
  using assms by (simp add: refs_ok_def)

lemma refs_shrink:
  assumes r: "refs_ok es st" and sub: "set es' \<subseteq> set es" and dom: "dom ps = addrs es' \<union> mil_addrs st"
  shows "refs_ok es' (st\<lparr>programs := ps\<rparr>)"
proof (rule refs_okI)
  note d = refs_okD [OF r]
  have addrs: "addrs es' \<subseteq> addrs es" using sub by (auto simp: addrs_def)
  then have "dom ps \<subseteq> dom (programs st)" using dom d(3) by blast
  then show "a < next_program (st\<lparr>programs := ps\<rparr>)" if "a \<in> dom (programs (st\<lparr>programs := ps\<rparr>))" for a
    using that d(7) [of a] by auto
  show "inj_on backend_handle {e \<in> set es'. owned e}" by (rule inj_on_subset [OF d(2)]) (use sub in blast)
  show "has_release_fn e" if "e \<in> set es'" "owned e" for e using d(1) that sub by blast
  show "addrs es' \<inter> mil_addrs (st\<lparr>programs := ps\<rparr>) = {}" using d(4) addrs by (simp, blast)
qed (use dom refs_okD [OF r] in simp_all)

lemma destroy_owned: "refs_ok es st \<Longrightarrow> e \<in> set es \<Longrightarrow> destroy_entry e = (if owned e then [backend_handle e] else [])"
  using refs_okD(1) [of es st e] by (simp add: destroy_entry_def owned_def)

lemma owned_same: "refs_ok es st \<Longrightarrow> e \<in> set es \<Longrightarrow> owned e \<Longrightarrow> e' \<in> set es \<Longrightarrow> owned e' \<Longrightarrow>
    backend_handle e' = backend_handle e \<Longrightarrow> e' = e"
  using refs_okD(2) [of es st] unfolding inj_on_def by blast

lemma drop_refs_ok:
  assumes "refs_ok (live_entries st @ es) st" "distinct (map backend_handle (filter owned es))"
  shows "drop_refs es st = Inr (st\<lparr>programs := programs st |` (addrs (live_entries st) \<union> mil_addrs st)\<rparr>)"
  using assms
proof (induction es arbitrary: st)
  case Nil
  have "programs st |` dom (programs st) = programs st" by (rule ext) (simp add: restrict_map_def domIff)
  moreover have "dom (programs st) = addrs (live_entries st) \<union> mil_addrs st" using refs_okD(3) [OF Nil(1)] by simp
  ultimately have "st\<lparr>programs := programs st |` (addrs (live_entries st) \<union> mil_addrs st)\<rparr> = st" by simp
  then show ?case by simp
next
  case (Cons e es)
  note r = refs_okD [OF Cons.prems(1)]
  have sub: "inj_on backend_handle {x \<in> set (live_entries st @ es). owned x}"
    by (rule inj_on_subset [OF r(2)]) auto
  show ?case
  proof (cases "e \<in> set (live_entries st) \<or> \<not> owned e")
    case True
    have "for_loop ane_unload (destroy_entry e) st = Inr st" if "\<not> owned e"
      using that destroy_owned [OF Cons.prems(1), of e] by simp
    then have "drop_refs (e # es) st = drop_refs es st" using True by auto
    moreover have "addrs (live_entries st @ e # es) = addrs (live_entries st @ es)" using True by (auto simp: addrs_def)
    then have "refs_ok (live_entries st @ es) st" using Cons.prems(1) sub by (simp add: refs_ok_def)
    moreover have "distinct (map backend_handle (filter owned es))" using Cons.prems(2) by (simp split: if_splits)
    ultimately show ?thesis using Cons.IH [of st] by simp
  next
    case False
    let ?a = "backend_handle e" and ?st = "st\<lparr>programs := (programs st)(backend_handle e := None)\<rparr>"
    have ow: "owned e" "e \<notin> set (live_entries st)" using False by auto
    have live: "?a \<notin> addrs (live_entries st)"
    proof
      assume "?a \<in> addrs (live_entries st)"
      then obtain x where "x \<in> set (live_entries st)" "owned x" "backend_handle x = ?a" by (auto simp: addrs_def)
      then have "x = e" using owned_same [OF Cons.prems(1), of e x] ow by simp
      then show False using \<open>x \<in> set (live_entries st)\<close> ow by simp
    qed
    have rest: "?a \<notin> addrs es" using Cons.prems(2) ow by (auto simp: addrs_def)
    have mil: "?a \<notin> mil_addrs st" using r(4) ow by auto
    have "?a \<in> dom (programs st)" using r(3) ow by simp
    then have un: "for_loop ane_unload (destroy_entry e) st = Inr ?st"
      using destroy_owned [OF Cons.prems(1), of e] ow by (auto simp: ane_unload_def program_at_def)
    have "dom (programs ?st) = addrs (live_entries st @ es) \<union> mil_addrs st" using r(3) ow live rest mil by auto
    then have "refs_ok (live_entries st @ es) ?st" by (intro refs_shrink [OF Cons.prems(1)]) auto
    then have "refs_ok (live_entries ?st @ es) ?st" by simp
    moreover have "distinct (map backend_handle (filter owned es))" using Cons.prems(2) ow by simp
    ultimately have ih: "drop_refs es ?st = Inr (?st\<lparr>programs := programs ?st |` (addrs (live_entries st) \<union> mil_addrs st)\<rparr>)"
      using Cons.IH [of ?st] by (simp only: live_simps mil_addrs_simps)
    have same: "programs ?st |` (addrs (live_entries st) \<union> mil_addrs st) = programs st |` (addrs (live_entries st) \<union> mil_addrs st)"
      using live mil by (auto simp: restrict_map_def fun_eq_iff)
    have "drop_refs (e # es) st = drop_refs es ?st" using ow un by simp
    moreover have "?st\<lparr>programs := q\<rparr> = st\<lparr>programs := q\<rparr>" for q by simp
    ultimately show ?thesis by (simp only: ih same)
  qed
qed

lemma refs_ok_restrict:
  assumes "refs_ok (live_entries st @ es) st"
  shows "refs_ok (live_entries st) (st\<lparr>programs := programs st |` (addrs (live_entries st) \<union> mil_addrs st)\<rparr>)"
  using refs_okD(3) [OF assms] by (intro refs_shrink [OF assms]) auto


section \<open>Operations on the cache\<close>

lemma cache_get_dropped: "cache_get k c = Inr (r, c') \<Longrightarrow> dropped c' = dropped c"
  by (auto simp: cache_get_def get_find_def get_promote_def Let_def res_simps split: option.splits if_splits)

lemma evict_for_keeps:
  assumes "cache_inv c"
  shows "cache_inv (evict_for s c) \<and> CompileCache.held (evict_for s c) = CompileCache.held c
    \<and> set (entries (evict_for s c)) \<subseteq> set (entries c)"
  using assms
proof (induction s c rule: evict_for.induct)
  case (1 s c)
  show ?case
  proof (cases "current_bytes c + s > max_bytes c \<and> lru c \<noteq> []")
    case True
    note e = evict_ok [OF 1(2) conjunct2 [OF True]]
    have "set (entries (evict_lru_locked c)) \<subseteq> set (entries c)" unfolding e(2) by (auto dest: in_set_butlastD)
    then show ?thesis using 1(1) [OF True e(1)] True e(4) by (subst (1 2 3) evict_for.simps) auto
  next
    case False
    then have "evict_for s c = c" by (subst evict_for.simps) (simp only: if_False)
    then show ?thesis using 1(2) by simp
  qed
qed

lemma cache_put_keeps:
  assumes "cache_inv c"
  shows "\<exists>c'. cache_put now (Some e) c = Inr (Some (e\<lparr>inserted_at := now\<rparr>), c') \<and> cache_inv c'
    \<and> CompileCache.held c' = add_mset (e\<lparr>inserted_at := now\<rparr>) (CompileCache.held c) \<and> e\<lparr>inserted_at := now\<rparr> \<in> set (entries c')"
proof -
  obtain c1 where c1: "remove_existing (e_key e) c = Inr c1" "cache_inv c1"
    "entries c1 = spec_remove (e_key e) (entries c)" "CompileCache.held c1 = CompileCache.held c"
    using remove_existing_ok [OF assms] by blast
  let ?c2 = "evict_for (e_size_bytes e) c1" and ?e = "e\<lparr>inserted_at := now\<rparr>"
  note k = evict_for_keeps [OF c1(2), of "e_size_bytes e"]
  have "e_key ?e \<notin> e_key ` set (entries ?c2)" using k c1(3) by (auto simp: spec_remove_def)
  from push_ok [OF conjunct1 [OF k] this] show ?thesis
    using c1 k by (simp add: cache_put_def Let_def)
qed

text \<open>What the interface needs of an operation on the cache: it gives up entries that were there or new.\<close>

lemma with_cache_ok:
  assumes inv: "cache_inv (api_cache st)" and refs: "refs_ok (live_entries st @ new) st"
    and op: "f ((api_cache st)\<lparr>dropped := []\<rparr>) = Inr (r, c)" "cache_inv c"
    and held: "CompileCache.held c = mset (entries (api_cache st)) + mset new"
    and distinct: "distinct (map backend_handle (filter owned (entries (api_cache st) @ new)))"
  shows "\<exists>ps. with_cache f st = Inr (r, st\<lparr>api_cache := c, programs := ps\<rparr>)
    \<and> refs_ok (live_entries (st\<lparr>api_cache := c\<rparr>)) (st\<lparr>api_cache := c, programs := ps\<rparr>)
    \<and> (\<forall>a \<in> addrs (live_entries (st\<lparr>api_cache := c\<rparr>)) \<union> mil_addrs st. ps a = programs st a)"
proof -
  let ?st = "st\<lparr>api_cache := c\<rparr>"
  let ?ps = "programs ?st |` (addrs (live_entries ?st) \<union> mil_addrs ?st)"
  have m: "mset (entries c @ dropped c) = mset (entries (api_cache st) @ new)"
    using held by (simp add: CompileCache.held_def)
  have set: "set (entries c) \<union> set (dropped c) = set (entries (api_cache st)) \<union> set new"
    using mset_eq_setD [OF m] by simp
  then have live: "set (live_entries ?st @ dropped c) = set (live_entries st @ new)"
    by (auto simp: live_entries_def entries_def)
  have "mset (map backend_handle (filter owned (entries c @ dropped c)))
      = mset (map backend_handle (filter owned (entries (api_cache st) @ new)))"
    using m by (simp add: mset_filter flip: filter_mset_add_mset image_mset_union filter_union_mset)
  then have "distinct (map backend_handle (filter owned (entries c @ dropped c)))"
    using distinct mset_eq_imp_distinct_iff by blast
  then have d: "distinct (map backend_handle (filter owned (dropped c)))" by simp
  have "addrs (live_entries ?st @ dropped c) = addrs (live_entries st @ new)" using live by (simp only: addrs_def)
  then have "refs_ok (live_entries ?st @ dropped c) ?st"
    using refs_okD [OF refs] live by (intro refs_okI) (simp_all del: live_simps addrs_simps)
  from drop_refs_ok [OF this d] refs_ok_restrict [OF this]
  have "with_cache f st = Inr (r, ?st\<lparr>programs := ?ps\<rparr>)" "refs_ok (live_entries ?st) (?st\<lparr>programs := ?ps\<rparr>)"
    using op by (simp_all add: with_cache_def)
  then show ?thesis by (intro exI [of _ ?ps]) (auto simp: restrict_map_def)
qed


lemma refs_ok_set: "set es' = set es \<Longrightarrow> refs_ok es st = refs_ok es' st"
  by (simp add: refs_ok_def addrs_def)

lemma refs_ok_same:
  assumes "refs_ok es st" "mil_handles st' = mil_handles st" "programs st' = programs st" "next_program st' = next_program st"
  shows "refs_ok es st'"
  using assms by (simp add: refs_ok_def mil_addrs_def)

lemma cache_owned_distinct:
  assumes "cache_inv c" "refs_ok es st" "set (entries c) \<subseteq> set es"
  shows "distinct (map backend_handle (filter owned (entries c)))"
proof -
  have "distinct (entries c)" using cache_invD(2) [OF assms(1)] by (simp add: distinct_map)
  moreover have "inj_on backend_handle (set (filter owned (entries c)))"
    by (rule inj_on_subset [OF refs_okD(2) [OF assms(2)]]) (use assms(3) in auto)
  ultimately show ?thesis by (simp add: distinct_map)
qed

definition api_inv :: "libane \<Rightarrow> bool" where
  "api_inv st \<longleftrightarrow> cache_inv (api_cache st) \<and> refs_ok (live_entries st) st \<and> pool_ok (api_pool st) []
     \<and> distinct (map fst (handles st)) \<and> distinct (map fst (mil_handles st))
     \<and> (\<forall>h \<in> fst ` (set (handles st)) \<union> fst ` (set (mil_handles st)). h < next_handle st)"

lemma api_invD:
  assumes "api_inv st"
  shows "cache_inv (api_cache st)" "refs_ok (live_entries st) st" "pool_ok (api_pool st) []"
    "distinct (map fst (handles st))" "distinct (map fst (mil_handles st))"
    "\<And>h. h \<in> fst ` set (handles st) \<Longrightarrow> h < next_handle st" "\<And>h. h \<in> fst ` set (mil_handles st) \<Longrightarrow> h < next_handle st"
  using assms by (auto simp: api_inv_def)

lemma entries_drop [simp]: "entries (c\<lparr>dropped := d\<rparr>) = entries c" "cache_inv (c\<lparr>dropped := d\<rparr>) = cache_inv c"
  by (simp_all add: entries_def cache_inv_def)

lemma held_empty [simp]: "CompileCache.held (c\<lparr>dropped := []\<rparr>) = mset (entries c)"
  by (simp add: CompileCache.held_def)

lemma live_entriesI: "e \<in> set (entries (api_cache st)) \<Longrightarrow> e \<in> set (live_entries st)"
  "(h, s) \<in> set (handles st) \<Longrightarrow> h_entry s \<in> set (live_entries st)"
  by (force simp: live_entries_def entries_def)+

text \<open>A live entry's program is loaded.\<close>

lemma live_program:
  assumes "api_inv st" "e \<in> set (live_entries st)" "backend_handle e \<noteq> 0"
  shows "\<exists>p. program_at (backend_handle e) st = Inr p"
proof -
  have "backend_handle e \<in> addrs (live_entries st)" using assms(2,3) by (auto simp: addrs_def owned_def)
  then have "backend_handle e \<in> dom (programs st)" using refs_okD(3) [OF api_invD(2) [OF assms(1)]] by auto
  then show ?thesis by (auto simp: program_at_def)
qed

lemma get_step:
  assumes inv: "api_inv st"
  shows "\<exists>c. with_cache (cache_get k) st = Inr (spec_lookup k (entries (api_cache st)), st\<lparr>api_cache := c\<rparr>)
    \<and> api_inv (st\<lparr>api_cache := c\<rparr>) \<and> entries c = spec_promote k (entries (api_cache st))"
proof -
  note i = api_invD [OF inv]
  let ?c0 = "(api_cache st)\<lparr>dropped := []\<rparr>"
  obtain c where c: "cache_get k ?c0 = Inr (spec_lookup k (entries (api_cache st)), c)" "cache_inv c"
    "entries c = spec_promote k (entries (api_cache st))"
    using cache_get_ok [of ?c0 k] i(1) by auto
  have held: "CompileCache.held c = mset (entries (api_cache st)) + mset []"
    using cache_get_dropped [OF c(1)] c(3) by (simp add: CompileCache.held_def)
  have d: "distinct (map backend_handle (filter owned (entries (api_cache st) @ [])))"
    using cache_owned_distinct [OF i(1,2)] live_entriesI(1) by auto
  have r: "refs_ok (live_entries st @ []) st" using i(2) by simp
  obtain ps where ps: "with_cache (cache_get k) st = Inr (spec_lookup k (entries (api_cache st)), st\<lparr>api_cache := c, programs := ps\<rparr>)"
    "refs_ok (live_entries (st\<lparr>api_cache := c\<rparr>)) (st\<lparr>api_cache := c, programs := ps\<rparr>)"
    "\<forall>a \<in> addrs (live_entries (st\<lparr>api_cache := c\<rparr>)) \<union> mil_addrs st. ps a = programs st a"
    using with_cache_ok [where f = "cache_get k", OF i(1) r c(1,2) held d] by blast
  have live: "set (live_entries (st\<lparr>api_cache := c\<rparr>)) = set (live_entries st)"
    using c(3) by (simp add: live_entries_def entries_def)
  then have "addrs (live_entries (st\<lparr>api_cache := c\<rparr>)) = addrs (live_entries st)" by (simp only: addrs_def)
  then have "dom ps = dom (programs st)" "\<forall>a \<in> dom (programs st). ps a = programs st a"
    using refs_okD(3) [OF ps(2)] refs_okD(3) [OF i(2)] ps(3) by auto
  then have "ps = programs st" by (auto intro!: map_le_antisym simp: map_le_def)
  then have eq: "st\<lparr>api_cache := c, programs := ps\<rparr> = st\<lparr>api_cache := c\<rparr>" by simp
  have "api_inv (st\<lparr>api_cache := c\<rparr>)" using inv c(2) ps(2) by (simp add: api_inv_def eq del: live_simps)
  then show ?thesis using ps(1) c(3) eq by (intro exI [of _ c]) simp
qed

text \<open>Compiling a program and storing its entry, whether it compiled or not.\<close>

lemma new_program_refs:
  assumes r: "refs_ok es st" and np: "new_program E txt ws nm st = (a, st')" and rel: "owned e \<longrightarrow> has_release_fn e" "backend_handle e = a"
  shows "refs_ok (es @ [e]) st' \<and> (a \<noteq> 0 \<longrightarrow> a \<notin> addrs es \<and> programs st' a \<noteq> None)
    \<and> st' = st\<lparr>programs := programs st', next_program := next_program st'\<rparr>"
proof (cases "ane_compile (ae_rt E) txt ws nm")
  case None
  then have "a = 0" "st' = st" using np by (simp_all add: new_program_def)
  moreover have "\<not> owned e" using rel(2) \<open>a = 0\<close> by (simp add: owned_def)
  then have "{x \<in> set (es @ [e]). owned x} = {x \<in> set es. owned x}" "addrs (es @ [e]) = addrs es" by (auto simp: addrs_def)
  ultimately show ?thesis using r by (auto simp: refs_ok_def)
next
  case (Some p)
  note d = refs_okD [OF r]
  have a: "a = next_program st" and st': "st' = st\<lparr>programs := (programs st)(a \<mapsto> p), next_program := a + 1\<rparr>"
    using np Some by (auto simp: new_program_def)
  have ow: "owned e" using rel(2) a d(8) by (simp add: owned_def)
  have new: "a \<notin> dom (programs st)" using d(7) [of a] a by auto
  have fresh: "a \<notin> addrs es" "a \<notin> mil_addrs st" using new d(3) by simp_all
  have "refs_ok (es @ [e]) st'"
  proof (rule refs_okI)
    show "has_release_fn x" if "x \<in> set (es @ [e])" "owned x" for x using that d(1) rel(1) by auto
    have "inj_on backend_handle (insert e {x \<in> set es. owned x})"
      using d(2) fresh(1) rel(2) by (auto simp: addrs_def)
    moreover have "{x \<in> set (es @ [e]). owned x} = insert e {x \<in> set es. owned x}" using ow by auto
    ultimately show "inj_on backend_handle {x \<in> set (es @ [e]). owned x}" by simp
    show "dom (programs st') = addrs (es @ [e]) \<union> mil_addrs st'" using d(3) ow rel(2) by (simp add: st')
    show "addrs (es @ [e]) \<inter> mil_addrs st' = {}" using d(4) fresh(2) ow rel(2) by (simp add: st')
    show "x < next_program st'" if "x \<in> dom (programs st')" for x
    proof (cases "x = a")
      case False
      then have "x \<in> dom (programs st)" using that by (simp add: st')
      then show ?thesis using d(7) a by (simp add: st' less_SucI)
    qed (simp add: st')
  qed (use d in \<open>simp_all add: st'\<close>)
  then show ?thesis using fresh by (simp add: st')
qed

lemma store_step:
  fixes key :: CacheKey and sz :: size_t and now :: nat
  assumes inv: "api_inv st" and np: "new_program E txt ws nm st = (a, st1)"
  defines "e \<equiv> compiled_entry key a sz\<lparr>inserted_at := now\<rparr>"
  shows "\<exists>st2. with_cache (cache_put now (Some (compiled_entry key a sz))) st1 = Inr (Some e, st2) \<and> api_inv st2
    \<and> e \<in> set (entries (api_cache st2)) \<and> handles st2 = handles st \<and> next_handle st2 = next_handle st
    \<and> (a \<noteq> 0 \<longrightarrow> programs st2 a = programs st1 a \<and> programs st1 a \<noteq> None) \<and> api_pool st2 = api_pool st
    \<and> (a = 0 \<longrightarrow> st1 = st)"
proof -
  note i = api_invD [OF inv]
  have e: "owned e \<longrightarrow> has_release_fn e" "backend_handle e = a" by (simp_all add: e_def compiled_entry_def owned_def)
  note n = new_program_refs [OF i(2) np e]
  have st1: "st1 = st\<lparr>programs := programs st1, next_program := next_program st1\<rparr>" using n by blast
  have f: "api_cache st1 = api_cache st" "handles st1 = handles st" "mil_handles st1 = mil_handles st"
    "api_pool st1 = api_pool st" "next_handle st1 = next_handle st" "live_entries st1 = live_entries st"
    by (subst st1, simp)+
  have r: "refs_ok (live_entries st1 @ [e]) st1" using n f by simp
  let ?c0 = "(api_cache st1)\<lparr>dropped := []\<rparr>"
  have inv0: "cache_inv ?c0" using i(1) f by simp
  obtain c where c: "cache_put now (Some (compiled_entry key a sz)) ?c0 = Inr (Some e, c)" "cache_inv c"
    "CompileCache.held c = add_mset e (CompileCache.held ?c0)" "e \<in> set (entries c)"
    using cache_put_keeps [OF inv0, of now "compiled_entry key a sz"] unfolding e_def by blast
  have held: "CompileCache.held c = mset (entries (api_cache st1)) + mset [e]" using c(3) by simp
  have d0: "distinct (map backend_handle (filter owned (entries (api_cache st1))))"
    using cache_owned_distinct [OF i(1,2)] live_entriesI(1) f by auto
  have "a \<notin> backend_handle ` set (filter owned (entries (api_cache st1)))" if "a \<noteq> 0"
    using n that live_entriesI(1) [of _ st] by (auto simp: addrs_def f)
  then have d: "distinct (map backend_handle (filter owned (entries (api_cache st1) @ [e])))"
    using d0 e(2) by (auto simp: owned_def)
  have inv1: "cache_inv (api_cache st1)" using i(1) f by simp
  obtain ps where ps: "with_cache (cache_put now (Some (compiled_entry key a sz))) st1 = Inr (Some e, st1\<lparr>api_cache := c, programs := ps\<rparr>)"
    "refs_ok (live_entries (st1\<lparr>api_cache := c\<rparr>)) (st1\<lparr>api_cache := c, programs := ps\<rparr>)"
    "\<forall>x \<in> addrs (live_entries (st1\<lparr>api_cache := c\<rparr>)) \<union> mil_addrs st1. ps x = programs st1 x"
    using with_cache_ok [where f = "cache_put now (Some (compiled_entry key a sz))", OF inv1 r c(1,2) held d] by blast
  have live: "e \<in> set (live_entries (st1\<lparr>api_cache := c\<rparr>))" using c(4) by simp
  have "a \<in> addrs (live_entries (st1\<lparr>api_cache := c\<rparr>))" if "a \<noteq> 0"
    using that live e(2) by (auto simp: addrs_def owned_def)
  then have kept: "a \<noteq> 0 \<longrightarrow> ps a = programs st1 a" using ps(3) by blast
  have "api_inv (st1\<lparr>api_cache := c, programs := ps\<rparr>)"
    using inv f c(2) ps(2) by (simp add: api_inv_def)
  moreover have "a = 0 \<longrightarrow> st1 = st" using np refs_okD(8) [OF i(2)] by (auto simp: new_program_def split: option.splits)
  ultimately show ?thesis using ps(1) c(4) kept n f by (intro exI [of _ "st1\<lparr>api_cache := c, programs := ps\<rparr>"]) simp
qed


section \<open>Results that are right unless memory ran out\<close>

definition ok_or_oom :: "'a res \<Rightarrow> ('a \<Rightarrow> bool) \<Rightarrow> bool" where
  "ok_or_oom r P \<longleftrightarrow> (case r of Inl e \<Rightarrow> e = Bad_alloc | Inr x \<Rightarrow> P x)"

lemma ok_or_oom_simps [simp]: "ok_or_oom (Inr x) P \<longleftrightarrow> P x" "ok_or_oom (Inl e) P \<longleftrightarrow> e = Bad_alloc"
  by (simp_all add: ok_or_oom_def)

lemma ok_or_oom_bind: "ok_or_oom r P \<Longrightarrow> (\<And>x. P x \<Longrightarrow> ok_or_oom (f x) Q) \<Longrightarrow> ok_or_oom (bind_res r f) Q"
  by (cases r) auto

lemma ok_or_oom_mono: "ok_or_oom r P \<Longrightarrow> (\<And>x. P x \<Longrightarrow> Q x) \<Longrightarrow> ok_or_oom r Q"
  by (cases r) auto

definition plain_buf :: "size_t \<Rightarrow> AneBuffer \<Rightarrow> bool" where
  "plain_buf n b \<longleftrightarrow> b_bytes b = n \<and> buf_ok b \<and> \<not> b_tensor_layout b"

lemma pool_ok_acquire:
  assumes "env_ok env" "pool_ok p H"
  shows "ok_or_oom (acquire env n p) (\<lambda>(b, p'). pool_ok p' (b # H) \<and> plain_buf n b)"
proof (cases "acquire env n p")
  case (Inl e)
  then show ?thesis using acquire_fails by simp
next
  case (Inr bp)
  obtain b p' where bp: "bp = (b, p')" by (cases bp)
  obtain loc where "pool_at loc p H" using assms(2) by (auto simp: pool_ok_def)
  from pool_at_acquire [OF assms(1) this] Inr bp show ?thesis by (auto simp: pool_ok_def plain_buf_def)
qed

lemma pool_ok_release: "pool_ok p (b # H) \<Longrightarrow> pool_ok (release (Some b) p) H"
  using pool_at_release [where xs = "[]"] by (fastforce simp: pool_ok_def)

lemma pool_ok_swap: "pool_ok p (b # H) \<Longrightarrow> b_id b' = b_id b \<Longrightarrow> buf_ok b' \<Longrightarrow> pool_ok p (b' # H)"
  using pool_at_replace [where xs = "[]"] by (fastforce simp: pool_ok_def)

lemma plain_copy_from:
  assumes "plain_buf k b" "n \<le> k" "unat n \<le> length src"
  shows "\<exists>mem. b_mem b = Some mem \<and> copy_from src n b = Inr (b\<lparr>b_mem := Some (take (unat n) src @ drop (unat n) mem)\<rparr>)
    \<and> plain_buf k (b\<lparr>b_mem := Some (take (unat n) src @ drop (unat n) mem)\<rparr>)"
proof -
  obtain mem where mem: "b_mem b = Some mem" "unat k \<le> length mem" using assms(1) by (auto simp: plain_buf_def buf_ok_def)
  moreover have "unat n \<le> unat k" using assms(2) by (simp add: word_le_nat_alt)
  ultimately show ?thesis
    using assms by (intro exI [of _ mem]) (auto simp: plain_buf_def buf_ok_def copy_from_def memcpy_into_def)
qed

lemma plain_copy_to:
  assumes "plain_buf k b" "n \<le> k"
  shows "\<exists>mem. b_mem b = Some mem \<and> copy_to n b = Inr (take (unat n) mem) \<and> unat n \<le> length mem"
proof -
  obtain mem where mem: "b_mem b = Some mem" "unat k \<le> length mem" using assms(1) by (auto simp: plain_buf_def buf_ok_def)
  moreover have "unat n \<le> unat k" using assms(2) by (simp add: word_le_nat_alt)
  ultimately show ?thesis using assms(1) by (auto simp: plain_buf_def copy_to_def)
qed

definition same_size :: "byte list option \<Rightarrow> byte list \<Rightarrow> bool" where
  "same_size out m \<longleftrightarrow> (\<forall>old. out = Some old \<longrightarrow> length m = length old)"

lemma set_surface_ok:
  assumes "plain_buf k b" "ms \<noteq> [] \<longrightarrow> same_size (iosurface b) (hd ms)"
  shows "b_id (set_surface ms b) = b_id b" "plain_buf k (set_surface ms b)"
  using assms by (auto simp: set_surface_def plain_buf_def buf_ok_def iosurface_def same_size_def)

text \<open>What the runtime and the BLAS document: results have the size of the memory they are written to.\<close>

definition api_sized :: "api_env \<Rightarrow> bool" where
  "api_sized E \<longleftrightarrow> env_ok (ae_alloc E) \<and> runtime_sized (ae_exec E)
     \<and> (\<forall>prog i u m. ane_execute E prog i u = Some m \<longrightarrow> same_size u m)
     \<and> (\<forall>prog i us r. ane_execute_stats E prog i us = Some r \<longrightarrow> list_all2 same_size us (fst r))
     \<and> (\<forall>M N K al A la B lb be C lc. length (cblas_sgemm (ae_floats E) M N K al A la B lb be C lc) = length C)"

lemma api_sizedD:
  assumes "api_sized E"
  shows "env_ok (ae_alloc E)" "ane_execute E prog i u = Some m \<Longrightarrow> same_size u m"
    "ane_execute_multi (ae_exec E) prog is us = Some ms \<Longrightarrow> list_all2 same_size us ms"
    "ane_execute_stats E prog is us = Some (ms, s) \<Longrightarrow> list_all2 same_size us ms"
    "length (cblas_sgemm (ae_floats E) M N K al A la B lb be C lc) = length C"
  using assms by (fastforce simp: api_sized_def runtime_sized_def same_size_def [abs_def])+

lemma pool_ok_filled:
  assumes "env_ok env" "pool_ok p H" "unat n \<le> length src"
  shows "ok_or_oom (acquire_with_data env src n p) (\<lambda>(b, p'). pool_ok p' (b # H) \<and> plain_buf n b
    \<and> (\<exists>mem. b_mem b = Some mem \<and> take (unat n) mem = take (unat n) src))"
  unfolding acquire_with_data_def
proof (rule ok_or_oom_bind [OF pool_ok_acquire [OF assms(1,2)]], clarify)
  fix b p'
  assume p': "pool_ok p' (b # H)" and b: "plain_buf n b"
  obtain mem where "copy_from src n b = Inr (b\<lparr>b_mem := Some (take (unat n) src @ drop (unat n) mem)\<rparr>)"
    "plain_buf n (b\<lparr>b_mem := Some (take (unat n) src @ drop (unat n) mem)\<rparr>)"
    using plain_copy_from [OF b order.refl assms(3)] by blast
  with pool_ok_swap [OF p'] assms(3)
  show "ok_or_oom (bind_res (copy_from src n b) (\<lambda>b'. Inr (b', p'))) (\<lambda>(b, p'). pool_ok p' (b # H) \<and> plain_buf n b
    \<and> (\<exists>mem. b_mem b = Some mem \<and> take (unat n) mem = take (unat n) src))"
    by (simp add: plain_buf_def)
qed

lemma store_one:
  assumes "plain_buf n b" "pool_ok p (b # H)" "ms \<noteq> [] \<longrightarrow> same_size (iosurface b) (hd ms)"
  shows "pool_ok p (set_surface ms b # H)" "plain_buf n (set_surface ms b)"
    "\<exists>d. copy_to n (set_surface ms b) = Inr d \<and> length d = unat n"
proof -
  note s = set_surface_ok [OF assms(1,3)]
  show "pool_ok p (set_surface ms b # H)" by (rule pool_ok_swap [OF assms(2)]) (use s in \<open>simp_all add: plain_buf_def\<close>)
  show "plain_buf n (set_surface ms b)" by (rule s)
  show "\<exists>d. copy_to n (set_surface ms b) = Inr d \<and> length d = unat n" using plain_copy_to [OF s(2) order.refl] by auto
qed

lemma run_program_ok:
  assumes E: "api_sized E" and p: "pool_ok p []" and len: "unat in_bytes \<le> length input"
  shows "ok_or_oom (run_program E prog input in_bytes out_bytes p)
    (\<lambda>(r, p'). pool_ok p' [] \<and> (\<forall>d. r = Some d \<longrightarrow> length d = unat out_bytes))"
  unfolding run_program_def
  apply (rule ok_or_oom_bind [OF pool_ok_filled [OF api_sizedD(1) [OF E] p len]], clarify)
  subgoal for b1 p1
    apply (rule ok_or_oom_bind [OF pool_ok_acquire [OF api_sizedD(1) [OF E]]], assumption, clarify)
    subgoal for b2 p2
    proof (cases "ane_execute E prog (iosurface b1) (iosurface b2)")
      case None
      assume "pool_ok p2 [b2, b1]"
      then show ?thesis using None pool_ok_release [OF pool_ok_release] by simp
    next
      case (Some m)
      assume p2: "pool_ok p2 [b2, b1]" and b2: "plain_buf out_bytes b2"
      have "[m] \<noteq> [] \<longrightarrow> same_size (iosurface b2) (hd [m])" using api_sizedD(2) [OF E Some] by simp
      note s = store_one [OF b2 p2 this]
      have "pool_ok (release (Some b1) (release (Some (set_surface [m] b2)) p2)) []" by (intro pool_ok_release s(1))
      then show ?thesis using Some s(3) by (auto simp: Let_def)
    qed
    done
  done

lemma run_program2_ok:
  assumes E: "api_sized E" and p: "pool_ok p []" and len: "unat n \<le> length input0" "unat n \<le> length input1"
  shows "ok_or_oom (run_program2 E prog input0 input1 n p)
    (\<lambda>(r, p'). pool_ok p' [] \<and> (\<forall>d. r = Some d \<longrightarrow> length d = unat n))"
  unfolding run_program2_def
  apply (rule ok_or_oom_bind [OF pool_ok_filled [OF api_sizedD(1) [OF E] p len(1)]], clarify)
  subgoal for b0 p0
    apply (rule ok_or_oom_bind [OF pool_ok_filled [OF api_sizedD(1) [OF E] _ len(2)]], assumption, clarify)
    subgoal for b1 p1
      apply (rule ok_or_oom_bind [OF pool_ok_acquire [OF api_sizedD(1) [OF E]]], assumption, clarify)
      subgoal for b2 p2
      proof (cases "ane_execute_multi (ae_exec E) prog [iosurface b0, iosurface b1] [iosurface b2]")
        case None
        assume "pool_ok p2 [b2, b1, b0]"
        then show ?thesis using None pool_ok_release [OF pool_ok_release [OF pool_ok_release]] by (simp add: Let_def)
      next
        case (Some ms)
        assume p2: "pool_ok p2 [b2, b1, b0]" and b2: "plain_buf n b2"
        have "ms \<noteq> [] \<longrightarrow> same_size (iosurface b2) (hd ms)" using api_sizedD(3) [OF E Some] by (auto simp: list_all2_Cons1)
        note s = store_one [OF b2 p2 this]
        have "pool_ok (release (Some b0) (release (Some b1) (release (Some (set_surface ms b2)) p2))) []"
          by (intro pool_ok_release s(1))
        then show ?thesis using Some s(3) by (auto simp: Let_def)
      qed
      done
    done
  done


lemma pool_ok_bufs: "pool_ok p H \<Longrightarrow> b \<in> set H \<Longrightarrow> buf_ok b"
  by (auto simp: pool_ok_def dest: pool_atD(10))

lemma pool_ok_front: "pool_ok p (bs @ b # H) \<Longrightarrow> pool_ok p (b # bs @ H)"
  by (rule pool_ok_perm [rotated]) auto

lemma acquire_filled_ok:
  assumes "env_ok env" "pool_ok p H" "\<forall>x \<in> set ins. unat (snd x) \<le> length (fst x) \<and> snd x \<le> n"
  shows "ok_or_oom (acquire_filled env n ins p) (\<lambda>(bs, p'). pool_ok p' (bs @ H) \<and> list_all (plain_buf n) bs \<and> length bs = length ins)"
  using assms(2,3)
proof (induction ins arbitrary: p H)
  case (Cons x ins)
  obtain src sz where x: "x = (src, sz)" by (cases x)
  show ?case unfolding x acquire_filled.simps
  proof (rule ok_or_oom_bind [OF pool_ok_acquire [OF assms(1) Cons.prems(1)]], clarify)
    fix b p1
    assume p1: "pool_ok p1 (b # H)" and b: "plain_buf n b"
    obtain c where c: "copy_from src sz b = Inr c" "plain_buf n c" "b_id c = b_id b"
      using plain_copy_from [OF b, of sz src] Cons.prems(2) x by fastforce
    have p2: "pool_ok p1 (c # H)" by (rule pool_ok_swap [OF p1]) (use c in \<open>simp_all add: plain_buf_def\<close>)
    have "ok_or_oom (acquire_filled env n ins p1) (\<lambda>(bs, p'). pool_ok p' (bs @ c # H) \<and> list_all (plain_buf n) bs \<and> length bs = length ins)"
      by (rule Cons.IH [OF p2]) (use Cons.prems(2) in simp)
    then have "ok_or_oom (bind_res (acquire_filled env n ins p1) (\<lambda>(bs, p). Inr (c # bs, p)))
      (\<lambda>(bs, p'). pool_ok p' (bs @ H) \<and> list_all (plain_buf n) bs \<and> length bs = length (x # ins))"
      by (rule ok_or_oom_bind) (use c(2) pool_ok_front in auto)
    then show "ok_or_oom (bind_res (copy_from src sz b) (\<lambda>b. bind_res (acquire_filled env n ins p1) (\<lambda>(bs, p). Inr (b # bs, p))))
      (\<lambda>(bs, p'). pool_ok p' (bs @ H) \<and> list_all (plain_buf n) bs \<and> length bs = length ((src, sz) # ins))"
      using c(1) x by simp
  qed
qed simp

lemma acquire_many_ok:
  assumes "env_ok env" "pool_ok p H"
  shows "ok_or_oom (acquire_many env n k p) (\<lambda>(bs, p'). pool_ok p' (bs @ H) \<and> list_all (plain_buf n) bs \<and> length bs = k)"
  using assms(2)
proof (induction k arbitrary: p H)
  case (Suc k)
  show ?case unfolding acquire_many.simps
  proof (rule ok_or_oom_bind [OF pool_ok_acquire [OF assms(1) Suc.prems]], clarify)
    fix b p1
    assume p1: "pool_ok p1 (b # H)" and b: "plain_buf n b"
    show "ok_or_oom (bind_res (acquire_many env n k p1) (\<lambda>(bs, p). Inr (b # bs, p)))
      (\<lambda>(bs, p'). pool_ok p' (bs @ H) \<and> list_all (plain_buf n) bs \<and> length bs = Suc k)"
      by (rule ok_or_oom_bind [OF Suc.IH [OF p1]]) (use b pool_ok_front in auto)
  qed
qed simp

lemma release_all_ok: "pool_ok p (bs @ H) \<Longrightarrow> pool_ok (release_all bs p) H"
  by (induction bs arbitrary: p) (auto simp: release_all_def dest: pool_ok_release)

lemma store_surfaces_ok:
  assumes "list_all (plain_buf n) bs" "list_all2 same_size (map iosurface bs) ms"
  shows "list_all (plain_buf n) (store_surfaces bs ms)" "map b_id (store_surfaces bs ms) = map b_id bs"
proof -
  have "list_all (plain_buf n) (store_surfaces bs ms) \<and> map b_id (store_surfaces bs ms) = map b_id bs"
    using assms
  proof (induction bs arbitrary: ms)
    case (Cons b bs)
    then obtain m ms' where ms: "ms = m # ms'" "same_size (iosurface b) m" "list_all2 same_size (map iosurface bs) ms'"
      by (auto simp: list_all2_Cons1)
    have "b_id (set_surface [m] b) = b_id b" "plain_buf n (set_surface [m] b)"
      using set_surface_ok [of n b "[m]"] Cons.prems(1) ms(2) by simp_all
    then show ?case using Cons.IH [of ms'] Cons.prems(1) ms by simp
  qed simp
  then show "list_all (plain_buf n) (store_surfaces bs ms)" "map b_id (store_surfaces bs ms) = map b_id bs" by simp_all
qed

lemma foldl_max_ge: "(k :: size_t) \<le> foldl max k xs"
  by (induction xs arbitrary: k) (auto intro: order_trans [OF max.cobounded1])

lemma foldl_max_member: "x \<in> set xs \<Longrightarrow> x \<le> foldl max (k :: size_t) xs"
proof (induction xs arbitrary: k)
  case (Cons y xs)
  have "y \<le> max k y" by simp
  also have "\<dots> \<le> foldl max (max k y) xs" by (rule foldl_max_ge)
  finally show ?case using Cons by auto
qed simp

lemma copies_out:
  assumes "list_all (plain_buf n) bs" "length bs = length outs" "\<forall>k \<in> set outs. k \<le> n"
  shows "\<exists>ds. map_res (\<lambda>(k, b). copy_to k b) (zip outs bs) = Inr ds \<and> map length ds = map unat outs"
  using assms(2,1,3)
proof (induction bs outs rule: list_induct2)
  case (Cons b bs k outs)
  obtain d where "copy_to k b = Inr d" "length d = unat k" using plain_copy_to [of n b k] Cons.prems by auto
  then show ?case using Cons by auto
qed simp

lemma mil_dispatch_ok:
  fixes ins :: "(byte list \<times> size_t) list" and outs :: "size_t list"
  assumes E: "env_ok (ae_alloc E)" and p: "pool_ok p []" and ins: "\<forall>x \<in> set ins. unat (snd x) \<le> length (fst x)"
    and sized: "\<And>i u ms s. dispatch i u = Some (ms, s) \<Longrightarrow> list_all2 same_size u ms"
  shows "ok_or_oom (mil_dispatch E dispatch ins outs p)
    (\<lambda>(r, p'). pool_ok p' [] \<and> (\<forall>ds s. r = Some (ds, s) \<longrightarrow> map length ds = map unat outs))"
proof -
  have ins': "\<forall>x \<in> set ins. unat (snd x) \<le> length (fst x) \<and> snd x \<le> foldl max kMinIOSurface (map snd ins)"
    using ins foldl_max_member [of _ "map snd ins"] by simp
  show ?thesis unfolding mil_dispatch_def Let_def
proof (rule ok_or_oom_bind [OF acquire_filled_ok [OF E p ins']], clarify)
  fix bs p1
  assume p1: "pool_ok p1 (bs @ [])"
  let ?n = "foldl max kMinIOSurface outs"
  show "ok_or_oom (bind_res (acquire_many (ae_alloc E) ?n (length outs) p1) (\<lambda>(out_bufs, p).
       case dispatch (map iosurface bs) (map iosurface out_bufs) of
         None \<Rightarrow> Inr (None, release_all out_bufs (release_all bs p))
       | Some (ms, stats) \<Rightarrow> bind_res (map_res (\<lambda>(n, b). copy_to n b) (zip outs (store_surfaces out_bufs ms)))
           (\<lambda>ds. Inr (Some (ds, stats), release_all (store_surfaces out_bufs ms) (release_all bs p)))))
     (\<lambda>(r, p'). pool_ok p' [] \<and> (\<forall>ds s. r = Some (ds, s) \<longrightarrow> map length ds = map unat outs))"
  proof (rule ok_or_oom_bind [OF acquire_many_ok [OF E p1]], clarify)
    fix us p2
    assume p2: "pool_ok p2 (us @ bs @ [])" and us: "list_all (plain_buf ?n) us" "length us = length outs"
    have given: "pool_ok (release_all us' (release_all bs p2)) []" if "pool_ok p2 (us' @ bs)" for us'
      using that pool_ok_perm [of "bs @ us'" "us' @ bs" p2] release_all_ok [of p2 bs us'] release_all_ok [of "release_all bs p2" us' "[]"] by simp
    show "ok_or_oom (case dispatch (map iosurface bs) (map iosurface us) of
         None \<Rightarrow> Inr (None, release_all us (release_all bs p2))
       | Some (ms, stats) \<Rightarrow> bind_res (map_res (\<lambda>(n, b). copy_to n b) (zip outs (store_surfaces us ms)))
           (\<lambda>ds. Inr (Some (ds, stats), release_all (store_surfaces us ms) (release_all bs p2))))
      (\<lambda>(r, p'). pool_ok p' [] \<and> (\<forall>ds s. r = Some (ds, s) \<longrightarrow> map length ds = map unat outs))"
    proof (cases "dispatch (map iosurface bs) (map iosurface us)")
      case None
      then show ?thesis using given p2 by simp
    next
      case (Some r)
      obtain ms s where r: "r = (ms, s)" by (cases r)
      note st = store_surfaces_ok [OF us(1) sized [OF Some [unfolded r]]]
      have len: "length (store_surfaces us ms) = length outs" using st(2) us(2) by (metis length_map)
      have "pool_ok p2 (store_surfaces us ms @ bs)"
        by (rule pool_ok_refill [where H = "us @ bs"])
          (use p2 st pool_ok_bufs [OF p2] in \<open>auto simp: list_all_iff plain_buf_def\<close>)
      from given [OF this] show ?thesis
        using Some r copies_out [OF st(1) len] foldl_max_member by fastforce
    qed
  qed
qed
qed


section \<open>Copies between layouts\<close>

lemma copy_at_ok:
  assumes ps: "set ps = (\<lambda>x. (D x, S x)) ` X" and "\<forall>x \<in> X. D x < length dst \<and> S x < length src" "inj_on D X"
  shows "\<exists>r. copy_at src ps dst = Inr r \<and> length r = length dst \<and> (\<forall>x \<in> X. r ! D x = src ! S x)"
proof -
  let ?f = "\<lambda>(i, j) d. bind_res (read_at src j) (\<lambda>v. write_at i v d)"
  have "\<forall>x \<in> set ps. \<forall>s. length s = length dst \<longrightarrow> ?f x s = Inr (s[fst x := src ! snd x])"
    using assms(2) by (auto simp: ps read_at_def write_at_def)
  moreover have "\<forall>x \<in> set ps. fst x < length dst" using assms(2) by (simp add: ps)
  moreover have "\<forall>x \<in> set ps. \<forall>y \<in> set ps. fst x = fst y \<longrightarrow> src ! snd x = src ! snd y"
    using assms(3) by (auto simp: ps inj_on_eq_iff)
  ultimately have "\<exists>r. for_loop ?f ps dst = Inr r \<and> length r = length dst \<and> (\<forall>x \<in> set ps. r ! fst x = src ! snd x)
      \<and> (\<forall>k < length dst. k \<notin> fst ` set ps \<longrightarrow> r ! k = dst ! k)"
    by (rule for_loop_writes) simp
  then show ?thesis unfolding copy_at_def by (auto simp: ps)
qed

lemma grid_pos: "(m, k) \<in> {..<M} \<times> {..<K} \<Longrightarrow> k * M + m < M * K \<and> m * K + k < M * (K :: nat)"
  using radix_less [of k K m M] radix_less [of m M k K] by (simp add: mult.commute)

lemma inj_grid: "inj_on (\<lambda>(m, k). k * M + m) ({..<M} \<times> {..<K})" "inj_on (\<lambda>(m, k). m * K + k) ({..<M} \<times> {..<K :: nat})"
  by (auto simp: inj_on_def radix_inj)

lemma pack_ok:
  assumes "M * K \<le> length A" "length dst = M * K"
  shows "\<exists>r. pack_matmul_input_for_ane A dst M K = Inr r \<and> length r = M * K \<and> (\<forall>m < M. \<forall>k < K. r ! (k * M + m) = A ! (m * K + k))"
proof -
  let ?X = "{..<M} \<times> {..<K}" and ?ps = "concat (map (\<lambda>m. map (\<lambda>k. (k * M + m, m * K + k)) [0..<K]) [0..<M])"
  have "set ?ps = (\<lambda>x. ((\<lambda>(m, k). k * M + m) x, (\<lambda>(m, k). m * K + k) x)) ` ?X" by force
  moreover have "\<forall>x \<in> ?X. (\<lambda>(m, k). k * M + m) x < length dst \<and> (\<lambda>(m, k). m * K + k) x < length A"
    using assms grid_pos [of _ _ M K] by fastforce
  ultimately have "\<exists>r. copy_at A ?ps dst = Inr r \<and> length r = length dst
      \<and> (\<forall>x \<in> ?X. r ! (\<lambda>(m, k). k * M + m) x = A ! (\<lambda>(m, k). m * K + k) x)"
    using inj_grid(1) by (rule copy_at_ok)
  then show ?thesis by (simp add: pack_matmul_input_for_ane_def assms(2) Ball_def) blast
qed

lemma unpack_ok:
  assumes "M * N \<le> length Y" "M * N \<le> length dst"
  shows "\<exists>r. unpack_matmul_output_from_ane Y dst M N = Inr r \<and> length r = length dst \<and> (\<forall>m < M. \<forall>n < N. r ! (m * N + n) = Y ! (n * M + m))"
proof -
  let ?X = "{..<M} \<times> {..<N}" and ?ps = "concat (map (\<lambda>m. map (\<lambda>n. (m * N + n, n * M + m)) [0..<N]) [0..<M])"
  have "set ?ps = (\<lambda>x. ((\<lambda>(m, n). m * N + n) x, (\<lambda>(m, n). n * M + m) x)) ` ?X" by force
  moreover have "\<forall>x \<in> ?X. (\<lambda>(m, n). m * N + n) x < length dst \<and> (\<lambda>(m, n). n * M + m) x < length Y"
    using assms grid_pos [of _ _ M N] by fastforce
  ultimately have "\<exists>r. copy_at Y ?ps dst = Inr r \<and> length r = length dst
      \<and> (\<forall>x \<in> ?X. r ! (\<lambda>(m, n). m * N + n) x = Y ! (\<lambda>(m, n). n * M + m) x)"
    using inj_grid(2) by (rule copy_at_ok)
  then show ?thesis by (simp add: unpack_matmul_output_from_ane_def Ball_def) blast
qed

text \<open>Elementwise loops.\<close>

lemma pointwise_loop:
  assumes "n \<le> length src" "n \<le> length dst"
  shows "\<exists>r. for_loop (\<lambda>i d. bind_res (read_at src i) (\<lambda>x. write_at i (f x) d)) [0..<n] dst = Inr r
    \<and> length r = length dst \<and> (\<forall>i < n. r ! i = f (src ! i))"
proof -
  let ?f = "\<lambda>i d. bind_res (read_at src i) (\<lambda>x. write_at i (f x) d)"
  have "\<forall>x \<in> set [0..<n]. \<forall>s. length s = length dst \<longrightarrow> ?f x s = Inr (s[id x := f (src ! x)])"
    using assms by (simp add: read_at_def write_at_def)
  moreover have "\<forall>x \<in> set [0..<n]. id x < length dst" using assms by simp
  moreover have "\<forall>x \<in> set [0..<n]. \<forall>y \<in> set [0..<n]. id x = id y \<longrightarrow> f (src ! x) = f (src ! y)" by simp
  ultimately have "\<exists>r. for_loop ?f [0..<n] dst = Inr r \<and> length r = length dst \<and> (\<forall>x \<in> set [0..<n]. r ! id x = f (src ! x))
      \<and> (\<forall>k < length dst. k \<notin> id ` set [0..<n] \<longrightarrow> r ! k = dst ! k)"
    by (rule for_loop_writes) simp
  then show ?thesis by (rule ex_forward) simp
qed

lemma int_mul_ok:
  assumes "0 < a" "0 < b" "a * b < 2 ^ 31"
  shows "int_mul a b = Inr (a * b)"
proof -
  have "0 \<le> a * b" by (rule mult_nonneg_nonneg) (use assms in simp_all)
  then have "- (2 ^ 31) \<le> a * b" by (rule order_trans [rotated]) simp
  then show ?thesis using assms(3) by (simp only: int_mul_def int32_ok_def simp_thms if_True)
qed

lemma widen_ok:
  assumes "0 < K" "0 < N" "K * N < 2 ^ 31" "nat K * nat N \<le> length B"
  shows "\<exists>r. widen_weights B K N = Inr r \<and> length r = nat K * nat N \<and> (\<forall>i < nat K * nat N. r ! i = fp16_to_fp32 (B ! i))"
proof -
  have eq: "nat (K * N) = nat K * nat N" using assms(1) by (simp add: nat_mult_distrib)
  have "nat K * nat N \<le> length (replicate (nat K * nat N) (0 :: u32))" by simp
  from pointwise_loop [OF assms(4) this, of fp16_to_fp32] show ?thesis
    unfolding widen_weights_def int_mul_ok [OF assms(1,2,3)] bind_res.simps eq length_replicate .
qed

lemma fb_matmul_f16_ok:
  assumes "0 < M" "0 < K" "0 < N" "M * K < 2 ^ 31" "K * N < 2 ^ 31" "M * N < 2 ^ 31"
    "nat M * nat K \<le> length A" "nat K * nat N \<le> length B" "nat M * nat N \<le> length C"
    and blas: "\<And>M N K al A la B lb be C lc. length (cblas_sgemm fo M N K al A la B lb be C lc) = length C"
  shows "\<exists>C'. fb_matmul_f16 fo A B C M K N = Inr C' \<and> length C' = length C"
proof -
  obtain fA where fA: "cast_f16_to_f32 fo A (replicate (nat M * nat K) 0) (nat M * nat K) = Inr fA"
    using pointwise_loop [of "nat M * nat K" A "replicate (nat M * nat K) 0"] assms(7) by (auto simp: cast_f16_to_f32_def)
  obtain fB where fB: "cast_f16_to_f32 fo B (replicate (nat K * nat N) 0) (nat K * nat N) = Inr fB"
    using pointwise_loop [of "nat K * nat N" B "replicate (nat K * nat N) 0"] assms(8) by (auto simp: cast_f16_to_f32_def)
  let ?fC = "fb_matmul_f32 fo fA fB (replicate (nat M * nat N) 0) M K N"
  have "length ?fC = nat M * nat N" by (simp add: fb_matmul_f32_def blas)
  then obtain C' where "cast_f32_to_f16 fo ?fC C (nat M * nat N) = Inr C'" "length C' = length C"
    using pointwise_loop [of "nat M * nat N" ?fC C] assms(9) by (auto simp: cast_f32_to_f16_def)
  then show ?thesis
    using assms(1-6) fA fB by (simp add: fb_matmul_f16_def int_mul_ok nat_mult_distrib)
qed


section \<open>Each operation keeps the invariant\<close>

lemmas program_defs = matmul_conv1x1_program_def softmax_program_def avg_pool_program_def max_pool_program_def
  gelu_program_def add_program_def mul_program_def logical_and_program_def logical_or_program_def
  logical_xor_program_def layernorm_program_def transpose_cssc_program_def silu_program_def rmsnorm_program_def

lemma validate_fails: "validate s = Inl e \<Longrightarrow> e \<noteq> Undefined_behaviour m"
  by (auto simp: validate_def split: if_splits)

lemma op_program_throws: "op_program M op ms = Some (Inl e) \<Longrightarrow> e \<noteq> Undefined_behaviour m"
  by (cases op) (simp_all add: op_program_def Let_def program_defs bind_res_Inl validate_fails, auto dest: validate_fails)

lemma matmul_program_throws: "matmul_conv1x1_program K N M w = Inl e \<Longrightarrow> e \<noteq> Undefined_behaviour m"
  by (auto simp: matmul_conv1x1_program_def Let_def bind_res_Inl dest: validate_fails)

lemma try_catch_cases:
  assumes "\<And>e m. r = Inl e \<Longrightarrow> e \<noteq> Undefined_behaviour m"
  shows "(\<exists>e. r = Inl e \<and> try_catch r h f = h) \<or> (\<exists>x. r = Inr x \<and> try_catch r h f = f x)"
proof (cases r)
  case (Inl e)
  with assms show ?thesis by (cases e) auto
qed simp

lemma new_handle_ok:
  assumes "api_inv st" "h_entry s \<in> set (live_entries st)"
  shows "api_inv (snd (new_handle s st))" "fst (new_handle s st) \<in> fst ` set (handles (snd (new_handle s st)))"
    "set (handles st) \<subseteq> set (handles (snd (new_handle s st)))"
proof -
  let ?st = "snd (new_handle s st)"
  note i = api_invD [OF assms(1)]
  have "set (live_entries ?st) = set (live_entries st)"
    using assms(2) by (auto simp: new_handle_def live_entries_def)
  then have "refs_ok (live_entries ?st) st" using i(2) refs_ok_set by blast
  then have r: "refs_ok (live_entries ?st) ?st" by (rule refs_ok_same) (simp_all add: new_handle_def)
  have f: "api_cache ?st = api_cache st" "api_pool ?st = api_pool st" "mil_handles ?st = mil_handles st"
    "handles ?st = (next_handle st, s) # handles st" "next_handle ?st = next_handle st + 1"
    by (simp_all add: new_handle_def)
  have "next_handle st \<notin> fst ` set (handles st)" using i(6) by blast
  moreover have "\<forall>h \<in> fst ` set ((next_handle st, s) # handles st) \<union> fst ` set (mil_handles st). h < next_handle st + 1"
    using assms(1) by (auto simp: api_inv_def intro: less_SucI)
  ultimately show "api_inv ?st" unfolding api_inv_def f using r i(1,3,4,5) by simp
  show "fst (new_handle s st) \<in> fst ` set (handles ?st)" "set (handles st) \<subseteq> set (handles ?st)"
    by (auto simp: new_handle_def)
qed

definition weights_given :: "byte list option \<Rightarrow> size_t \<Rightarrow> bool" where
  "weights_given weights weights_len \<longleftrightarrow> (\<forall>ws. weights = Some ws \<longrightarrow> unat weights_len \<le> length ws)"

lemma weights_blob_ok: "weights_given w n \<Longrightarrow> \<exists>b. weights_blob w n = Inr b"
  using from_fp16_ok by (auto simp: weights_blob_def weights_given_def is_ok_iff split: option.splits)

definition compiled_handle :: "libane \<Rightarrow> nat option \<times> libane \<Rightarrow> bool" where
  "compiled_handle st r \<longleftrightarrow> api_inv (snd r) \<and> set (handles st) \<subseteq> set (handles (snd r)) \<and> api_pool (snd r) = api_pool st
     \<and> (\<forall>h. fst r = Some h \<longrightarrow> h \<in> fst ` set (handles (snd r)))"

lemma api_pool_new [simp]: "api_pool (snd (new_handle s st)) = api_pool st"
  by (simp add: new_handle_def)

lemma compile_and_store_ok:
  assumes inv: "api_inv st"
  shows "\<exists>r. compile_and_store E op shape n blob key mp st = Inr r \<and> compiled_handle st r"
proof -
  let ?txt = "prog_text mp"
  let ?ws = "if prog_weight_name mp \<noteq> '''' \<and> blob_data blob \<noteq> [] then [(prog_weight_name mp, blob_data blob)] else []"
  define ast where "ast = (if ?txt \<noteq> '''' then new_program E ?txt ?ws (op_name op) st else (0, st))"
  obtain a st1 where ast': "ast = (a, st1)" by (cases ast)
  have eq: "compile_and_store E op shape n blob key mp st = (let (prog, st) = ast in
      if ?txt \<noteq> [] \<and> prog = 0 then Inr (None, st)
      else bind_res (with_cache (cache_put (clock st) (Some (compiled_entry key prog (n + of_nat (length ?txt) + 4096)))) st) (\<lambda>(stored, st).
        case stored of None \<Rightarrow> Inl (Undefined_behaviour ''null entry'')
        | Some e \<Rightarrow> (let (h, st) = new_handle \<lparr>h_entry = e, h_op = op, h_shape = shape\<rparr> st in Inr (Some h, st))))"
    by (simp only: compile_and_store_def Let_def ast_def)
  let ?e = "compiled_entry key a (n + of_nat (length ?txt) + 4096)"
  show ?thesis
  proof (cases "?txt \<noteq> '''' \<and> a = 0")
    case True
    then have "st1 = st" using ast' refs_okD(8) [OF api_invD(2) [OF inv]]
      by (auto simp: ast_def new_program_def split: option.splits)
    then show ?thesis using True ast' inv by (simp add: eq compiled_handle_def)
  next
    case False
    have "\<exists>E' txt ws nm. new_program E' txt ws nm st = (a, st1)"
    proof (cases "?txt \<noteq> ''''")
      case True
      then show ?thesis using ast' by (auto simp: ast_def)
    next
      case False
      let ?none = "E\<lparr>ae_rt := (ae_rt E)\<lparr>ane_compile := \<lambda>t w n. None\<rparr>\<rparr>"
      have "new_program ?none [] [] [] st = (a, st1)" using False ast' by (simp add: ast_def new_program_def)
      then show ?thesis by blast
    qed
    then obtain E' tx ws nm where "new_program E' tx ws nm st = (a, st1)" by blast
    from store_step [OF inv this, of "clock st1" key "n + of_nat (length ?txt) + 4096"]
    obtain st2 where st2: "with_cache (cache_put (clock st1) (Some ?e)) st1 = Inr (Some (?e\<lparr>inserted_at := clock st1\<rparr>), st2)"
      "api_inv st2" "?e\<lparr>inserted_at := clock st1\<rparr> \<in> set (entries (api_cache st2))" "handles st2 = handles st" "api_pool st2 = api_pool st"
      by blast
    let ?h = "\<lparr>h_entry = ?e\<lparr>inserted_at := clock st1\<rparr>, h_op = op, h_shape = shape\<rparr>"
    have live: "h_entry ?h \<in> set (live_entries st2)" using st2(3) live_entriesI by simp
    have "compile_and_store E op shape n blob key mp st = Inr (Some (fst (new_handle ?h st2)), snd (new_handle ?h st2))"
      using False ast' st2(1) by (auto simp: eq split_beta)
    then show ?thesis using new_handle_ok [OF st2(2) live] st2(4,5) by (simp add: compiled_handle_def)
  qed
qed

lemma compile_ok:
  assumes inv: "api_inv st" and ws: "weights_given weights n"
  shows "\<exists>r. libane_compile E op shape weights n st = Inr r \<and> compiled_handle st r"
proof -
  obtain blob where blob: "weights_blob weights n = Inr blob" using weights_blob_ok [OF ws] by blast
  let ?key = "\<lparr>k_op = op, k_shape = shape, weight_hash = blob_hash blob\<rparr>"
  obtain c where c: "with_cache (cache_get ?key) st = Inr (spec_lookup ?key (entries (api_cache st)), st\<lparr>api_cache := c\<rparr>)"
    "api_inv (st\<lparr>api_cache := c\<rparr>)" "entries c = spec_promote ?key (entries (api_cache st))"
    using get_step [OF inv] by blast
  let ?st = "st\<lparr>api_cache := c\<rparr>"
  have none: "compiled_handle st (None, ?st)" using c(2) by (simp add: compiled_handle_def)
  show ?thesis
  proof (cases "spec_lookup ?key (entries (api_cache st))")
    case (Some e)
    let ?h = "\<lparr>h_entry = e, h_op = op, h_shape = shape\<rparr>"
    have "h_entry ?h \<in> set (live_entries ?st)" using spec_lookup_cases [of ?key "entries (api_cache st)"] Some c(3) by simp
    from new_handle_ok [OF c(2) this] have "compiled_handle st (Some (fst (new_handle ?h ?st)), snd (new_handle ?h ?st))"
      by (simp add: compiled_handle_def)
    then show ?thesis using blob c(1) Some by (simp add: libane_compile_def Let_def split_beta)
  next
    case None
    define build where "build = (if use_ane E ?st then
        case op_program (ae_mil E) op (to_mil_shape shape) of
          None \<Rightarrow> Inr (None, ?st)
        | Some r \<Rightarrow> try_catch r (Inr (None, ?st)) (\<lambda>mp. compile_and_store E op shape n blob ?key mp ?st)
      else Inr (None, ?st))"
    have "\<exists>r. build = Inr r \<and> compiled_handle st r"
    proof (cases "op_program (ae_mil E) op (to_mil_shape shape)")
      case (Some r)
      have "\<exists>r'. try_catch r (Inr (None, ?st)) (\<lambda>mp. compile_and_store E op shape n blob ?key mp ?st) = Inr r' \<and> compiled_handle st r'"
        using try_catch_cases [of r "Inr (None, ?st)" "\<lambda>mp. compile_and_store E op shape n blob ?key mp ?st"]
          op_program_throws Some none compile_and_store_ok [OF c(2)] unfolding compiled_handle_def by fastforce
      then show ?thesis using Some none by (simp add: build_def)
    qed (simp add: build_def none)
    then have "\<exists>r. try_catch (validate (to_mil_shape shape)) (Inr (None, ?st)) (\<lambda>_. build) = Inr r \<and> compiled_handle st r"
      using try_catch_cases [of "validate (to_mil_shape shape)" "Inr (None, ?st)" "\<lambda>_. build"] validate_fails none by blast
    then show ?thesis using blob c(1) None by (simp add: libane_compile_def Let_def build_def)
  qed
qed

end
