(* ===== verification/LibaneSafety.thy ===== *)
theory LibaneSafety
  imports LibaneResources
begin

text \<open>
  Safety of the C interface: every call keeps \<open>api_inv\<close> (\<open>run_call_ok\<close>), so that any sequence of
  calls of a client that keeps its promises (\<open>calls_ok\<close>) neither uses a program that is not loaded nor
  leaks one. A call is a constructor of \<open>api_call\<close>; the graph calls own their programs
  in the compiled graph (GraphCompiler, GraphExecutor) and are left out here.
\<close>

section \<open>The matrix product\<close>

lemma api_inv_pool: "api_inv st \<Longrightarrow> pool_ok p [] \<Longrightarrow> api_inv (st\<lparr>api_pool := p\<rparr>)"
  using refs_ok_same [of "live_entries st" st "st\<lparr>api_pool := p\<rparr>"] by (simp add: api_inv_def)

lemma matmul_build_ok:
  assumes inv: "api_inv st" and pos: "0 < K" "0 < N" "K * N < 2 ^ 31" and B: "nat K * nat N \<le> length B"
  shows "\<exists>a st'. matmul_build E B key M K N st = Inr (a, st') \<and> api_inv st' \<and> api_pool st' = api_pool st
    \<and> (a \<noteq> 0 \<longrightarrow> (\<exists>p. program_at a st' = Inr p))"
proof -
  obtain w where w: "widen_weights B K N = Inr w" "length w = nat K * nat N" using widen_ok [OF pos B] by blast
  then obtain blob where blob: "from_fp32 w (nat K) (nat N) True = Inr blob" by (auto simp: from_fp32_def Let_def)
  consider (fails) "matmul_build E B key M K N st = Inr (0, st)"
    | (builds) mp where "matmul_conv1x1_program K N M ''weight.bin'' = Inr mp"
    using try_catch_cases [of "matmul_conv1x1_program K N M ''weight.bin''" "Inr (0, st)"]
      matmul_program_throws unfolding matmul_build_def by blast
  then show ?thesis
  proof cases
    case fails
    then show ?thesis using inv by simp
  next
    case builds
    obtain a st1 where np: "new_program E (prog_text mp) [(prog_weight_name mp, blob_data blob)] ''matmul_f16'' st = (a, st1)"
      by (cases "new_program E (prog_text mp) [(prog_weight_name mp, blob_data blob)] ''matmul_f16'' st")
    let ?sz = "of_int K * of_int N * 2 + of_nat (length (prog_text mp)) + 4096 :: size_t"
    obtain st2 where st2: "with_cache (cache_put (clock st1) (Some (compiled_entry key a ?sz))) st1
        = Inr (Some (compiled_entry key a ?sz\<lparr>inserted_at := clock st1\<rparr>), st2)"
      "api_inv st2" "api_pool st2 = api_pool st" "a \<noteq> 0 \<longrightarrow> programs st2 a = programs st1 a \<and> programs st1 a \<noteq> None"
      using store_step [OF inv np, of "clock st1" key ?sz] by blast
    have "matmul_build E B key M K N st = Inr (a, st2)"
      using builds w(1) blob np st2(1) by (simp add: matmul_build_def)
    then show ?thesis using st2 by (auto simp: program_at_def)
  qed
qed

lemma matmul_program_ok:
  assumes inv: "api_inv st" and pos: "0 < K" "0 < N" "K * N < 2 ^ 31" and B: "nat K * nat N \<le> length B"
  shows "\<exists>a st'. matmul_program E B M K N st = Inr (a, st') \<and> api_inv st' \<and> api_pool st' = api_pool st
    \<and> (a \<noteq> 0 \<longrightarrow> (\<exists>p. program_at a st' = Inr p))"
proof -
  obtain blob where blob: "from_fp16 (half_bytes B) (nat K * nat N * 2) = Inr blob"
    using from_fp16_ok [of "half_bytes B" "nat K * nat N * 2"] B by (auto simp: is_ok_iff)
  let ?key = "\<lparr>k_op = LIBANE_OP_MATMUL, k_shape = matmul_shape M N, weight_hash = blob_hash blob\<rparr>"
  obtain c where c: "with_cache (cache_get ?key) st = Inr (spec_lookup ?key (entries (api_cache st)), st\<lparr>api_cache := c\<rparr>)"
    "api_inv (st\<lparr>api_cache := c\<rparr>)" "entries c = spec_promote ?key (entries (api_cache st))"
    using get_step [OF inv] by blast
  let ?st = "st\<lparr>api_cache := c\<rparr>"
  show ?thesis
  proof (cases "spec_lookup ?key (entries (api_cache st))")
    case None
    obtain a st' where "matmul_build E B ?key M K N ?st = Inr (a, st')" "api_inv st'" "api_pool st' = api_pool ?st"
      "a \<noteq> 0 \<longrightarrow> (\<exists>p. program_at a st' = Inr p)"
      using matmul_build_ok [OF c(2) pos B] by blast
    then show ?thesis using blob c(1) None by (simp add: matmul_program_def Let_def)
  next
    case (Some e)
    let ?a = "if is_ane e \<and> backend_handle e \<noteq> 0 then backend_handle e else 0"
    have "e \<in> set (live_entries ?st)" using spec_lookup_cases [of ?key "entries (api_cache st)"] Some c(3) by simp
    then have "?a \<noteq> 0 \<longrightarrow> (\<exists>p. program_at ?a ?st = Inr p)" using live_program [OF c(2)] by simp
    moreover have "matmul_program E B M K N st = Inr (?a, ?st)" using blob c(1) Some by (simp add: matmul_program_def Let_def)
    ultimately show ?thesis using c(2) by (intro exI conjI) (assumption | simp)+
  qed
qed

lemma dispatch_size: "x * y * 2 < 2 ^ 64 \<Longrightarrow> unat (of_nat x * of_nat y * 2 :: size_t) = 2 * (x * y)"
proof -
  assume "x * y * 2 < 2 ^ 64"
  then have "unat (of_nat (x * y * 2) :: size_t) = x * y * 2" by (simp only: unat_of_nat) simp
  moreover have "of_nat x * of_nat y * 2 = (of_nat (x * y * 2) :: size_t)" by simp
  ultimately show ?thesis by (simp only: ac_simps)
qed

lemma matmul_dispatch_ok:
  assumes E: "api_sized E" and p: "pool_ok p []" and A: "M * K \<le> length A" and C: "M * N \<le> length C"
    and small: "M * K * 2 < 2 ^ 64" "M * N * 2 < 2 ^ 64"
  shows "ok_or_oom (matmul_dispatch E prog A C M K N p) (\<lambda>(r, p'). pool_ok p' [] \<and> (\<forall>C'. r = Some C' \<longrightarrow> length C' = length C))"
proof -
  obtain X where X: "pack_matmul_input_for_ane A (replicate (M * K) 0) M K = Inr X" "length X = M * K"
    using pack_ok [OF A, of "replicate (M * K) 0"] by auto
  let ?run = "run_program E prog (half_bytes X) (of_nat M * of_nat K * 2) (of_nat M * of_nat N * 2) p"
  have len: "unat (of_nat M * of_nat K * 2 :: size_t) \<le> length (half_bytes X)" using X(2) dispatch_size [OF small(1)] by simp
  have "ok_or_oom (bind_res ?run (\<lambda>(r, p). case r of None \<Rightarrow> Inr (None, p)
      | Some Y \<Rightarrow> bind_res (unpack_matmul_output_from_ane (halves Y) C M N) (\<lambda>C. Inr (Some C, p))))
    (\<lambda>(r, p'). pool_ok p' [] \<and> (\<forall>C'. r = Some C' \<longrightarrow> length C' = length C))"
  proof (rule ok_or_oom_bind [OF run_program_ok [OF E p len]], clarify)
    fix r :: "byte list option" and p'
    assume p': "pool_ok p' []" and r: "\<forall>d. r = Some d \<longrightarrow> length d = unat (of_nat M * of_nat N * 2 :: size_t)"
    show "ok_or_oom (case r of None \<Rightarrow> Inr (None, p')
      | Some Y \<Rightarrow> bind_res (unpack_matmul_output_from_ane (halves Y) C M N) (\<lambda>C. Inr (Some C, p')))
      (\<lambda>(r, p'). pool_ok p' [] \<and> (\<forall>C'. r = Some C' \<longrightarrow> length C' = length C))"
    proof (cases r)
      case (Some Y)
      then have "M * N \<le> length (halves Y)" using r dispatch_size [OF small(2)] by (simp add: length_halves)
      from unpack_ok [OF this C] obtain C' where "unpack_matmul_output_from_ane (halves Y) C M N = Inr C'" "length C' = length C" by blast
      then show ?thesis using Some p' by simp
    qed (simp add: p')
  qed
  then show ?thesis by (simp add: matmul_dispatch_def X(1))
qed

fun matmul_args :: "'a list option \<Rightarrow> 'a list option \<Rightarrow> 'a list option \<Rightarrow> int \<Rightarrow> int \<Rightarrow> int \<Rightarrow> bool" where
  "matmul_args (Some A) (Some B) (Some C) M K N \<longleftrightarrow> (0 < M \<and> 0 < K \<and> 0 < N \<longrightarrow>
     M * K < 2 ^ 31 \<and> K * N < 2 ^ 31 \<and> M * N < 2 ^ 31
     \<and> nat M * nat K \<le> length A \<and> nat K * nat N \<le> length B \<and> nat M * nat N \<le> length C)"
| "matmul_args _ _ _ _ _ _ \<longleftrightarrow> True"

lemma nat_prod_small: "0 < x \<Longrightarrow> 0 < y \<Longrightarrow> x * y < 2 ^ 31 \<Longrightarrow> nat x * nat y * 2 < 2 ^ 64"
proof -
  assume x: "0 < x" "0 < y" and xy: "x * y < 2 ^ 31"
  have e: "nat x * nat y = nat (x * y)" using x by (simp add: nat_mult_distrib)
  have "nat (x * y) < nat (2 ^ 31)" using xy by (subst nat_mono_iff) simp_all
  then show ?thesis unfolding e by simp
qed

lemma matmul_f16_ok:
  assumes E: "api_sized E" and inv: "api_inv st" and args: "matmul_args A B C M K N"
  shows "ok_or_oom (libane_matmul_f16 E A B C M K N st) (\<lambda>(s, r, st'). api_inv st' \<and> map_option length r = map_option length C)"
proof (cases "(\<exists>A' B' C'. A = Some A' \<and> B = Some B' \<and> C = Some C') \<and> 0 < M \<and> 0 < K \<and> 0 < N")
  case False
  then have "libane_matmul_f16 E A B C M K N st = Inr (LIBANE_ERR_INVALID_ARG, C, st)"
    by (cases A; cases B; cases C) (auto simp: libane_matmul_f16_def)
  then show ?thesis using inv by simp
next
  case True
  then obtain A' B' C' where abc: "A = Some A'" "B = Some B'" "C = Some C'" and pos: "0 < M" "0 < K" "0 < N" by blast
  have a: "M * K < 2 ^ 31" "K * N < 2 ^ 31" "M * N < 2 ^ 31" "nat M * nat K \<le> length A'" "nat K * nat N \<le> length B'" "nat M * nat N \<le> length C'"
    using args abc pos by simp_all
  obtain D where D: "fb_matmul_f16 (ae_floats E) A' B' C' M K N = Inr D" "length D = length C'"
    using fb_matmul_f16_ok [OF pos a api_sizedD(5) [OF E]] by blast
  have cpu: "ok_or_oom (matmul_on_cpu E A' B' C' M K N st') (\<lambda>(s, r, st'). api_inv st' \<and> map_option length r = map_option length C)"
    if "api_inv st'" for st' using D that abc by (simp add: matmul_on_cpu_def)
  obtain x st1 where x: "matmul_program E B' M K N st = Inr (x, st1)" "api_inv st1" "x \<noteq> 0 \<longrightarrow> (\<exists>p. program_at x st1 = Inr p)"
    using matmul_program_ok [OF inv pos(2,3) a(2,5)] by blast
  have ane: "ok_or_oom (bind_res (program_at x st1) (\<lambda>prog.
      bind_res (matmul_dispatch E prog A' C' (nat M) (nat K) (nat N) (api_pool st1)) (\<lambda>(r, p). case r of
        Some C' \<Rightarrow> Inr (LIBANE_OK, Some C', st1\<lparr>api_pool := p\<rparr>)
      | None \<Rightarrow> matmul_on_cpu E A' B' C' M K N (st1\<lparr>api_pool := p\<rparr>))))
      (\<lambda>(s, r, st'). api_inv st' \<and> map_option length r = map_option length C)" if nz: "x \<noteq> 0"
  proof -
    obtain prog where prog: "program_at x st1 = Inr prog" using x(3) nz by blast
    have "ok_or_oom (bind_res (matmul_dispatch E prog A' C' (nat M) (nat K) (nat N) (api_pool st1)) (\<lambda>(r, p). case r of
        Some C' \<Rightarrow> Inr (LIBANE_OK, Some C', st1\<lparr>api_pool := p\<rparr>)
      | None \<Rightarrow> matmul_on_cpu E A' B' C' M K N (st1\<lparr>api_pool := p\<rparr>)))
      (\<lambda>(s, r, st'). api_inv st' \<and> map_option length r = map_option length C)"
      by (rule ok_or_oom_bind [OF matmul_dispatch_ok [OF E api_invD(3) [OF x(2)] a(4,6)
            nat_prod_small [OF pos(1,2) a(1)] nat_prod_small [OF pos(1,3) a(3)]]])
        (use api_inv_pool [OF x(2)] cpu abc in \<open>auto split: option.splits\<close>)
    then show ?thesis using prog by simp
  qed
  have "libane_matmul_f16 E A B C M K N st = (if use_ane E st \<and> shapes_ok M K N
      then if x \<noteq> 0 then bind_res (program_at x st1) (\<lambda>prog.
          bind_res (matmul_dispatch E prog A' C' (nat M) (nat K) (nat N) (api_pool st1)) (\<lambda>(r, p). case r of
            Some C' \<Rightarrow> Inr (LIBANE_OK, Some C', st1\<lparr>api_pool := p\<rparr>)
          | None \<Rightarrow> matmul_on_cpu E A' B' C' M K N (st1\<lparr>api_pool := p\<rparr>)))
        else matmul_on_cpu E A' B' C' M K N st1
      else matmul_on_cpu E A' B' C' M K N st)"
    using abc pos x(1) by (simp add: libane_matmul_f16_def)
  then show ?thesis using ane cpu [OF inv] cpu [OF x(2)] by simp
qed

lemma matmul_f32_ok:
  assumes E: "api_sized E" and inv: "api_inv st" and args: "matmul_args A B C M K N"
  shows "ok_or_oom (libane_matmul_f32 E A B C M K N st) (\<lambda>(s, r, st'). api_inv st')"
proof (cases "(\<exists>A' B' C'. A = Some A' \<and> B = Some B' \<and> C = Some C') \<and> 0 < M \<and> 0 < K \<and> 0 < N")
  case False
  then have "libane_matmul_f32 E A B C M K N st = Inr (LIBANE_ERR_INVALID_ARG, C, st)"
    by (cases A; cases B; cases C) (auto simp: libane_matmul_f32_def Let_def)
  then show ?thesis using inv by simp
next
  case True
  then obtain A' B' C' where abc: "A = Some A'" "B = Some B'" "C = Some C'" and pos: "0 < M" "0 < K" "0 < N" by blast
  have a: "M * K < 2 ^ 31" "K * N < 2 ^ 31" "M * N < 2 ^ 31" "nat M * nat K \<le> length A'" "nat K * nat N \<le> length B'" "nat M * nat N \<le> length C'"
    using args abc pos by simp_all
  let ?fo = "ae_floats E"
  obtain A16 where A16: "cast_f32_to_f16 ?fo A' (replicate (nat M * nat K) 0) (nat M * nat K) = Inr A16" "length A16 = nat M * nat K"
    using pointwise_loop [of "nat M * nat K" A' "replicate (nat M * nat K) 0"] a(4) by (auto simp: cast_f32_to_f16_def)
  obtain B16 where B16: "cast_f32_to_f16 ?fo B' (replicate (nat K * nat N) 0) (nat K * nat N) = Inr B16" "length B16 = nat K * nat N"
    using pointwise_loop [of "nat K * nat N" B' "replicate (nat K * nat N) 0"] a(5) by (auto simp: cast_f32_to_f16_def)
  have "matmul_args (Some A16) (Some B16) (Some (replicate (nat M * nat N) (0 :: 16 word))) M K N"
    using a A16(2) B16(2) by simp
  note half = matmul_f16_ok [OF E inv this]
  let ?blas = "\<lambda>st. Inr (LIBANE_OK, Some (fb_matmul_f32 ?fo A' B' C' M K N), st)"
  have "ok_or_oom (bind_res (libane_matmul_f16 E (Some A16) (Some B16) (Some (replicate (nat M * nat N) 0)) M K N st) (\<lambda>(s, C16, st).
      case C16 of
        Some C16 \<Rightarrow> if s = LIBANE_OK
          then bind_res (cast_f16_to_f32 ?fo C16 C' (nat M * nat N)) (\<lambda>C. Inr (LIBANE_OK, Some C, st)) else ?blas st
      | None \<Rightarrow> ?blas st)) (\<lambda>(s, r, st'). api_inv st')"
  proof (rule ok_or_oom_bind [OF half], clarify)
    fix s and C16 :: "16 word list option" and st1 :: libane
    assume inv1: "api_inv st1" and "map_option length C16 = map_option length (Some (replicate (nat M * nat N) (0 :: 16 word)))"
    then obtain c where c: "C16 = Some c" "length c = nat M * nat N" by auto
    then obtain d where "cast_f16_to_f32 ?fo c C' (nat M * nat N) = Inr d"
      using pointwise_loop [of "nat M * nat N" c C'] a(6) by (auto simp: cast_f16_to_f32_def)
    then show "ok_or_oom (case C16 of
        Some C16 \<Rightarrow> if s = LIBANE_OK
          then bind_res (cast_f16_to_f32 ?fo C16 C' (nat M * nat N)) (\<lambda>C. Inr (LIBANE_OK, Some C, st1)) else ?blas st1
      | None \<Rightarrow> ?blas st1) (\<lambda>(s, r, st'). api_inv st')"
      using c(1) inv1 by simp
  qed
  then show ?thesis using abc pos A16(1) B16(1) inv by (simp add: libane_matmul_f32_def Let_def)
qed


section \<open>Handles and programs given back\<close>

lemma assoc_remove:
  assumes "distinct (map fst xs)" "map_of xs k = Some v"
  shows "set (filter (\<lambda>x. fst x \<noteq> k) xs) = set xs - {(k, v)}" "(k, v) \<in> set xs"
proof -
  show kv: "(k, v) \<in> set xs" using assms(2) by (rule map_of_SomeD)
  have "x = (k, v)" if "x \<in> set xs" "fst x = k" for x
  proof (cases x)
    case (Pair a b)
    then have "map_of xs k = Some b" using that map_of_is_SomeI [OF assms(1), of k b] by simp
    then show ?thesis using assms(2) Pair that by simp
  qed
  then show "set (filter (\<lambda>x. fst x \<noteq> k) xs) = set xs - {(k, v)}" by fastforce
qed

lemma release_ok:
  assumes inv: "api_inv st" and h: "h \<in> fst ` set (handles st)"
  shows "\<exists>st'. libane_release (Some h) st = Inr st' \<and> api_inv st'"
proof -
  note i = api_invD [OF inv]
  obtain s where s: "map_of (handles st) h = Some s" using h by (auto dest: weak_map_of_SomeI)
  let ?hs = "filter (\<lambda>x. fst x \<noteq> h) (handles st)"
  let ?st = "st\<lparr>handles := ?hs\<rparr>"
  note rm = assoc_remove [OF i(4) s]
  have "(h_entry \<circ> snd) ` set (handles st) = insert (h_entry s) ((h_entry \<circ> snd) ` set ?hs)"
    unfolding rm(1) using rm(2) by (force simp: image_iff)
  then have "set (live_entries ?st @ [h_entry s]) = set (live_entries st)" by (auto simp: live_entries_def)
  then have "refs_ok (live_entries ?st @ [h_entry s]) st" using i(2) refs_ok_set by blast
  then have r: "refs_ok (live_entries ?st @ [h_entry s]) ?st" by (rule refs_ok_same) simp_all
  let ?ps = "programs ?st |` (addrs (live_entries ?st) \<union> mil_addrs ?st)"
  have "libane_release (Some h) st = Inr (?st\<lparr>programs := ?ps\<rparr>)"
    using drop_refs_ok [OF r] s by (simp add: libane_release_def handle_at_def)
  moreover have "refs_ok (live_entries (?st\<lparr>programs := ?ps\<rparr>)) (?st\<lparr>programs := ?ps\<rparr>)"
    using refs_ok_restrict [OF r] by (simp only: live_simps)
  moreover have "distinct (map fst ?hs)" using i(4) by (simp add: distinct_map_filter)
  moreover have "\<forall>h \<in> fst ` set ?hs \<union> fst ` set (mil_handles st). h < next_handle st" using i(6,7) by auto
  ultimately have "api_inv (?st\<lparr>programs := ?ps\<rparr>)" using i(1,3,5) by (simp add: api_inv_def del: live_simps)
  with \<open>libane_release (Some h) st = _\<close> show ?thesis by blast
qed

lemma cache_flush_ok:
  assumes inv: "api_inv st"
  shows "\<exists>st'. libane_cache_flush st = Inr st' \<and> api_inv st' \<and> entries (api_cache st') = []
    \<and> handles st' = handles st \<and> mil_handles st' = mil_handles st"
proof -
  note i = api_invD [OF inv]
  let ?c0 = "(api_cache st)\<lparr>dropped := []\<rparr>" and ?f = "\<lambda>c. Inr ((), cache_flush c)"
  have r: "refs_ok (live_entries st @ []) st" using i(2) by simp
  have op: "?f ?c0 = Inr ((), cache_flush ?c0)" by simp
  have held: "CompileCache.held (cache_flush ?c0) = mset (entries (api_cache st)) + mset []" by (simp add: flush_ok(4))
  have d: "distinct (map backend_handle (filter owned (entries (api_cache st) @ [])))"
    using cache_owned_distinct [OF i(1,2)] live_entriesI(1) by auto
  obtain ps where ps: "with_cache ?f st = Inr ((), st\<lparr>api_cache := cache_flush ?c0, programs := ps\<rparr>)"
    "refs_ok (live_entries (st\<lparr>api_cache := cache_flush ?c0\<rparr>)) (st\<lparr>api_cache := cache_flush ?c0, programs := ps\<rparr>)"
    using with_cache_ok [where f = ?f, OF i(1) r op flush_ok(1) held d] by blast
  let ?st = "st\<lparr>api_cache := cache_flush ?c0, programs := ps\<rparr>"
  have "api_inv ?st" using inv ps(2) by (simp add: api_inv_def flush_ok(1))
  then show ?thesis using ps(1) by (intro exI [of _ ?st]) (simp add: libane_cache_flush_def flush_ok(2))
qed

lemma unload_ok:
  assumes refs: "refs_ok es st" and a: "(h, a) \<in> set (mil_handles st)" and ms: "set ms = set (mil_handles st) - {(h, a)}" "distinct (map snd ms)"
  shows "ane_unload a st = Inr (st\<lparr>programs := (programs st)(a := None)\<rparr>)"
    "refs_ok es (st\<lparr>programs := (programs st)(a := None), mil_handles := ms\<rparr>)"
proof -
  note d = refs_okD [OF refs]
  have in_mil: "a \<in> mil_addrs st" using a by (force simp: mil_addrs_def)
  then have "a \<in> dom (programs st)" using d(3) by blast
  then show "ane_unload a st = Inr (st\<lparr>programs := (programs st)(a := None)\<rparr>)" by (auto simp: ane_unload_def program_at_def)
  have "inj_on snd (set (mil_handles st))" using d(6) by (simp add: distinct_map)
  then have mil: "snd ` set ms = mil_addrs st - {a}" unfolding ms(1) mil_addrs_def using a by (subst inj_on_image_set_diff) auto
  have out: "a \<notin> addrs es" using in_mil d(4) by blast
  show "refs_ok es (st\<lparr>programs := (programs st)(a := None), mil_handles := ms\<rparr>)"
  proof (rule refs_okI)
    show "dom (programs (st\<lparr>programs := (programs st)(a := None), mil_handles := ms\<rparr>))
      = addrs es \<union> mil_addrs (st\<lparr>programs := (programs st)(a := None), mil_handles := ms\<rparr>)"
      using d(3) out by (auto simp: mil)
    show "x < next_program (st\<lparr>programs := (programs st)(a := None), mil_handles := ms\<rparr>)"
      if "x \<in> dom (programs (st\<lparr>programs := (programs st)(a := None), mil_handles := ms\<rparr>))" for x
    proof -
      have "x \<in> dom (programs st)" using that by (auto split: if_splits)
      then show ?thesis using d(7) by simp
    qed
    show "has_release_fn e" if "e \<in> set es" "owned e" for e using d(1) that by blast
  qed (use d(2,4,5,8) ms(2) in \<open>auto simp: mil\<close>)
qed

lemma mil_release_ok:
  assumes inv: "api_inv st" and h: "h \<in> fst ` set (mil_handles st)"
  shows "\<exists>st'. libane_mil_release (Some h) st = Inr st' \<and> api_inv st'"
proof -
  note i = api_invD [OF inv]
  obtain a where a: "map_of (mil_handles st) h = Some a" using h by (auto dest: weak_map_of_SomeI)
  let ?ms = "filter (\<lambda>x. fst x \<noteq> h) (mil_handles st)"
  note rm = assoc_remove [OF i(5) a]
  have "distinct (map snd ?ms)" "distinct (map fst ?ms)"
    using refs_okD(6) [OF i(2)] i(5) by (simp_all add: distinct_map_filter)
  note u = unload_ok [OF i(2) rm(2,1) this(1)] and dist = this(2)
  let ?st = "st\<lparr>programs := (programs st)(a := None), mil_handles := ?ms\<rparr>"
  have "libane_mil_release (Some h) st = Inr ?st" using u(1) a by (simp add: libane_mil_release_def mil_at_def)
  moreover have "\<forall>h \<in> fst ` set (handles st) \<union> fst ` set ?ms. h < next_handle st" using i(6,7) by auto
  then have "api_inv ?st" using i(1,3,4) u(2) dist by (simp add: api_inv_def)
  ultimately show ?thesis by blast
qed

lemma mil_compile_ok:
  assumes inv: "api_inv st" and ws: "\<forall>ws. weights = Some ws \<longrightarrow> (\<forall>(nm, d, n) \<in> set ws. unat n \<le> length d)"
  shows "\<exists>r st'. libane_mil_compile E tx weights st = Inr (r, st') \<and> api_inv st'"
proof (cases "\<exists>t ws. tx = Some t \<and> weights = Some ws")
  case False
  then show ?thesis using inv by (cases tx; cases weights) (auto simp: libane_mil_compile_def)
next
  case True
  then obtain t w where tw: "tx = Some t" "weights = Some w" by blast
  have "is_ok (mil_weight x)" if "x \<in> set w" for x
  proof (cases x)
    case (fields nm d n)
    then have "unat n \<le> length d" using ws tw that by auto
    then show ?thesis using from_fp16_ok [of d "unat n"] fields by (auto simp: mil_weight_def is_ok_iff)
  qed
  then obtain entries where ent: "map_res mil_weight w = Inr entries" using map_res_ok_iff [of mil_weight w] by (auto simp: is_ok_iff)
  note i = api_invD [OF inv]
  obtain a st1 where np: "new_program E t entries ''mil_probe'' st = (a, st1)" by (cases "new_program E t entries ''mil_probe'' st")
  show ?thesis
  proof (cases "ane_compile (ae_rt E) t entries ''mil_probe''")
    case None
    then show ?thesis using tw ent inv by (simp add: libane_mil_compile_def new_program_def)
  next
    case (Some p)
    let ?a = "next_program st"
    have a: "a = ?a" "a \<noteq> 0" and st1: "st1 = st\<lparr>programs := (programs st)(?a \<mapsto> p), next_program := ?a + 1\<rparr>"
      using np Some refs_okD(8) [OF i(2)] by (auto simp: new_program_def)
    note d = refs_okD [OF i(2)]
    have fresh: "?a \<notin> dom (programs st)" using d(7) [of ?a] by blast
    let ?st = "st1\<lparr>mil_handles := (next_handle st, ?a) # mil_handles st, next_handle := next_handle st + 1\<rparr>"
    have r: "refs_ok (live_entries st) ?st"
    proof (rule refs_okI)
      show "x < next_program ?st" if "x \<in> dom (programs ?st)" for x
      proof (cases "x = ?a")
        case False
        then have "x \<in> dom (programs st)" using that by (simp add: st1)
        then show ?thesis using d(7) by (simp add: st1 less_SucI)
      qed (simp add: st1)
      show "has_release_fn e" if "e \<in> set (live_entries st)" "owned e" for e using d(1) that by blast
      show "distinct (map snd (mil_handles ?st))" using d(3,6) fresh by (auto simp: st1 mil_addrs_def)
    qed (use d a fresh in \<open>simp_all add: st1 mil_addrs_def [of st]\<close>)
    have inv': "api_inv ?st"
    proof -
      have "\<forall>h \<in> fst ` set (handles st) \<union> fst ` set (mil_handles st). h < next_handle st" using inv by (simp add: api_inv_def)
      then have "next_handle st \<notin> fst ` set (mil_handles st)" "\<forall>h \<in> fst ` set (handles st) \<union> fst ` set (mil_handles st). h < Suc (next_handle st)"
        by (auto intro: less_SucI)
      then show ?thesis using i(1,3,4,5) r by (simp add: api_inv_def st1)
    qed
    show ?thesis
    proof (cases "new_nothrow E")
      case True
      then show ?thesis using tw ent np a st1 inv' by (simp add: libane_mil_compile_def)
    next
      case False
      have gone: "(programs st)(?a := None) = programs st" using fresh by (auto simp: fun_eq_iff)
      have "refs_ok (live_entries st) (st\<lparr>next_program := ?a + 1\<rparr>)"
        using d by (intro refs_okI) (simp_all add: less_SucI)
      then have "api_inv (st\<lparr>next_program := ?a + 1\<rparr>)" using inv by (simp add: api_inv_def)
      moreover have "ane_unload a st1 = Inr (st\<lparr>next_program := ?a + 1\<rparr>)"
        using a gone by (simp add: ane_unload_def program_at_def st1)
      ultimately show ?thesis using False tw ent np a by (simp add: libane_mil_compile_def)
    qed
  qed
qed


section \<open>Any sequence of calls\<close>

text \<open>The calls of a client, without their results, and the time between calls.\<close>

datatype api_call =
    Compile libane_op_t libane_shape_t "byte list option" size_t
  | Compile_batch "libane_compile_request_t list option" bool
  | Execute "nat option" "byte list option" bool libane_shape_t
  | Execute2 "nat option" "byte list option" "byte list option" bool libane_shape_t
  | Delta_reload "nat option"
  | Release "nat option"
  | Matmul_f16 "16 word list option" "16 word list option" "16 word list option" int int int
  | Matmul_f32 "u32 list option" "u32 list option" "u32 list option" int int int
  | Set_backend "string option"
  | Cache_flush
  | Mil_compile "string option" "(string \<times> byte list \<times> size_t) list option"
  | Mil_execute "nat option" "(byte list \<times> size_t) list option" "size_t list option"
  | Mil_execute_stats "nat option" "(byte list \<times> size_t) list option" "size_t list option" bool
  | Mil_sram_spill "nat option"
  | Mil_release "nat option"
  | Wait nat

fun run_call :: "api_env \<Rightarrow> api_call \<Rightarrow> libane \<Rightarrow> libane res" where
  "run_call E (Compile op shape w n) st = bind_res (libane_compile E op shape w n st) (\<lambda>(_, st). Inr st)"
| "run_call E (Compile_batch rs out) st = bind_res (libane_compile_batch E rs out st) (\<lambda>(_, _, st). Inr st)"
| "run_call E (Execute h src out shape) st = bind_res (libane_execute E h src out shape st) (\<lambda>(_, _, st). Inr st)"
| "run_call E (Execute2 h a b out shape) st = bind_res (libane_execute2 E h a b out shape st) (\<lambda>(_, _, st). Inr st)"
| "run_call E (Delta_reload h) st = bind_res (libane_delta_reload E h st) (\<lambda>_. Inr st)"
| "run_call E (Release h) st = libane_release h st"
| "run_call E (Matmul_f16 A B C M K N) st = bind_res (libane_matmul_f16 E A B C M K N st) (\<lambda>(_, _, st). Inr st)"
| "run_call E (Matmul_f32 A B C M K N) st = bind_res (libane_matmul_f32 E A B C M K N st) (\<lambda>(_, _, st). Inr st)"
| "run_call E (Set_backend b) st = Inr (libane_set_backend b st)"
| "run_call E Cache_flush st = libane_cache_flush st"
| "run_call E (Mil_compile t ws) st = bind_res (libane_mil_compile E t ws st) (\<lambda>(_, st). Inr st)"
| "run_call E (Mil_execute h ins outs) st = bind_res (libane_mil_execute E h ins outs st) (\<lambda>(_, _, st). Inr st)"
| "run_call E (Mil_execute_stats h ins outs s) st = bind_res (libane_mil_execute_stats E h ins outs s st) (\<lambda>(_, _, _, st). Inr st)"
| "run_call E (Mil_sram_spill h) st = bind_res (libane_mil_sram_spill E h st) (\<lambda>_. Inr st)"
| "run_call E (Mil_release h) st = libane_mil_release h st"
| "run_call E (Wait n) st = Inr (st\<lparr>clock := clock st + n\<rparr>)"

text \<open>What the client promises: handles are live, arrays have the announced sizes, and the
  element counts of a product fit an \<open>int\<close>.\<close>

definition handle_ok :: "nat option \<Rightarrow> (nat \<times> 'a) list \<Rightarrow> bool" where
  "handle_ok h hs \<longleftrightarrow> (case h of None \<Rightarrow> True | Some k \<Rightarrow> k \<in> fst ` set hs)"

definition bytes_ok :: "libane_shape_t \<Rightarrow> byte list option \<Rightarrow> bool" where
  "bytes_ok shape src \<longleftrightarrow> (case src of None \<Rightarrow> True | Some d \<Rightarrow> unat (numel (to_mil_shape shape) * 2) \<le> length d)"

definition sized_inputs :: "(byte list \<times> size_t) list option \<Rightarrow> bool" where
  "sized_inputs ins \<longleftrightarrow> (case ins of None \<Rightarrow> True | Some xs \<Rightarrow> \<forall>x \<in> set xs. unat (snd x) \<le> length (fst x))"

fun client_call_ok :: "api_call \<Rightarrow> libane \<Rightarrow> bool" where
  "client_call_ok (Compile op shape w n) st \<longleftrightarrow> weights_given w n"
| "client_call_ok (Compile_batch rs out) st \<longleftrightarrow>
     (case rs of None \<Rightarrow> True | Some rs \<Rightarrow> \<forall>r \<in> set rs. weights_given (rq_weights r) (rq_weights_len r))"
| "client_call_ok (Execute h src out shape) st \<longleftrightarrow> handle_ok h (handles st) \<and> bytes_ok shape src"
| "client_call_ok (Execute2 h a b out shape) st \<longleftrightarrow> handle_ok h (handles st) \<and> bytes_ok shape a \<and> bytes_ok shape b"
| "client_call_ok (Delta_reload h) st \<longleftrightarrow> handle_ok h (handles st)"
| "client_call_ok (Release h) st \<longleftrightarrow> handle_ok h (handles st)"
| "client_call_ok (Matmul_f16 A B C M K N) st \<longleftrightarrow> matmul_args A B C M K N"
| "client_call_ok (Matmul_f32 A B C M K N) st \<longleftrightarrow> matmul_args A B C M K N"
| "client_call_ok (Mil_compile t ws) st \<longleftrightarrow> (case ws of None \<Rightarrow> True | Some ws \<Rightarrow> \<forall>(nm, d, n) \<in> set ws. unat n \<le> length d)"
| "client_call_ok (Mil_execute h ins outs) st \<longleftrightarrow> handle_ok h (mil_handles st) \<and> sized_inputs ins"
| "client_call_ok (Mil_execute_stats h ins outs s) st \<longleftrightarrow> handle_ok h (mil_handles st) \<and> sized_inputs ins"
| "client_call_ok (Mil_sram_spill h) st \<longleftrightarrow> handle_ok h (mil_handles st)"
| "client_call_ok (Mil_release h) st \<longleftrightarrow> handle_ok h (mil_handles st)"
| "client_call_ok _ st \<longleftrightarrow> True"

fun run_calls :: "api_env \<Rightarrow> api_call list \<Rightarrow> libane \<Rightarrow> libane res" where
  "run_calls E [] st = Inr st"
| "run_calls E (c # cs) st = bind_res (run_call E c st) (run_calls E cs)"

fun calls_ok :: "api_env \<Rightarrow> api_call list \<Rightarrow> libane \<Rightarrow> bool" where
  "calls_ok E [] st \<longleftrightarrow> True"
| "calls_ok E (c # cs) st \<longleftrightarrow> client_call_ok c st \<and> (case run_call E c st of Inl _ \<Rightarrow> True | Inr st' \<Rightarrow> calls_ok E cs st')"

lemma live_handle:
  assumes inv: "api_inv st" and h: "handle_ok (Some k) (handles st)"
  shows "\<exists>s. handle_at k st = Inr s \<and> (backend_handle (h_entry s) \<noteq> 0 \<longrightarrow> (\<exists>p. program_at (backend_handle (h_entry s)) st = Inr p))"
proof -
  have "k \<in> fst ` set (handles st)" using h by (simp add: handle_ok_def)
  then obtain s where s: "map_of (handles st) k = Some s" by (auto dest: weak_map_of_SomeI)
  then have "h_entry s \<in> set (live_entries st)" using live_entriesI(2) map_of_SomeD by fast
  then show ?thesis using s live_program [OF inv] by (intro exI [of _ s]) (simp add: handle_at_def)
qed

lemma live_mil:
  assumes inv: "api_inv st" and h: "handle_ok (Some k) (mil_handles st)"
  shows "\<exists>a p. mil_at k st = Inr a \<and> program_at a st = Inr p"
proof -
  have "k \<in> fst ` set (mil_handles st)" using h by (simp add: handle_ok_def)
  then obtain a where a: "map_of (mil_handles st) k = Some a" by (auto dest: weak_map_of_SomeI)
  then have "(k, a) \<in> set (mil_handles st)" by (rule map_of_SomeD)
  then have "a \<in> mil_addrs st" by (force simp: mil_addrs_def)
  then have "a \<in> dom (programs st)" using refs_okD(3) [OF api_invD(2) [OF inv]] by blast
  then show ?thesis using a by (auto simp: mil_at_def program_at_def)
qed

lemma dispatched_ok:
  assumes "api_inv st" "ok_or_oom r (\<lambda>(x, p). pool_ok p [] \<and> Q x)"
  shows "ok_or_oom (bind_res r (\<lambda>(x, p). Inr (case x of
      Some d \<Rightarrow> (s, F d, st\<lparr>api_pool := p\<rparr>) | None \<Rightarrow> (s', G, st\<lparr>api_pool := p\<rparr>)))) (\<lambda>(_, _, st'). api_inv st')"
  by (rule ok_or_oom_bind [OF assms(2)]) (use api_inv_pool [OF assms(1)] in \<open>auto split: option.splits\<close>)

lemma execute_ok:
  assumes E: "api_sized E" and inv: "api_inv st" and h: "handle_ok h (handles st)" and src: "bytes_ok shape src"
  shows "ok_or_oom (libane_execute E h src out shape st) (\<lambda>(_, _, st'). api_inv st')"
proof (cases "\<exists>k d. h = Some k \<and> src = Some d \<and> out")
  case False
  then have "libane_execute E h src out shape st = Inr (LIBANE_ERR_INVALID_ARG, None, st)"
    by (cases h; cases src) (auto simp: libane_execute_def)
  then show ?thesis using inv by simp
next
  case True
  then obtain k d where kd: "h = Some k" "src = Some d" "out" by blast
  obtain s where s: "handle_at k st = Inr s"
    "backend_handle (h_entry s) \<noteq> 0 \<longrightarrow> (\<exists>p. program_at (backend_handle (h_entry s)) st = Inr p)"
    using live_handle [OF inv] h kd by blast
  show ?thesis
  proof (cases "is_ane (h_entry s) \<and> backend_handle (h_entry s) \<noteq> 0")
    case False
    then show ?thesis using kd s(1) inv by (auto simp: libane_execute_def Let_def)
  next
    case True
    then obtain prog where prog: "program_at (backend_handle (h_entry s)) st = Inr prog" using s(2) by blast
    have len: "unat (numel (to_mil_shape shape) * 2) \<le> length d" using src kd by (simp add: bytes_ok_def)
    show ?thesis
      using dispatched_ok [OF inv run_program_ok [OF E api_invD(3) [OF inv] len]] True kd s(1) prog
      by (simp add: libane_execute_def Let_def)
  qed
qed

lemma execute2_ok:
  assumes E: "api_sized E" and inv: "api_inv st" and h: "handle_ok h (handles st)" and src: "bytes_ok shape a" "bytes_ok shape b"
  shows "ok_or_oom (libane_execute2 E h a b out shape st) (\<lambda>(_, _, st'). api_inv st')"
proof (cases "\<exists>k d e. h = Some k \<and> a = Some d \<and> b = Some e \<and> out")
  case False
  then have "libane_execute2 E h a b out shape st = Inr (LIBANE_ERR_INVALID_ARG, None, st)"
    by (cases h; cases a; cases b) (auto simp: libane_execute2_def)
  then show ?thesis using inv by simp
next
  case True
  then obtain k d e where kd: "h = Some k" "a = Some d" "b = Some e" "out" by blast
  obtain s where s: "handle_at k st = Inr s"
    "backend_handle (h_entry s) \<noteq> 0 \<longrightarrow> (\<exists>p. program_at (backend_handle (h_entry s)) st = Inr p)"
    using live_handle [OF inv] h kd by blast
  show ?thesis
  proof (cases "is_ane (h_entry s) \<and> backend_handle (h_entry s) \<noteq> 0")
    case False
    then show ?thesis using kd s(1) inv by (auto simp: libane_execute2_def Let_def)
  next
    case True
    then obtain prog where prog: "program_at (backend_handle (h_entry s)) st = Inr prog" using s(2) by blast
    have len: "unat (numel (to_mil_shape shape) * 2) \<le> length d" "unat (numel (to_mil_shape shape) * 2) \<le> length e"
      using src kd by (simp_all add: bytes_ok_def)
    show ?thesis
      using dispatched_ok [OF inv run_program2_ok [OF E api_invD(3) [OF inv] len]] True kd s(1) prog
      by (simp add: libane_execute2_def Let_def)
  qed
qed

lemma mil_execute_ok:
  assumes E: "api_sized E" and inv: "api_inv st" and h: "handle_ok h (mil_handles st)" and ins: "sized_inputs ins"
  shows "ok_or_oom (libane_mil_execute E h ins outs st) (\<lambda>(_, _, st'). api_inv st')"
proof (cases "\<exists>k i u. h = Some k \<and> ins = Some i \<and> outs = Some u")
  case False
  then have "libane_mil_execute E h ins outs st = Inr (LIBANE_ERR_INVALID_ARG, [], st)"
    by (cases h; cases ins; cases outs) (auto simp: libane_mil_execute_def)
  then show ?thesis using inv by simp
next
  case True
  then obtain k i u where kiu: "h = Some k" "ins = Some i" "outs = Some u" by blast
  obtain a p where ap: "mil_at k st = Inr a" "program_at a st = Inr p" using live_mil [OF inv] h kiu by blast
  have "\<forall>x \<in> set i. unat (snd x) \<le> length (fst x)" using ins kiu by (simp add: sized_inputs_def)
  note md = mil_dispatch_ok [where dispatch = "\<lambda>i u. map_option (\<lambda>ms. (ms, ())) (ane_execute_multi (ae_exec E) p i u)",
      OF api_sizedD(1) [OF E] api_invD(3) [OF inv] this]
  have "ok_or_oom (bind_res (mil_dispatch E (\<lambda>i u. map_option (\<lambda>ms. (ms, ())) (ane_execute_multi (ae_exec E) p i u)) i u (api_pool st))
      (\<lambda>(r, p). Inr (case r of Some (ds, _) \<Rightarrow> (LIBANE_OK, ds, st\<lparr>api_pool := p\<rparr>)
        | None \<Rightarrow> (LIBANE_ERR_EXECUTE_FAILED, [], st\<lparr>api_pool := p\<rparr>)))) (\<lambda>(_, _, st'). api_inv st')"
    by (rule ok_or_oom_bind [OF md])
      (use api_sizedD(3) [OF E] api_inv_pool [OF inv] in \<open>auto split: option.splits\<close>)
  then show ?thesis using kiu ap by (simp add: libane_mil_execute_def)
qed

lemma mil_execute_stats_ok:
  assumes E: "api_sized E" and inv: "api_inv st" and h: "handle_ok h (mil_handles st)" and ins: "sized_inputs ins"
  shows "ok_or_oom (libane_mil_execute_stats E h ins outs want st) (\<lambda>(_, _, _, st'). api_inv st')"
proof (cases "\<exists>k i u. h = Some k \<and> ins = Some i \<and> outs = Some u")
  case False
  then have "libane_mil_execute_stats E h ins outs want st = Inr (LIBANE_ERR_INVALID_ARG, [], None, st)"
    by (cases h; cases ins; cases outs) (auto simp: libane_mil_execute_stats_def)
  then show ?thesis using inv by simp
next
  case True
  then obtain k i u where kiu: "h = Some k" "ins = Some i" "outs = Some u" by blast
  obtain a p where ap: "mil_at k st = Inr a" "program_at a st = Inr p" using live_mil [OF inv] h kiu by blast
  let ?d = "\<lambda>i u. if want then map_option (\<lambda>(ms, s). (ms, Some s)) (ane_execute_stats E p i u)
    else map_option (\<lambda>ms. (ms, None)) (ane_execute_multi (ae_exec E) p i u)"
  have "\<forall>x \<in> set i. unat (snd x) \<le> length (fst x)" using ins kiu by (simp add: sized_inputs_def)
  note md = mil_dispatch_ok [where dispatch = ?d, OF api_sizedD(1) [OF E] api_invD(3) [OF inv] this]
  have sized: "list_all2 same_size us ms" if "?d is us = Some (ms, s)" for "is" us ms s
    using that api_sizedD(3,4) [OF E] by (auto split: if_splits)
  have "ok_or_oom (bind_res (mil_dispatch E ?d i u (api_pool st))
      (\<lambda>(r, p). Inr (case r of Some (ds, s) \<Rightarrow> (LIBANE_OK, ds, s, st\<lparr>api_pool := p\<rparr>)
        | None \<Rightarrow> (LIBANE_ERR_EXECUTE_FAILED, [], None, st\<lparr>api_pool := p\<rparr>)))) (\<lambda>(_, _, _, st'). api_inv st')"
    by (rule ok_or_oom_bind [OF md [OF sized]])
      (use api_inv_pool [OF inv] in \<open>auto split: option.splits\<close>)
  then show ?thesis using kiu ap by (simp add: libane_mil_execute_stats_def)
qed

lemma compile_requests_ok:
  assumes "api_inv st" "\<forall>r \<in> set rs. weights_given (rq_weights r) (rq_weights_len r)"
  shows "\<exists>hs st'. compile_requests E rs st = Inr (hs, st') \<and> api_inv st'"
  using assms
proof (induction rs arbitrary: st)
  case (Cons r rs)
  obtain h st1 where st1: "libane_compile E (rq_op r) (rq_shape r) (rq_weights r) (rq_weights_len r) st = Inr (h, st1)" "api_inv st1"
    using compile_ok [OF Cons.prems(1), of "rq_weights r" "rq_weights_len r" E "rq_op r" "rq_shape r"] Cons.prems(2)
    by (auto simp: compiled_handle_def)
  moreover obtain hs st2 where "compile_requests E rs st1 = Inr (hs, st2)" "api_inv st2"
    using Cons.IH [OF st1(2)] Cons.prems(2) by auto
  ultimately show ?case by simp
qed simp

lemma run_call_ok:
  assumes E: "api_sized E" and inv: "api_inv st" and ok: "client_call_ok c st"
  shows "ok_or_oom (run_call E c st) api_inv"
proof (cases c)
  case (Compile op shape w n)
  then show ?thesis using compile_ok [OF inv, of w n E op shape] ok by (auto simp: compiled_handle_def)
next
  case (Compile_batch rs out)
  show ?thesis
  proof (cases "\<exists>r. rs = Some r \<and> out \<and> r \<noteq> []")
    case True
    then obtain r where r: "rs = Some r" "out" "r \<noteq> []" by blast
    then obtain hs st' where "compile_requests E r st = Inr (hs, st')" "api_inv st'"
      using compile_requests_ok [OF inv, of r E] ok Compile_batch by auto
    then show ?thesis using r Compile_batch by (simp add: libane_compile_batch_def)
  next
    case False
    then show ?thesis using Compile_batch inv by (cases rs) (auto simp: libane_compile_batch_def)
  qed
next
  case (Execute h src out shape)
  then show ?thesis using ok by (auto intro!: ok_or_oom_bind [OF execute_ok [OF E inv]])
next
  case (Execute2 h a b out shape)
  then show ?thesis using ok by (auto intro!: ok_or_oom_bind [OF execute2_ok [OF E inv]])
next
  case (Delta_reload h)
  then show ?thesis using ok inv live_handle [OF inv] by (cases h) (fastforce simp: libane_delta_reload_def Let_def)+
next
  case (Release h)
  then show ?thesis using ok inv release_ok [OF inv] by (cases h) (fastforce simp: handle_ok_def libane_release_def)+
next
  case (Matmul_f16 A B C M K N)
  then show ?thesis using ok by (auto intro!: ok_or_oom_bind [OF matmul_f16_ok [OF E inv]])
next
  case (Matmul_f32 A B C M K N)
  then show ?thesis using ok by (auto intro!: ok_or_oom_bind [OF matmul_f32_ok [OF E inv]])
next
  case (Set_backend b)
  have "api_inv (st\<lparr>force_backend := i\<rparr>)" for i
    using inv refs_ok_same [of "live_entries st" st "st\<lparr>force_backend := i\<rparr>"] by (simp add: api_inv_def)
  then show ?thesis using Set_backend inv by (simp add: libane_set_backend_def split: option.split)
next
  case Cache_flush
  then show ?thesis using cache_flush_ok [OF inv] by auto
next
  case (Mil_compile t ws)
  then show ?thesis using ok mil_compile_ok [OF inv, of ws E t] by (fastforce split: option.splits)
next
  case (Mil_execute h ins outs)
  then show ?thesis using ok by (auto intro!: ok_or_oom_bind [OF mil_execute_ok [OF E inv]])
next
  case (Mil_execute_stats h ins outs s)
  then show ?thesis using ok by (auto intro!: ok_or_oom_bind [OF mil_execute_stats_ok [OF E inv]])
next
  case (Mil_sram_spill h)
  then show ?thesis using ok inv live_mil [OF inv] by (cases h) (fastforce simp: libane_mil_sram_spill_def)+
next
  case (Mil_release h)
  then show ?thesis using ok inv mil_release_ok [OF inv] by (cases h) (fastforce simp: handle_ok_def libane_mil_release_def)+
next
  case (Wait n)
  have "api_inv (st\<lparr>clock := clock st + n\<rparr>)"
    using inv refs_ok_same [of "live_entries st" st "st\<lparr>clock := clock st + n\<rparr>"] by (simp add: api_inv_def)
  then show ?thesis using Wait by simp
qed

lemma run_calls_ok:
  assumes "api_sized E" "api_inv st" "calls_ok E cs st"
  shows "ok_or_oom (run_calls E cs st) api_inv"
  using assms(2,3)
proof (induction cs arbitrary: st)
  case (Cons c cs)
  have "ok_or_oom (run_call E c st) api_inv" using run_call_ok [OF assms(1) Cons.prems(1)] Cons.prems(2) by simp
  then show ?case using Cons.IH Cons.prems(2) by (cases "run_call E c st") simp_all
qed simp

lemma mk_libane_ok: "api_inv (mk_libane io)"
proof -
  have "pool_ok (mk_pool io kDefaultMaxIdle) []" by (rule demo_pool)
  moreover have "refs_ok [] (mk_libane io)" by (rule refs_okI) (simp_all add: mk_libane_def mil_addrs_def)
  moreover have "live_entries (mk_libane io) = []" by (simp add: mk_libane_def live_entries_def mk_cache_def)
  ultimately show ?thesis by (simp add: api_inv_def mk_cache_ok) (simp add: mk_libane_def mk_cache_ok)
qed

section \<open>An example runtime\<close>

text \<open>A runtime that compiles everything and keeps the weights in the program, and whose dispatch is a
  product of 8 x 8 weights with 8 channels of 16 columns, for the examples of this development.\<close>

definition demo_dot :: "16 word list \<Rightarrow> 16 word list \<Rightarrow> 16 word" where
  "demo_dot ws xs = sum_list (map2 (*) ws xs)"

definition kept_weights :: "AneProgram \<Rightarrow> 16 word list" where
  "kept_weights p = halves (drop 128 (map (\<lambda>c. of_nat (of_char c)) (model_dir p)))"

definition demo_product :: "AneProgram \<Rightarrow> byte list \<Rightarrow> 16 word list" where
  "demo_product p x = map (\<lambda>i. demo_dot (map (\<lambda>k. kept_weights p ! ((i div 16) * 8 + k)) [0..<8])
     (map (\<lambda>k. halves x ! (k * 16 + i mod 16)) [0..<8])) [0..<128]"

definition demo_api :: api_env where
  "demo_api = \<lparr>ae_mil = demo_mil_env,
     ae_rt = demo_runtime\<lparr>rt_initialize := Available, ane_compile := (\<lambda>t ws nm. Some \<lparr>prog_handle = 1,
       model_dir = map (\<lambda>b. char_of (unat b)) (concat (map snd ws)), objc_client_model = False,
       client_in_seq = 0, client_out_seq = 0\<rparr>)\<rparr>,
     ae_exec = demo_exec, ae_floats = demo_floats, ae_alloc = demo_env,
     ane_execute = (\<lambda>p i u. case (i, u) of
         (Some x, Some y) \<Rightarrow> if 256 \<le> length y then Some (half_bytes (demo_product p x) @ drop 256 y) else None
       | _ \<Rightarrow> None),
     ane_execute_stats = (\<lambda>p i u. None), ane_delta_reload = (\<lambda>p. True), sram_spill = (\<lambda>p. False),
     device_info = \<lparr>architecture = ''h15g'', core_count = 16, num_anes = 1, di_available = True\<rparr>, new_nothrow = True\<rparr>"

lemma demo_api_sized: "api_sized demo_api"
  using demo_env_ok demo_sized
  by (auto simp: api_sized_def demo_api_def same_size_def demo_product_def demo_floats_def split: option.splits if_splits)

definition demo_client :: "api_call list" where
  "demo_client = [Set_backend (Some ''ane''), Mil_compile (Some ''program'') (Some []), Mil_sram_spill (Some 1),
     Mil_compile (Some ''other'') (Some [(''w.bin'', [1, 2], 2)]), Mil_release (Some 1), Release None]"

lemmas demo_mil = libane_mil_compile_def libane_mil_release_def libane_mil_sram_spill_def mil_at_def program_at_def
  ane_unload_def new_program_def mil_weight_def from_fp16_def Let_def demo_api_def libane_set_backend_def libane_release_def
  handle_ok_def mk_libane_def

lemma demo_client_runs:
  "\<exists>st. run_calls demo_api demo_client (mk_libane True) = Inr st \<and> mil_handles st = [(2, 2)] \<and> handles st = []"
  "calls_ok demo_api demo_client (mk_libane True)"
  by (simp_all add: demo_client_def demo_mil)

section \<open>Safety and the end of a program's life\<close>





end
