(* ===== verification/LibaneMatmul.thy ===== *)
theory LibaneMatmul
  imports LibaneSafety
begin

text \<open>
  What \<open>libane_matmul_f16\<close> computes (src/libane.cpp). \<open>runs_conv1x1\<close> is what the runtime documents of the
  1x1 convolution the product is compiled to, over an inner product the device is free to choose;
  with it the layout changes of the interface compose to a row-major product, or, after
  \<open>libane_compile\<close> of the same weights, to a product with the transpose.
\<close>

section \<open>One dispatch\<close>

lemma halves_take: "halves (take (2 * j) z) = take j (halves z)"
proof (induction z arbitrary: j rule: halves.induct)
  case (1 a b bs)
  then show ?case by (cases j) simp_all
qed (auto simp: take_Cons' take_Cons split: nat.splits)

lemma halves_prefix:
  assumes "take (2 * j) z = half_bytes X" "i < j"
  shows "halves z ! i = X ! i"
proof -
  have "take j (halves z) = X" using halves_take [of j z] assms(1) by (simp add: halves_half_bytes)
  then show ?thesis using assms(2) nth_take [of i j "halves z"] by simp
qed

lemma run_program_value:
  assumes E: "api_sized E" and p: "pool_ok p []" and len: "unat in_bytes \<le> length input"
    and run: "run_program E prog input in_bytes out_bytes p = Inr (Some d, p')"
  shows "\<exists>i u m. ane_execute E prog i u = Some m \<and> (\<forall>x. i = Some x \<longrightarrow> take (unat in_bytes) x = take (unat in_bytes) input)
    \<and> (u \<noteq> None \<longrightarrow> d = take (unat out_bytes) m)"
proof -
  obtain b1 p1 b2 p2 where b1: "acquire_with_data (ae_alloc E) input in_bytes p = Inr (b1, p1)"
    and b2: "acquire (ae_alloc E) out_bytes p1 = Inr (b2, p2)"
    and disp: "(case ane_execute E prog (iosurface b1) (iosurface b2) of
       None \<Rightarrow> Inr (None, release (Some b1) (release (Some b2) p2))
     | Some m \<Rightarrow> let out_buf = set_surface [m] b2 in
         bind_res (copy_to out_bytes out_buf) (\<lambda>d. Inr (Some d, release (Some b1) (release (Some out_buf) p2)))) = Inr (Some d, p')"
    using run unfolding run_program_def by (auto simp: bind_res_Inr)
  obtain mem where f: "pool_ok p1 [b1]" "b_mem b1 = Some mem" "take (unat in_bytes) mem = take (unat in_bytes) input"
    using pool_ok_filled [OF api_sizedD(1) [OF E] p len] b1 by auto
  have g: "plain_buf out_bytes b2" using pool_ok_acquire [OF api_sizedD(1) [OF E] f(1), of out_bytes] b2 by simp
  obtain m where m: "ane_execute E prog (iosurface b1) (iosurface b2) = Some m"
    "copy_to out_bytes (set_surface [m] b2) = Inr d"
    using disp by (auto simp: Let_def bind_res_Inr split: option.splits)
  have "plain_buf out_bytes (set_surface [m] b2)" using set_surface_ok [OF g, of "[m]"] api_sizedD(2) [OF E m(1)] by simp
  from plain_copy_to [OF this order.refl] m(2) have "iosurface b2 \<noteq> None \<longrightarrow> d = take (unat out_bytes) m"
    by (auto simp: set_surface_def iosurface_def split: if_splits)
  then show ?thesis using m(1) f by (intro exI conjI) (auto simp: iosurface_def split: if_splits)
qed

section \<open>The convolution as a matrix product\<close>

text \<open>What the runtime documents of a 1x1 convolution with weights \<open>W\<close> in (output, input) order: given
  an input surface it fills the output surface, channel by channel, with the inner products
  of the rows of \<open>W\<close> with the columns of the input. \<open>dot\<close> is the device's inner product.\<close>

definition runs_conv1x1 ::
  "api_env \<Rightarrow> (16 word list \<Rightarrow> 16 word list \<Rightarrow> 16 word) \<Rightarrow> nat \<Rightarrow> nat \<Rightarrow> nat \<Rightarrow> AneProgram \<Rightarrow> 16 word list \<Rightarrow> bool" where
  "runs_conv1x1 E dot K N M prog W \<longleftrightarrow>
     (\<forall>i u z. ane_execute E prog i u = Some z \<longrightarrow> (\<exists>x y. i = Some x \<and> u = Some y \<and>
        (\<forall>n < N. \<forall>m < M. halves z ! (n * M + m)
           = dot (map (\<lambda>k. W ! (n * K + k)) [0..<K]) (map (\<lambda>k. halves x ! (k * M + m)) [0..<K]))))"

definition compiles_conv1x1 ::
  "api_env \<Rightarrow> (16 word list \<Rightarrow> 16 word list \<Rightarrow> 16 word) \<Rightarrow> int \<Rightarrow> int \<Rightarrow> int \<Rightarrow> bool" where
  "compiles_conv1x1 E dot K N M \<longleftrightarrow>
     (\<forall>mp blob nm prog. matmul_conv1x1_program K N M ''weight.bin'' = Inr mp
        \<longrightarrow> ane_compile (ae_rt E) (prog_text mp) [(''weight.bin'', blob)] nm = Some prog
        \<longrightarrow> runs_conv1x1 E dot (nat K) (nat N) (nat M) prog (halves (drop 128 blob)))"

lemma dispatch_value:
  assumes E: "api_sized E" and p: "pool_ok p []" and A: "M * K \<le> length A" and C: "M * N \<le> length C"
    and small: "M * K * 2 < 2 ^ 64" "M * N * 2 < 2 ^ 64" and prog: "runs_conv1x1 E dot K N M prog W"
    and run: "matmul_dispatch E prog A C M K N p = Inr (Some C', p')"
  shows "\<forall>m < M. \<forall>n < N. C' ! (m * N + n) = dot (map (\<lambda>k. W ! (n * K + k)) [0..<K]) (map (\<lambda>k. A ! (m * K + k)) [0..<K])"
proof (intro allI impI)
  fix m n assume mn: "m < M" "n < N"
  obtain X where X: "pack_matmul_input_for_ane A (replicate (M * K) 0) M K = Inr X" "length X = M * K"
    "\<forall>m < M. \<forall>k < K. X ! (k * M + m) = A ! (m * K + k)"
    using pack_ok [OF A, of "replicate (M * K) 0"] by auto
  let ?in = "of_nat M * of_nat K * 2 :: size_t" and ?out = "of_nat M * of_nat N * 2 :: size_t"
  note sz = dispatch_size [OF small(1)] dispatch_size [OF small(2)]
  have len: "unat ?in \<le> length (half_bytes X)" using X(2) sz(1) by simp
  obtain Y where Y: "run_program E prog (half_bytes X) ?in ?out p = Inr (Some Y, p')"
    "unpack_matmul_output_from_ane (halves Y) C M N = Inr C'"
    using run X(1) by (auto simp: matmul_dispatch_def bind_res_Inr split: option.splits)
  obtain i u z where z: "ane_execute E prog i u = Some z" "\<forall>x. i = Some x \<longrightarrow> take (unat ?in) x = take (unat ?in) (half_bytes X)"
    "u \<noteq> None \<longrightarrow> Y = take (unat ?out) z"
    using run_program_value [OF E p len Y(1)] by blast
  obtain x y where xy: "i = Some x" "u = Some y"
    and dev: "\<forall>n < N. \<forall>m < M. halves z ! (n * M + m) = dot (map (\<lambda>k. W ! (n * K + k)) [0..<K]) (map (\<lambda>k. halves x ! (k * M + m)) [0..<K])"
    using prog z(1) unfolding runs_conv1x1_def by blast
  have ylen: "length Y = unat ?out" using run_program_ok [OF E p len, of prog ?out] Y(1) by simp
  then have "M * N \<le> length (halves Y)" using sz(2) by (simp add: length_halves)
  from unpack_ok [OF this C] Y(2) mn have "C' ! (m * N + n) = halves Y ! (n * M + m)" by auto
  also have "\<dots> = halves z ! (n * M + m)"
  proof -
    have "n * M + m < M * N" using grid_pos [of m n M N] mn by simp
    moreover have "halves Y = take (M * N) (halves z)" using z(3) xy(2) sz(2) halves_take [of "M * N" z] by simp
    ultimately show ?thesis by simp
  qed
  also have "\<dots> = dot (map (\<lambda>k. W ! (n * K + k)) [0..<K]) (map (\<lambda>k. halves x ! (k * M + m)) [0..<K])" using dev mn by blast
  also have "map (\<lambda>k. halves x ! (k * M + m)) [0..<K] = map (\<lambda>k. A ! (m * K + k)) [0..<K]"
  proof (rule map_cong [OF refl])
    fix k assume "k \<in> set [0..<K]"
    then have k: "k < K" by simp
    have "take (2 * (M * K)) x = half_bytes X" using z(2) xy(1) sz(1) X(2) by simp
    from halves_prefix [OF this] grid_pos [of m k M K] k mn have "halves x ! (k * M + m) = X ! (k * M + m)" by simp
    then show "halves x ! (k * M + m) = A ! (m * K + k)" using X(3) k mn by simp
  qed
  finally show "C' ! (m * N + n) = dot (map (\<lambda>k. W ! (n * K + k)) [0..<K]) (map (\<lambda>k. A ! (m * K + k)) [0..<K])" .
qed

lemma from_fp32_transposed:
  assumes "from_fp32 src rows cols True = Inr b"
  shows "\<exists>d. blob_data b = blob_header (rows * cols * 2) @ half_bytes d
      \<and> (\<forall>r < rows. \<forall>c < cols. d ! (c * rows + r) = fp32_to_fp16 (src ! (r * cols + c)))"
proof -
  let ?d = "transpose_loop (\<lambda>i. fp32_to_fp16 (src ! i)) rows cols (halves (drop kDataOffset (blob_data (make_blob (rows * cols * 2)))))"
  have z: "halves (drop kDataOffset (blob_data (make_blob (rows * cols * 2)))) = replicate (rows * cols) 0"
    using halves_zero [of "rows * cols"] by (simp add: make_blob_data kDataOffset_def mult.commute)
  have "blob_data b = blob_header (rows * cols * 2) @ half_bytes ?d"
    using assms z by (auto simp: from_fp32_def Let_def put_data split: if_splits)
  then show ?thesis using z by (intro exI [of _ ?d]) (simp add: nth_transpose_loop)
qed


section \<open>When a product leaves the device\<close>

text \<open>A dispatch that the device refuses although both surfaces it is given are large enough.\<close>

definition dispatch_refused :: "api_env \<Rightarrow> int \<Rightarrow> int \<Rightarrow> int \<Rightarrow> bool" where
  "dispatch_refused E M K N \<longleftrightarrow> (\<exists>prog i u. ane_execute E prog i u = None
     \<and> (\<forall>x. i = Some x \<longrightarrow> 2 * (nat M * nat K) \<le> length x) \<and> (\<forall>y. u = Some y \<longrightarrow> 2 * (nat M * nat N) \<le> length y))"

definition compile_refused :: "api_env \<Rightarrow> int \<Rightarrow> int \<Rightarrow> int \<Rightarrow> bool" where
  "compile_refused E M K N \<longleftrightarrow> (case matmul_conv1x1_program K N M ''weight.bin'' of
     Inl e \<Rightarrow> True
   | Inr mp \<Rightarrow> \<exists>blob. ane_compile (ae_rt E) (prog_text mp) [(''weight.bin'', blob)] ''matmul_f16'' = None)"

lemma run_program_refused:
  assumes E: "api_sized E" and p: "pool_ok p []" and len: "unat in_bytes \<le> length input"
    and run: "run_program E prog input in_bytes out_bytes p = Inr (None, p')"
  shows "\<exists>i u. ane_execute E prog i u = None \<and> (\<forall>x. i = Some x \<longrightarrow> unat in_bytes \<le> length x)
    \<and> (\<forall>y. u = Some y \<longrightarrow> unat out_bytes \<le> length y)"
proof -
  obtain b1 p1 b2 p2 where b1: "acquire_with_data (ae_alloc E) input in_bytes p = Inr (b1, p1)"
    and b2: "acquire (ae_alloc E) out_bytes p1 = Inr (b2, p2)"
    and none: "ane_execute E prog (iosurface b1) (iosurface b2) = None"
    using run unfolding run_program_def by (auto simp: bind_res_Inr Let_def split: option.splits)
  have f: "pool_ok p1 [b1]" "plain_buf in_bytes b1" using pool_ok_filled [OF api_sizedD(1) [OF E] p len] b1 by auto
  have "plain_buf out_bytes b2" using pool_ok_acquire [OF api_sizedD(1) [OF E] f(1), of out_bytes] b2 by simp
  then show ?thesis using none f(2)
    by (intro exI conjI) (auto simp: iosurface_def plain_buf_def buf_ok_def split: if_splits)
qed

lemma matmul_dispatch_refused:
  assumes E: "api_sized E" and inv: "api_inv st" and args: "matmul_args (Some A) (Some B) (Some C) M K N" and pos: "0 < M" "0 < K" "0 < N"
    and run: "matmul_dispatch E prog A C (nat M) (nat K) (nat N) (api_pool st) = Inr (None, p')"
  shows "dispatch_refused E M K N"
proof -
  have a: "M * K < 2 ^ 31" "M * N < 2 ^ 31" "nat M * nat K \<le> length A" using args pos by simp_all
  obtain X where X: "pack_matmul_input_for_ane A (replicate (nat M * nat K) 0) (nat M) (nat K) = Inr X" "length X = nat M * nat K"
    using pack_ok [OF a(3), of "replicate (nat M * nat K) 0"] by auto
  let ?in = "of_nat (nat M) * of_nat (nat K) * 2 :: size_t" and ?out = "of_nat (nat M) * of_nat (nat N) * 2 :: size_t"
  note sz = dispatch_size [OF nat_prod_small [OF pos(1,2) a(1)]] dispatch_size [OF nat_prod_small [OF pos(1,3) a(2)]]
  obtain Y where Y: "run_program E prog (half_bytes X) ?in ?out (api_pool st) = Inr (None, Y)"
    using run X(1) by (auto simp: matmul_dispatch_def bind_res_Inr split: option.splits)
  have "unat ?in \<le> length (half_bytes X)" using X(2) sz(1) by simp
  from run_program_refused [OF E api_invD(3) [OF inv] this Y] sz show ?thesis
    unfolding dispatch_refused_def by (metis mult.commute)
qed

section \<open>Which program a product runs\<close>

lemma matmul_result_cases:
  assumes "libane_matmul_f16 E (Some A) (Some B) (Some C) M K N st = Inr (s, Some C', st')" "0 < M" "0 < K" "0 < N"
  obtains (cpu) "s = LIBANE_OK" "fb_matmul_f16 (ae_floats E) A B C M K N = Inr C'" "\<not> use_ane E st \<or> \<not> shapes_ok M K N"
  | (no_program) st1 where "s = LIBANE_OK" "fb_matmul_f16 (ae_floats E) A B C M K N = Inr C'" "matmul_program E B M K N st = Inr (0, st1)"
  | (no_dispatch) a st1 prog p' where "s = LIBANE_OK" "fb_matmul_f16 (ae_floats E) A B C M K N = Inr C'"
      "matmul_program E B M K N st = Inr (a, st1)"
      "matmul_dispatch E prog A C (nat M) (nat K) (nat N) (api_pool st1) = Inr (None, p')"
  | (device) a st1 prog p' where "s = LIBANE_OK" "matmul_program E B M K N st = Inr (a, st1)" "a \<noteq> 0" "program_at a st1 = Inr prog"
      "matmul_dispatch E prog A C (nat M) (nat K) (nat N) (api_pool st1) = Inr (Some C', p')"
proof -
  have on_cpu: "s = LIBANE_OK \<and> fb_matmul_f16 (ae_floats E) A B C M K N = Inr C'"
    if "matmul_on_cpu E A B C M K N st1 = Inr (s, Some C', st')" for st1
    using that by (auto simp: matmul_on_cpu_def bind_res_Inr)
  show ?thesis
  proof (cases "use_ane E st \<and> shapes_ok M K N")
    case False
    then have "matmul_on_cpu E A B C M K N st = Inr (s, Some C', st')"
      using assms by (auto simp: libane_matmul_f16_def split: if_splits)
    with False show ?thesis using cpu on_cpu by blast
  next
    case True
    then obtain a st1 where a: "matmul_program E B M K N st = Inr (a, st1)"
      and rest: "(if a \<noteq> 0 then bind_res (program_at a st1) (\<lambda>prog.
          bind_res (matmul_dispatch E prog A C (nat M) (nat K) (nat N) (api_pool st1)) (\<lambda>(r, p). case r of
            Some C' \<Rightarrow> Inr (LIBANE_OK, Some C', st1\<lparr>api_pool := p\<rparr>)
          | None \<Rightarrow> matmul_on_cpu E A B C M K N (st1\<lparr>api_pool := p\<rparr>)))
        else matmul_on_cpu E A B C M K N st1) = Inr (s, Some C', st')"
      using assms by (auto simp: libane_matmul_f16_def bind_res_Inr)
    show ?thesis
    proof (cases "a = 0")
      case True
      then show ?thesis using rest a no_program on_cpu by simp
    next
      case False
      then obtain prog r p where p: "program_at a st1 = Inr prog"
        "matmul_dispatch E prog A C (nat M) (nat K) (nat N) (api_pool st1) = Inr (r, p)"
        and r: "(case r of Some C' \<Rightarrow> Inr (LIBANE_OK, Some C', st1\<lparr>api_pool := p\<rparr>)
          | None \<Rightarrow> matmul_on_cpu E A B C M K N (st1\<lparr>api_pool := p\<rparr>)) = Inr (s, Some C', st')"
        using rest by (auto simp: bind_res_Inr)
      show ?thesis
      proof (cases r)
        case None
        then show ?thesis using r no_dispatch [OF _ _ a] p(2) on_cpu by simp
      next
        case (Some D)
        then have "s = LIBANE_OK" "D = C'" using r by simp_all
        then show ?thesis using device [OF _ a False p(1)] p(2) Some by simp
      qed
    qed
  qed
qed

lemma matmul_build_program:
  assumes inv: "api_inv st" and b: "matmul_build E B key M K N st = Inr (a, st')" and a: "a \<noteq> 0"
  obtains mp w blob prog where "matmul_conv1x1_program K N M ''weight.bin'' = Inr mp" "widen_weights B K N = Inr w"
    "from_fp32 w (nat K) (nat N) True = Inr blob"
    "ane_compile (ae_rt E) (prog_text mp) [(''weight.bin'', blob_data blob)] ''matmul_f16'' = Some prog" "program_at a st' = Inr prog"
proof -
  let ?go = "\<lambda>mp. bind_res (widen_weights B K N) (\<lambda>B_f32. bind_res (from_fp32 B_f32 (nat K) (nat N) True) (\<lambda>wblob.
     let (prog, st) = new_program E (prog_text mp) [(prog_weight_name mp, blob_data wblob)] ''matmul_f16'' st;
         e = compiled_entry key prog (of_int K * of_int N * 2 + of_nat (length (prog_text mp)) + 4096)
     in bind_res (with_cache (cache_put (clock st) (Some e)) st) (\<lambda>(_, st). Inr (prog, st))))"
  have "try_catch (matmul_conv1x1_program K N M ''weight.bin'') (Inr (0, st)) ?go = Inr (a, st')"
    using b by (simp only: matmul_build_def)
  then obtain mp where mp: "matmul_conv1x1_program K N M ''weight.bin'' = Inr mp" "?go mp = Inr (a, st')"
    using try_catch_cases [of "matmul_conv1x1_program K N M ''weight.bin''" "Inr (0, st)" ?go] matmul_program_throws a by fastforce
  have wn: "prog_weight_name mp = ''weight.bin''"
    using mp(1) by (auto simp: matmul_conv1x1_program_def Let_def bind_res_Inr)
  from mp(2) obtain w blob where w: "widen_weights B K N = Inr w" "from_fp32 w (nat K) (nat N) True = Inr blob"
    unfolding bind_res_Inr by blast
  obtain x st1 where np: "new_program E (prog_text mp) [(''weight.bin'', blob_data blob)] ''matmul_f16'' st = (x, st1)"
    by (cases "new_program E (prog_text mp) [(''weight.bin'', blob_data blob)] ''matmul_f16'' st")
  let ?sz = "of_int K * of_int N * 2 + of_nat (length (prog_text mp)) + 4096 :: size_t"
  obtain st2 where st2: "with_cache (cache_put (clock st1) (Some (compiled_entry key x ?sz))) st1
      = Inr (Some (compiled_entry key x ?sz\<lparr>inserted_at := clock st1\<rparr>), st2)"
    "x \<noteq> 0 \<longrightarrow> programs st2 x = programs st1 x \<and> programs st1 x \<noteq> None"
    using store_step [OF inv np, of "clock st1" key ?sz] by blast
  have "a = x" "st' = st2" using mp(2) w np wn st2(1) by simp_all
  moreover have "ane_compile (ae_rt E) (prog_text mp) [(''weight.bin'', blob_data blob)] ''matmul_f16'' = programs st1 x"
    using np a \<open>a = x\<close> by (auto simp: new_program_def split: option.splits)
  ultimately show ?thesis using that [OF mp(1) w] st2(2) a by (auto simp: program_at_def)
qed

lemma matmul_build_none:
  assumes inv: "api_inv st" and b: "matmul_build E B key M K N st = Inr (0, st')"
  shows "compile_refused E M K N"
proof (cases "matmul_conv1x1_program K N M ''weight.bin''")
  case (Inr mp)
  have wn: "prog_weight_name mp = ''weight.bin''"
    using Inr by (auto simp: matmul_conv1x1_program_def Let_def bind_res_Inr)
  have "next_program st \<noteq> 0" using refs_okD(8) [OF api_invD(2) [OF inv]] by simp
  then show ?thesis using b Inr wn
    by (fastforce simp: matmul_build_def compile_refused_def new_program_def bind_res_Inr Let_def split: option.splits)
qed (simp add: compile_refused_def)

definition matmul_key :: "16 word list \<Rightarrow> int \<Rightarrow> int \<Rightarrow> int \<Rightarrow> CacheKey" where
  "matmul_key B M K N = \<lparr>k_op = LIBANE_OP_MATMUL, k_shape = matmul_shape M N,
     weight_hash = xxhash64 (take (nat K * nat N * 2) (half_bytes B)) 0\<rparr>"

lemma matmul_program_cases:
  assumes inv: "api_inv st" and pos: "0 < K" "0 < N" and run: "matmul_program E B M K N st = Inr (a, st')"
  obtains (hit) e where "e \<in> set (entries (api_cache st))" "e_key e = matmul_key B M K N"
      "a = (if is_ane e then backend_handle e else 0)" "programs st' = programs st"
  | (build) c where "api_inv (st\<lparr>api_cache := c\<rparr>)" "matmul_build E B (matmul_key B M K N) M K N (st\<lparr>api_cache := c\<rparr>) = Inr (a, st')"
      "matmul_key B M K N \<notin> e_key ` set (entries (api_cache st))"
proof -
  obtain blob where blob: "from_fp16 (half_bytes B) (nat K * nat N * 2) = Inr blob"
    using run by (auto simp: matmul_program_def bind_res_Inr)
  have "nat K * nat N * 2 \<noteq> 0" using pos by simp
  then have key: "\<lparr>k_op = LIBANE_OP_MATMUL, k_shape = matmul_shape M N, weight_hash = blob_hash blob\<rparr> = matmul_key B M K N"
    using from_fp16_data(3) [OF blob] by (simp add: matmul_key_def)
  obtain c where c: "with_cache (cache_get (matmul_key B M K N)) st
      = Inr (spec_lookup (matmul_key B M K N) (entries (api_cache st)), st\<lparr>api_cache := c\<rparr>)"
    "api_inv (st\<lparr>api_cache := c\<rparr>)"
    using get_step [OF inv] by blast
  note look = spec_lookup_cases [of "matmul_key B M K N" "entries (api_cache st)"]
  show ?thesis
  proof (cases "spec_lookup (matmul_key B M K N) (entries (api_cache st))")
    case None
    then have "matmul_build E B (matmul_key B M K N) M K N (st\<lparr>api_cache := c\<rparr>) = Inr (a, st')"
      using run blob key c(1) by (simp add: matmul_program_def Let_def)
    then show ?thesis using build [OF c(2)] look None by simp
  next
    case (Some e)
    then have "a = (if is_ane e then backend_handle e else 0)" "st' = st\<lparr>api_cache := c\<rparr>"
      using run blob key c(1) by (auto simp: matmul_program_def Let_def split: if_splits)
    then show ?thesis using hit [of e] look Some by simp
  qed
qed


text \<open>The value of a device product, from the weights of the program it ran.\<close>

lemma device_value:
  assumes E: "api_sized E" and inv: "api_inv st1" and args: "matmul_args (Some A) (Some B) (Some C) M K N" and pos: "0 < M" "0 < K" "0 < N"
    and prog: "runs_conv1x1 E dot (nat K) (nat N) (nat M) prog W"
    and run: "matmul_dispatch E prog A C (nat M) (nat K) (nat N) (api_pool st1) = Inr (Some C', p')"
    and W: "\<forall>n < nat N. \<forall>k < nat K. W ! (n * nat K + k) = V n k"
  shows "\<forall>m < nat M. \<forall>n < nat N. C' ! (m * nat N + n) = dot (map (V n) [0..<nat K]) (map (\<lambda>k. A ! (m * nat K + k)) [0..<nat K])"
proof (intro allI impI)
  fix m n assume mn: "m < nat M" "n < nat N"
  have a: "M * K < 2 ^ 31" "M * N < 2 ^ 31" "nat M * nat K \<le> length A" "nat M * nat N \<le> length C" using args pos by simp_all
  note dispatch_value [OF E api_invD(3) [OF inv] a(3,4) nat_prod_small [OF pos(1,2) a(1)] nat_prod_small [OF pos(1,3) a(2)] prog run]
  then have "C' ! (m * nat N + n) = dot (map (\<lambda>k. W ! (n * nat K + k)) [0..<nat K]) (map (\<lambda>k. A ! (m * nat K + k)) [0..<nat K])"
    using mn by blast
  moreover have "map (\<lambda>k. W ! (n * nat K + k)) [0..<nat K] = map (V n) [0..<nat K]" using W mn(2) by simp
  ultimately show "C' ! (m * nat N + n) = dot (map (V n) [0..<nat K]) (map (\<lambda>k. A ! (m * nat K + k)) [0..<nat K])" by simp
qed

lemma matmul_program_fresh:
  assumes "api_inv st" "0 < K" "0 < N" "matmul_program E B M K N st = Inr (a, st')"
    and new: "matmul_key B M K N \<notin> e_key ` set (entries (api_cache st))"
  shows "\<exists>c. api_inv (st\<lparr>api_cache := c\<rparr>) \<and> matmul_build E B (matmul_key B M K N) M K N (st\<lparr>api_cache := c\<rparr>) = Inr (a, st')"
  using assms(1-4)
proof (cases rule: matmul_program_cases)
  case (hit e)
  then have "matmul_key B M K N \<in> e_key ` set (entries (api_cache st))" by (metis imageI)
  then show ?thesis using new by simp
qed blast

lemma fresh_product:
  assumes E: "api_sized E" and c: "api_inv s0" "matmul_build E B key M K N s0 = Inr (a, st1)"
    and inv1: "api_inv st1" and args: "matmul_args (Some A) (Some B) (Some C) M K N" and pos: "0 < M" "0 < K" "0 < N"
    and conv: "compiles_conv1x1 E dot K N M" and a: "a \<noteq> 0" and prog: "program_at a st1 = Inr prog"
    and run: "matmul_dispatch E prog A C (nat M) (nat K) (nat N) (api_pool st1) = Inr (Some C', p')"
  shows "\<forall>m < nat M. \<forall>n < nat N. C' ! (m * nat N + n) =
         dot (map (\<lambda>k. fp32_to_fp16 (fp16_to_fp32 (B ! (k * nat N + n)))) [0..<nat K]) (map (\<lambda>k. A ! (m * nat K + k)) [0..<nat K])"
proof -
  have B: "K * N < 2 ^ 31" "nat K * nat N \<le> length B" using args pos by simp_all
  obtain mp w blob prog' where b: "matmul_conv1x1_program K N M ''weight.bin'' = Inr mp" "widen_weights B K N = Inr w"
    "from_fp32 w (nat K) (nat N) True = Inr blob"
    "ane_compile (ae_rt E) (prog_text mp) [(''weight.bin'', blob_data blob)] ''matmul_f16'' = Some prog'" "program_at a st1 = Inr prog'"
    using matmul_build_program [OF c a] by blast
  have "prog' = prog" using b(5) prog by simp
  then have conv1: "runs_conv1x1 E dot (nat K) (nat N) (nat M) prog (halves (drop 128 (blob_data blob)))"
    using conv b(1,4) unfolding compiles_conv1x1_def by blast
  obtain d where d: "blob_data blob = blob_header (nat K * nat N * 2) @ half_bytes d"
    "\<forall>r < nat K. \<forall>c < nat N. d ! (c * nat K + r) = fp32_to_fp16 (w ! (r * nat N + c))"
    using from_fp32_transposed [OF b(3)] by blast
  have w: "\<forall>i < nat K * nat N. w ! i = fp16_to_fp32 (B ! i)" using widen_ok [OF pos(2,3) B] b(2) by auto
  have W: "\<forall>n < nat N. \<forall>k < nat K. halves (drop 128 (blob_data blob)) ! (n * nat K + k) = fp32_to_fp16 (fp16_to_fp32 (B ! (k * nat N + n)))"
  proof (intro allI impI)
    fix n k assume nk: "n < nat N" "k < nat K"
    have "k * nat N + n < nat K * nat N" using grid_pos [of k n "nat K" "nat N"] nk by simp
    then show "halves (drop 128 (blob_data blob)) ! (n * nat K + k) = fp32_to_fp16 (fp16_to_fp32 (B ! (k * nat N + n)))"
      using d w nk by (simp add: halves_half_bytes)
  qed
  show ?thesis by (rule device_value [OF E inv1 args pos conv1 run W])
qed




section \<open>One key for two layouts of the weights\<close>

lemma unat_size: "k < 2 ^ 64 \<Longrightarrow> unat (of_nat k :: size_t) = k"
  by (simp add: unat_of_nat)

lemma prog_text_nonempty: "prog_text p \<noteq> []"
  by (simp add: prog_text_def render_code_def header_def)

lemma compile_fresh:
  assumes inv: "api_inv st" and len: "0 < n" "unat n \<le> length d"
    and run: "libane_compile E op shape (Some d) n st = Inr (Some h, st1)"
    and new: "\<lparr>k_op = op, k_shape = shape, weight_hash = xxhash64 (take (unat n) d) 0\<rparr> \<notin> e_key ` set (entries (api_cache st))"
  obtains mp blob prog e where "op_program (ae_mil E) op (to_mil_shape shape) = Some (Inr mp)" "from_fp16 d (unat n) = Inr blob"
    "e \<in> set (entries (api_cache st1))" "e_key e = \<lparr>k_op = op, k_shape = shape, weight_hash = xxhash64 (take (unat n) d) 0\<rparr>"
    "is_ane e" "backend_handle e \<noteq> 0" "program_at (backend_handle e) st1 = Inr prog"
    "prog_weight_name mp \<noteq> [] \<longrightarrow> ane_compile (ae_rt E) (prog_text mp) [(prog_weight_name mp, blob_data blob)] (op_name op) = Some prog"
proof -
  obtain blob where blob: "from_fp16 d (unat n) = Inr blob" using from_fp16_ok [of d "unat n"] len(2) by (auto simp: is_ok_iff)
  note bd = from_fp16_data [OF blob]
  let ?key = "\<lparr>k_op = op, k_shape = shape, weight_hash = xxhash64 (take (unat n) d) 0\<rparr>"
  have "unat n \<noteq> 0" using len(1) by (simp add: unat_eq_0 word_neq_0_conv)
  then have hash: "blob_hash blob = xxhash64 (take (unat n) d) 0" using bd(3) by simp
  have ne: "blob_data blob \<noteq> []" using bd(2) by (simp add: blob_header_def)
  obtain c where c: "with_cache (cache_get ?key) st = Inr (spec_lookup ?key (entries (api_cache st)), st\<lparr>api_cache := c\<rparr>)"
    "api_inv (st\<lparr>api_cache := c\<rparr>)"
    using get_step [OF inv] by blast
  have none: "spec_lookup ?key (entries (api_cache st)) = None"
  proof (cases "spec_lookup ?key (entries (api_cache st))")
    case (Some x)
    then have "x \<in> set (entries (api_cache st))" "?key = e_key x"
      using spec_lookup_cases [of ?key "entries (api_cache st)"] by simp_all
    then have "?key \<in> e_key ` set (entries (api_cache st))" by (intro image_eqI)
    then show ?thesis using new by blast
  qed simp
  let ?st = "st\<lparr>api_cache := c\<rparr>"
  let ?go = "\<lambda>_. if use_ane E ?st then case op_program (ae_mil E) op (to_mil_shape shape) of
        None \<Rightarrow> Inr (None, ?st)
      | Some r \<Rightarrow> try_catch r (Inr (None, ?st)) (\<lambda>mp. compile_and_store E op shape n blob ?key mp ?st) else Inr (None, ?st)"
  have wb: "weights_blob (Some d) n = Inr blob" using blob len(1) by (simp add: weights_blob_def)
  have "libane_compile E op shape (Some d) n st = try_catch (validate (to_mil_shape shape)) (Inr (None, ?st)) ?go"
    by (simp only: libane_compile_def Let_def wb bind_res.simps hash c(1) none prod.case option.case)
  then have "?go () = Inr (Some h, st1)"
    using try_catch_cases [of "validate (to_mil_shape shape)" "Inr (None, ?st)" ?go] validate_fails run by fastforce
  then obtain r where r: "op_program (ae_mil E) op (to_mil_shape shape) = Some r"
    "try_catch r (Inr (None, ?st)) (\<lambda>mp. compile_and_store E op shape n blob ?key mp ?st) = Inr (Some h, st1)"
    by (auto split: if_splits option.splits)
  then obtain mp where mp: "r = Inr mp" "compile_and_store E op shape n blob ?key mp ?st = Inr (Some h, st1)"
    using try_catch_cases [of r "Inr (None, ?st)" "\<lambda>mp. compile_and_store E op shape n blob ?key mp ?st"] op_program_throws by fastforce
  let ?ws = "if prog_weight_name mp \<noteq> [] \<and> blob_data blob \<noteq> [] then [(prog_weight_name mp, blob_data blob)] else []"
  obtain a st2 where np: "new_program E (prog_text mp) ?ws (op_name op) ?st = (a, st2)"
    by (cases "new_program E (prog_text mp) ?ws (op_name op) ?st")
  let ?e = "compiled_entry ?key a (n + of_nat (length (prog_text mp)) + 4096)"
  obtain st3 where st3: "with_cache (cache_put (clock st2) (Some ?e)) st2 = Inr (Some (?e\<lparr>inserted_at := clock st2\<rparr>), st3)"
    "?e\<lparr>inserted_at := clock st2\<rparr> \<in> set (entries (api_cache st3))"
    "a \<noteq> 0 \<longrightarrow> programs st3 a = programs st2 a \<and> programs st2 a \<noteq> None"
    using store_step [OF c(2) np, of "clock st2" ?key "n + of_nat (length (prog_text mp)) + 4096"] by blast
  have eq: "compile_and_store E op shape n blob ?key mp ?st = (if a = 0 then Inr (None, st2)
      else Inr (Some (fst (new_handle \<lparr>h_entry = ?e\<lparr>inserted_at := clock st2\<rparr>, h_op = op, h_shape = shape\<rparr> st3)),
                snd (new_handle \<lparr>h_entry = ?e\<lparr>inserted_at := clock st2\<rparr>, h_op = op, h_shape = shape\<rparr> st3)))"
    using np st3(1) prog_text_nonempty [of mp] by (simp add: compile_and_store_def split_beta Let_def)
  then have a: "a \<noteq> 0" "st1 = snd (new_handle \<lparr>h_entry = ?e\<lparr>inserted_at := clock st2\<rparr>, h_op = op, h_shape = shape\<rparr> st3)"
    using mp(2) by (auto split: if_splits)
  then obtain prog where prog: "programs st2 a = Some prog" "programs st1 a = Some prog"
    using st3(3) by (auto simp: new_handle_def)
  show ?thesis
  proof (rule that [OF r(1) [unfolded mp(1)] blob])
    show "?e\<lparr>inserted_at := clock st2\<rparr> \<in> set (entries (api_cache st1))" using st3(2) a(2) by (simp add: new_handle_def)
    show "e_key (?e\<lparr>inserted_at := clock st2\<rparr>) = ?key" by (simp add: compiled_entry_def)
    show "is_ane (?e\<lparr>inserted_at := clock st2\<rparr>)" "backend_handle (?e\<lparr>inserted_at := clock st2\<rparr>) \<noteq> 0"
      using a(1) by (simp_all add: compiled_entry_def)
    show "program_at (backend_handle (?e\<lparr>inserted_at := clock st2\<rparr>)) st1 = Inr prog"
      using prog(2) by (simp add: compiled_entry_def program_at_def)
    show "prog_weight_name mp \<noteq> [] \<longrightarrow> ane_compile (ae_rt E) (prog_text mp) [(prog_weight_name mp, blob_data blob)] (op_name op) = Some prog"
      using np a(1) ne prog(1) by (auto simp: new_program_def split: option.splits)
  qed
qed

text \<open>
  C40. The key collision. \<open>libane_compile\<close> of a square \<open>MATMUL\<close> caches its program under the
  key that \<open>libane_matmul_f16\<close> uses for the same \<open>B\<close>, but takes the weights as they are, where
  \<open>libane_matmul_f16\<close> transposes them. So after such a compilation \<open>libane_matmul_f16\<close> silently
  returns the product of \<open>A\<close> with the transpose of \<open>B\<close> - the inner products are with the rows
  of \<open>B\<close> - unless it leaves the device for the CPU.
\<close>

theorem matmul_after_compile_uses_rows:
  assumes "api_sized E" "calls_ok E cs (mk_libane io)" "run_calls E cs (mk_libane io) = Inr st"
    and args: "matmul_args (Some A) (Some B) (Some C) M N N" and pos: "0 < M" "0 < N" and lenB: "length B = nat N * nat N"
    and conv: "compiles_conv1x1 E dot N N M" and new: "matmul_key B M N N \<notin> e_key ` set (entries (api_cache st))"
    and comp: "libane_compile E LIBANE_OP_MATMUL (matmul_shape M N) (Some (half_bytes B)) (of_nat (2 * length B)) st = Inr (Some h, st1)"
    and run: "libane_matmul_f16 E (Some A) (Some B) (Some C) M N N st1 = Inr (s, Some C', st')"
  shows "s = LIBANE_OK \<and> (fb_matmul_f16 (ae_floats E) A B C M N N = Inr C'
      \<and> (\<not> use_ane E st1 \<or> \<not> shapes_ok M N N \<or> dispatch_refused E M N N)
    \<or> (\<forall>m < nat M. \<forall>n < nat N. C' ! (m * nat N + n) =
         dot (map (\<lambda>k. B ! (n * nat N + k)) [0..<nat N]) (map (\<lambda>k. A ! (m * nat N + k)) [0..<nat N])))"
proof -
  have inv: "api_inv st" using run_calls_ok [OF assms(1) mk_libane_ok assms(2)] assms(3) by simp
  have NN: "N * N < 2 ^ 31" "nat N * nat N \<le> length B" using args pos by simp_all
  have sz: "unat (of_nat (2 * length B) :: size_t) = 2 * length B"
    using nat_prod_small [OF pos(2,2) NN(1)] lenB by (intro unat_size) simp
  have pos_n: "0 < (of_nat (2 * length B) :: size_t)" using sz lenB pos by (simp add: word_less_nat_alt)
  have key: "\<lparr>k_op = LIBANE_OP_MATMUL, k_shape = matmul_shape M N, weight_hash = xxhash64 (take (unat (of_nat (2 * length B) :: size_t)) (half_bytes B)) 0\<rparr>
      = matmul_key B M N N"
    by (simp only: sz) (simp add: matmul_key_def lenB)
  obtain r where "libane_compile E LIBANE_OP_MATMUL (matmul_shape M N) (Some (half_bytes B)) (of_nat (2 * length B)) st = Inr r"
    "compiled_handle st r"
    using compile_ok [OF inv, of "Some (half_bytes B)" "of_nat (2 * length B)" E LIBANE_OP_MATMUL "matmul_shape M N"] sz
    by (auto simp: weights_given_def)
  then have inv1: "api_inv st1" using comp by (simp add: compiled_handle_def)
  have le: "unat (of_nat (2 * length B) :: size_t) \<le> length (half_bytes B)" by (simp only: sz length_half_bytes)
  have new': "\<lparr>k_op = LIBANE_OP_MATMUL, k_shape = matmul_shape M N,
      weight_hash = xxhash64 (take (unat (of_nat (2 * length B) :: size_t)) (half_bytes B)) 0\<rparr> \<notin> e_key ` set (entries (api_cache st))"
    unfolding key by (rule new)
  obtain mp blob q e where f: "op_program (ae_mil E) LIBANE_OP_MATMUL (to_mil_shape (matmul_shape M N)) = Some (Inr mp)"
    "from_fp16 (half_bytes B) (unat (of_nat (2 * length B) :: size_t)) = Inr blob"
    "e \<in> set (entries (api_cache st1))" "e_key e = matmul_key B M N N" "is_ane e" "backend_handle e \<noteq> 0" "program_at (backend_handle e) st1 = Inr q"
    "prog_weight_name mp \<noteq> [] \<longrightarrow> ane_compile (ae_rt E) (prog_text mp) [(prog_weight_name mp, blob_data blob)] (op_name LIBANE_OP_MATMUL) = Some q"
    by (rule compile_fresh [OF inv pos_n le comp new', unfolded key])
  have mp: "matmul_conv1x1_program N N M ''weight.bin'' = Inr mp"
    using f(1) by (simp add: op_program_def Let_def to_mil_shape_def matmul_shape_def)
  then have wn: "prog_weight_name mp = ''weight.bin''" by (auto simp: matmul_conv1x1_program_def Let_def bind_res_Inr)
  have data: "halves (drop 128 (blob_data blob)) = B" using from_fp16_data(2) [OF f(2)] sz by (simp add: halves_half_bytes)
  have q: "runs_conv1x1 E dot (nat N) (nat N) (nat M) q B"
    using conv mp f(8) wn data unfolding compiles_conv1x1_def by fastforce
  have hit: "x = backend_handle e \<and> programs st2 = programs st1 \<and> api_inv st2" if x: "matmul_program E B M N N st1 = Inr (x, st2)" for x st2
  proof -
    have "api_inv st2" using matmul_program_ok [OF inv1 pos(2,2) NN, of E M] x by auto
    with inv1 pos(2,2) x show ?thesis
    proof (cases rule: matmul_program_cases)
      case (hit e')
      have "inj_on e_key (set (entries (api_cache st1)))"
        using cache_invD(2) [OF api_invD(1) [OF inv1]] by (simp add: distinct_map)
      then have "e' = e" using hit(1,2) f(3,4) by (metis inj_onD)
      then show ?thesis using hit(3,4) f(5) \<open>api_inv st2\<close> by simp
    next
      case (build c)
      then show ?thesis using f(3,4) by (metis imageI)
    qed
  qed
  have W: "\<forall>n < nat N. \<forall>k < nat N. B ! (n * nat N + k) = (\<lambda>n k. B ! (n * nat N + k)) n k" by simp
  from run pos(1,2,2) show ?thesis
  proof (cases rule: matmul_result_cases)
    case cpu
    then show ?thesis by blast
  next
    case (no_program st2)
    then show ?thesis using hit f(6) by metis
  next
    case (no_dispatch x st2 prog p')
    then show ?thesis using matmul_dispatch_refused [OF assms(1) _ args pos(1,2,2)] hit by blast
  next
    case (device x st2 prog p')
    then have "prog = q" using hit [OF device(2)] f(7) by (simp add: program_at_def)
    then show ?thesis
      using device_value [OF assms(1) _ args pos(1,2,2) q _ W] hit [OF device(2)] device(1,5) by blast
  qed
qed


section \<open>Examples\<close>

lemma demo_acquires: "\<exists>b p'. acquire demo_env n p = Inr (b, p')"
  by (auto simp: acquire_def allocate_def demo_env_def Let_def split: option.splits list.splits)

lemma run_program_demo: "run_program demo_api prog src n k p \<noteq> Inl Bad_alloc"
proof
  assume "run_program demo_api prog src n k p = Inl Bad_alloc"
  moreover have "copy_from s j b \<noteq> Inl Bad_alloc" "copy_to j b \<noteq> Inl Bad_alloc" for s j b
    by (auto simp: copy_from_def copy_to_def memcpy_into_def Let_def bind_res_Inl split: option.splits if_splits)
  moreover have "acquire (ae_alloc demo_api) j p \<noteq> Inl e" for j p e
    using demo_acquires [of j p] by (auto simp: demo_api_def)
  ultimately show False
    unfolding run_program_def acquire_with_data_def by (auto simp: bind_res_Inl Let_def split: option.splits)
qed

lemma demo_matmul:
  assumes inv: "api_inv st" and args: "matmul_args (Some A) (Some B) (Some C) M K N" and pos: "0 < M" "0 < K" "0 < N"
  shows "\<exists>s C' st'. libane_matmul_f16 demo_api (Some A) (Some B) (Some C) M K N st = Inr (s, Some C', st')"
proof (cases "libane_matmul_f16 demo_api (Some A) (Some B) (Some C) M K N st")
  case (Inr r)
  then show ?thesis using matmul_f16_ok [OF demo_api_sized inv args] by (cases r) auto
next
  case (Inl e)
  then have "libane_matmul_f16 demo_api (Some A) (Some B) (Some C) M K N st = Inl Bad_alloc"
    using matmul_f16_ok [OF demo_api_sized inv args] by simp
  have a: "M * K < 2 ^ 31" "K * N < 2 ^ 31" "M * N < 2 ^ 31" "nat M * nat K \<le> length A" "nat K * nat N \<le> length B" "nat M * nat N \<le> length C"
    using args pos by simp_all
  have cpu: "matmul_on_cpu demo_api A B C M K N s \<noteq> Inl Bad_alloc" for s
    using fb_matmul_f16_ok [OF pos a api_sizedD(5) [OF demo_api_sized]] by (auto simp: matmul_on_cpu_def)
  obtain x st1 where x: "matmul_program demo_api B M K N st = Inr (x, st1)" "api_inv st1" "x \<noteq> 0 \<longrightarrow> (\<exists>p. program_at x st1 = Inr p)"
    using matmul_program_ok [OF inv pos(2,3) a(2,5)] by blast
  have disp: "matmul_dispatch demo_api prog A C (nat M) (nat K) (nat N) p \<noteq> Inl Bad_alloc" for prog p
  proof
    have loop: "copy_at src ps d \<noteq> Inl Bad_alloc" for src ps d
      by (induction ps arbitrary: d) (auto simp: copy_at_def bind_res_Inl read_at_def write_at_def split: if_splits)
    assume "matmul_dispatch demo_api prog A C (nat M) (nat K) (nat N) p = Inl Bad_alloc"
    then show False using run_program_demo loop
      by (auto simp: matmul_dispatch_def bind_res_Inl pack_matmul_input_for_ane_def unpack_matmul_output_from_ane_def split: option.splits)
  qed
  show ?thesis using Inl \<open>_ = Inl Bad_alloc\<close> x pos cpu disp
    by (auto simp: libane_matmul_f16_def bind_res_Inl split: if_splits option.splits)
qed

lemma kept_weights_demo:
  "ane_compile (ae_rt demo_api) t [(f, blob)] nm = Some prog \<Longrightarrow> kept_weights prog = halves (drop 128 blob)"
proof -
  assume "ane_compile (ae_rt demo_api) t [(f, blob)] nm = Some prog"
  then have "model_dir prog = map (\<lambda>b. char_of (unat b)) blob" by (auto simp: demo_api_def)
  moreover have "of_nat (of_char (char_of (unat b))) = b" for b :: byte
  proof -
    have "unat b < 256" using unsigned_less [of b, where ?'a = nat] by simp
    then have "of_char (char_of (unat b)) = unat b" by simp
    then show ?thesis by simp
  qed
  ultimately show ?thesis by (simp add: kept_weights_def comp_def drop_map)
qed

lemma demo_conv: "compiles_conv1x1 demo_api demo_dot 8 8 16"
  unfolding compiles_conv1x1_def runs_conv1x1_def
proof (intro allI impI)
  fix mp blob nm prog i u z
  assume c: "ane_compile (ae_rt demo_api) (prog_text mp) [(''weight.bin'', blob)] nm = Some prog"
    and z: "ane_execute demo_api prog i u = Some z"
  obtain x y where xy: "i = Some x" "u = Some y" "z = half_bytes (demo_product prog x) @ drop 256 y"
    using z by (auto simp: demo_api_def split: option.splits if_splits)
  have hz: "halves z = demo_product prog x @ halves (drop 256 y)"
    using xy(3) by (simp add: halves_append halves_half_bytes)
  have "halves z ! (n * nat 16 + m) = demo_dot (map (\<lambda>k. halves (drop 128 blob) ! (n * nat 8 + k)) [0..<nat 8])
      (map (\<lambda>k. halves x ! (k * nat 16 + m)) [0..<nat 8])" if "n < nat 8" "m < nat 16" for n m
  proof -
    have j: "n * 16 + m < 128" "(n * 16 + m) div 16 = n" "(n * 16 + m) mod 16 = m" using that by simp_all
    have "length (demo_product prog x) = 128" by (simp add: demo_product_def)
    then have "halves z ! (n * 16 + m) = demo_product prog x ! (n * 16 + m)" using j(1) hz by (simp add: nth_append)
    also have "\<dots> = demo_dot (map (\<lambda>k. kept_weights prog ! (n * 8 + k)) [0..<8]) (map (\<lambda>k. halves x ! (k * 16 + m)) [0..<8])"
      unfolding demo_product_def using j by (simp only: nth_map_upt diff_zero add_0)
    finally show ?thesis using kept_weights_demo [OF c] by simp
  qed
  then show "\<exists>x y. i = Some x \<and> u = Some y \<and> (\<forall>n < nat 8. \<forall>m < nat 16. halves z ! (n * nat 16 + m) =
      demo_dot (map (\<lambda>k. halves (drop 128 blob) ! (n * nat 8 + k)) [0..<nat 8]) (map (\<lambda>k. halves x ! (k * nat 16 + m)) [0..<nat 8]))"
    using xy by blast
qed

definition demo_A :: "16 word list" where
  "demo_A = map of_nat [0..<128]"

definition demo_B :: "16 word list" where
  "demo_B = map (\<lambda>i. of_nat (15000 + i)) [0..<64]"

lemma demo_args: "matmul_args (Some demo_A) (Some demo_B) (Some (replicate 128 0)) 16 8 8"
  by (simp add: demo_A_def demo_B_def)

lemma no_entries: "entries (api_cache (mk_libane io)) = []"
  by (simp add: mk_libane_def mk_cache_ok)

lemma demo_program: "\<exists>mp. matmul_conv1x1_program 8 8 16 ''weight.bin'' = Inr mp"
  by (simp add: matmul_conv1x1_program_def Let_def validate_def signed_modulo_int_def)

lemma demo_accepts: "use_ane demo_api (mk_libane io)" "shapes_ok 16 8 8" "\<not> compile_refused demo_api 16 8 8"
proof -
  show "\<not> compile_refused demo_api 16 8 8" using demo_program by (auto simp: compile_refused_def demo_api_def)
qed (simp_all add: use_ane_def mk_libane_def demo_api_def shapes_ok_def signed_modulo_int_def)


lemma demo_compiles:
  "\<exists>h st1. libane_compile demo_api LIBANE_OP_MATMUL (matmul_shape 16 8) (Some (half_bytes demo_B)) (of_nat (2 * length demo_B)) (mk_libane True)
     = Inr (Some h, st1)"
proof -
  obtain mp where mp: "matmul_conv1x1_program 8 8 16 ''weight.bin'' = Inr mp" using demo_program by blast
  have v: "validate (to_mil_shape (matmul_shape 16 8)) = Inr ()"
    by (simp add: validate_def to_mil_shape_def matmul_shape_def signed_modulo_int_def)
  have op: "op_program (ae_mil demo_api) LIBANE_OP_MATMUL (to_mil_shape (matmul_shape 16 8)) = Some (Inr mp)"
    using mp by (simp add: op_program_def Let_def to_mil_shape_def matmul_shape_def)
  obtain blob where blob: "weights_blob (Some (half_bytes demo_B)) (of_nat (2 * length demo_B)) = Inr blob"
    using weights_blob_ok [of "Some (half_bytes demo_B)" "of_nat (2 * length demo_B)"] by (auto simp: weights_given_def demo_B_def)
  let ?key = "\<lparr>k_op = LIBANE_OP_MATMUL, k_shape = matmul_shape 16 8, weight_hash = blob_hash blob\<rparr>"
  let ?n = "of_nat (2 * length demo_B) :: size_t"
  obtain c where c: "with_cache (cache_get ?key) (mk_libane True) = Inr (spec_lookup ?key (entries (api_cache (mk_libane True))), (mk_libane True)\<lparr>api_cache := c\<rparr>)"
    "api_inv ((mk_libane True)\<lparr>api_cache := c\<rparr>)"
    using get_step [OF mk_libane_ok] by blast
  have none: "spec_lookup ?key (entries (api_cache (mk_libane True))) = None" by (simp add: no_entries spec_lookup_def)
  let ?st = "(mk_libane True)\<lparr>api_cache := c\<rparr>"
  have ane': "use_ane demo_api ?st" by (simp add: use_ane_def mk_libane_def demo_api_def)
  have "libane_compile demo_api LIBANE_OP_MATMUL (matmul_shape 16 8) (Some (half_bytes demo_B)) ?n (mk_libane True)
      = compile_and_store demo_api LIBANE_OP_MATMUL (matmul_shape 16 8) ?n blob ?key mp ?st"
    by (simp only: libane_compile_def Let_def blob bind_res.simps c(1) none prod.case option.case v try_catch.simps ane' if_True op)
  moreover obtain h st1 where h: "compile_and_store demo_api LIBANE_OP_MATMUL (matmul_shape 16 8) ?n blob ?key mp ?st = Inr (h, st1)"
    using compile_and_store_ok [OF c(2)] by (metis surj_pair)
  moreover have "h \<noteq> None"
  proof -
    have nz: "fst (new_program demo_api t ws nm ?st) \<noteq> 0" for t ws nm by (simp add: new_program_def demo_api_def mk_libane_def)
    then show ?thesis using h prog_text_nonempty [of mp]
      by (auto simp: compile_and_store_def Let_def split_beta bind_res_Inr nz simp del: fst_conv split: option.splits)
  qed
  ultimately show ?thesis by auto
qed

theorem matmul_after_compile_uses_rows_witness:
  "\<exists>h st1 s C' st'. libane_compile demo_api LIBANE_OP_MATMUL (matmul_shape 16 8) (Some (half_bytes demo_B)) (of_nat (2 * length demo_B)) (mk_libane True)
       = Inr (Some h, st1)
     \<and> libane_matmul_f16 demo_api (Some demo_A) (Some demo_B) (Some (replicate 128 0)) 16 8 8 st1 = Inr (s, Some C', st')
     \<and> s = LIBANE_OK \<and> (fb_matmul_f16 (ae_floats demo_api) demo_A demo_B (replicate 128 0) 16 8 8 = Inr C'
      \<or> (\<forall>m < 16. \<forall>n < 8. C' ! (m * 8 + n) = demo_dot (map (\<lambda>k. demo_B ! (n * 8 + k)) [0..<8]) (map (\<lambda>k. demo_A ! (m * 8 + k)) [0..<8])))"
proof -
  obtain h st1 where c: "libane_compile demo_api LIBANE_OP_MATMUL (matmul_shape 16 8) (Some (half_bytes demo_B)) (of_nat (2 * length demo_B)) (mk_libane True)
      = Inr (Some h, st1)" using demo_compiles by blast
  have "weights_given (Some (half_bytes demo_B)) (of_nat (2 * length demo_B))" by (simp add: weights_given_def demo_B_def)
  from compile_ok [OF mk_libane_ok [of True] this, of demo_api LIBANE_OP_MATMUL "matmul_shape 16 8"] c
  have inv: "api_inv st1" by (auto simp: compiled_handle_def)
  obtain s C' st' where r: "libane_matmul_f16 demo_api (Some demo_A) (Some demo_B) (Some (replicate 128 0)) 16 8 8 st1 = Inr (s, Some C', st')"
    using demo_matmul [OF inv demo_args] by auto
  have new: "matmul_key demo_B 16 8 8 \<notin> e_key ` set (entries (api_cache (mk_libane True)))" by (simp add: no_entries)
  have start: "calls_ok demo_api [] (mk_libane True)" "run_calls demo_api [] (mk_libane True) = Inr (mk_libane True)" by simp_all
  have len: "length demo_B = nat 8 * nat 8" by (simp add: demo_B_def)
  show ?thesis
    using matmul_after_compile_uses_rows [OF demo_api_sized start demo_args _ _ len demo_conv new c r] c r by auto
qed

end
