(* ===== verification/Spec2Isabelle.thy ===== *)
theory Spec2Isabelle
  imports Prelude MilShape LibaneOps AneGraph GraphValidator FusionRules CompileCache BufferManager MilPrograms MilFragments MilFused WeightBlob MilBackend HwxEmitter CompilerBackend EspressoBuilder EspressoBackend GraphCompiler GraphExecutor CpuFallback EmittedText AneRuntime LibaneApi LibaneResources LibaneSafety LibaneMatmul
begin

text \<open>
  A model of libane, a library that compiles and runs tensor operations on the Apple Neural
  Engine (ANE), and the properties that make it correct. Paths are relative to src/.

  \<^bold>\<open>The program.\<close> A client uses the C interface (src/libane.cpp, include/libane.h) in three ways. Single
  operations: \<open>libane_compile\<close> builds a MIL text (src/core/mil_builder.cpp) with its weights as a
  blob, has the runtime compile it, and keeps the result in an LRU cache
  (src/core/compile_cache.cpp); a handle refers to the cache entry. \<open>libane_execute\<close> copies the data
  through buffers of a pool (src/core/buffer_manager.cpp) and dispatches; the matrix products do both
  steps and fall back to the CPU (src/fallback/fallback.cpp). Graphs: builder calls make an
  \<open>AneGraph\<close> (src/graph/ane_graph.cpp); \<open>GraphCompiler\<close> validates it (graph_validator.cpp), splits its nodes into
  fusion groups (fusion_rules.cpp), plans the allocation size, and compiles each group through the
  first backend that owns it: \<open>HwxBackend\<close> (patches cached binaries, hwx_emitter.cpp),
  \<open>EspressoBackend\<close> (writes a bundle of files, espresso_builder.cpp) or \<open>MilBackend\<close> (emits MIL).
  \<open>GraphExecutor\<close> runs the groups in order. Raw MIL: the client passes its own text.

  \<^bold>\<open>Conventions.\<close> \<open>Prelude\<close> holds the machine types (\<open>size_t\<close> and \<open>uint32_t\<close> values as words or, for ids,
  as \<open>nat\<close> with the wrap-around written out; C \<open>int\<close> as \<open>int\<close> with overflow as undefined behaviour), the
  result type \<open>'a res\<close> = \<open>error + 'a\<close> with \<open>bind_res\<close>, and decimal rendering. An error is a C++ exception or
  \<open>Undefined_behaviour\<close>, so that every throw, null result and out-of-bounds access is a branch of
  the model. State is passed explicitly in records. \<open>float\<close> values are bit patterns; their arithmetic
  and printing are parameters.

  \<^bold>\<open>Theories, in dependency order.\<close>
  \<^item> \<open>LibaneOps\<close>, \<open>MilShape\<close>: the enums of the C header; \<open>TensorShape\<close> with \<open>validate\<close>, \<open>numel\<close>, \<open>bytes\<close>.
  \<^item> \<open>AneGraph\<close>: the graph IR and its builder calls; \<open>built\<close> is reachability by builder calls, \<open>graph_wf\<close> its invariant.
  \<^item> \<open>GraphValidator\<close>: the seven checks, with errors as data; \<open>node_requires\<close> is the declarative specification.
    The cycle check is the queue loop \<open>kahn\<close>, terminating by the sum of the remaining in-degrees and
    the queue, and correct for arbitrary edges.
  \<^item> \<open>FusionRules\<close>: the greedy pass; \<open>pass_inv\<close> is its loop invariant.
  \<^item> \<open>CompileCache\<close>: the list with node addresses and the map into it, every critical section a step, so that
    threads interleave; refinement to a list in recency order. The locale \<open>program_store\<close> is what a
    client of the cache relies on, interpreted on the model.
  \<^item> \<open>BufferManager\<close>: buffers, tensor layouts and the pool; \<open>pool_run\<close> is reachability.
  \<^item> \<open>MilText\<close>, \<open>MilPrograms\<close>, \<open>MilFragments\<close>, \<open>MilFused\<close>: statements as data whose rendering is the emitted
    line; \<open>scoped\<close> (single definition before use) is proved once per emitter (\<open>frag_rules\<close>).
  \<^item> \<open>Half\<close>, \<open>WeightBlob\<close>: the software conversions between binary16 and binary32, \<open>xxhash64\<close>, blobs.
  \<^item> \<open>MilBackend\<close>, \<open>HwxEmitter\<close>, \<open>EspressoBuilder\<close>, \<open>EspressoBackend\<close>: the backends. \<open>CompilerBackend\<close> holds the runtime record, the
    interface and \<open>HwxBackend\<close>; its locale \<open>compiler_backend\<close> is the contract of a backend, and \<open>routed_backend\<close>
    (in \<open>GraphCompiler\<close>) shows that the router over backends is one.
  \<^item> \<open>GraphCompiler\<close>, \<open>GraphExecutor\<close>: plan, allocation size, compilation with the destructor on failure; execution over
    surfaces, refined to \<open>dataflow\<close>, an evaluation of the groups over a store of tensor values.
  \<^item> \<open>CpuFallback\<close>: every fallback operation over memory, in-place calls included.
  \<^item> \<open>EmittedText\<close>, \<open>AneRuntime\<close>: the plain C++ of src/runtime/ane_runtime.mm (names from a signature, checks
    and reordering of surfaces), and what it does on emitted text.
  \<^item> \<open>LibaneApi\<close>: the C interface over the process-wide state \<open>libane\<close>. \<open>LibaneResources\<close> proves that each operation
    keeps \<open>api_inv\<close> (cache, pool, and the loaded programs are exactly the owned ones); \<open>LibaneSafety\<close>
    lifts that to sequences of calls; \<open>LibaneMatmul\<close> is what the matrix product computes.

  \<^bold>\<open>Properties.\<close> C1-C5: the validator is exact, its one undefined behaviour, the cycle check, the builder.
  C6-C8: fusion partitions the nodes, keeps the data flow and has exact interfaces. C9-C12: the cache refines LRU,
  is bounded, loses nothing and is transparent. C13, C14, C20: the pool's ownership and data round trips. C16, C18, C19, C27:
  conversions and blobs. C21-C23: translation of groups. C24-C26, C28: the two file backends. C29-C31: the
  graph compiler. C32-C34: the executor is memory safe, refines data flow, and what the client path
  computes. C35, C36: fallback. C15, C17: the order of surfaces. C37-C40: the C interface is safe, gives
  every program back, and computes row-major products, except after the key collision. The findings of
  the manifest list where the code departs from its documentation or intent.

  \<^bold>\<open>Loops and bounds.\<close> Most loops are structural. \<open>kahn\<close>, \<open>evict_for\<close>, \<open>replace_vmaddr\<close> and \<open>sig_names\<close> have measures
  (remaining edges, entries, bytes, characters). \<open>stride_search\<close> counts down the code's own 40960
  iterations. The normalisation loop of the Espresso conversion has no bound in the code: it is a partial
  function, shown total on every pattern it is called with (C27). There is no other fuel. Hypotheses: \<open>fits\<close> (fewer than
  2^32 tensors, weight sizes below 2^64), \<open>env_ok\<close> and \<open>api_sized\<close> (memory and results have the
  requested size), \<open>runs_conv1x1\<close> (the documented convolution), \<open>env_plain\<close> (no colon in printed floats).

  \<^bold>\<open>Not modelled.\<close> The Objective-C part of src/runtime/ane_runtime.mm: it is calls into a private framework,
  and appears as the parameters \<open>ane_runtime\<close>, \<open>exec_env\<close>, \<open>api_env\<close> and \<open>device\<close>. The scan of a directory for HWX
  files and the file system (parameters). Logging, the text of error messages, the version string and the log
  level. Concurrency beyond the cache's critical sections: the C interface runs one call at a time. The
  sequences of C37 leave out the graph calls, whose buffers C29 and C32 account for. Builds without IOSurface
  for the executor. The Python and Swift bindings, tools, examples and tests.
\<close>

end
